(* ===== verification/Scrap_Prelude.thy ===== *)
theory Scrap_Prelude
  imports Main "HOL-Library.Word"
begin

text \<open>
  The prelude of the development: the machine types of the Go sources, byte strings, slices,
  the fixed-width integer encodings of package \<open>encoding/binary\<close>, and the generic lemmas
  every component theory relies on.

  Go's \<open>[]byte\<close> and \<open>string\<close> are both byte sequences and are modelled as \<open>8 word list\<close>.
  Unsigned integers keep their width as words. The fixed-width encodings share one contract,
  the locale \<open>fixed_codec\<close>: every encoding has the same length and decoding inverts it in both
  directions. It is interpreted on the little-endian and big-endian encodings used by the code.
\<close>

section \<open>Machine types\<close>

type_synonym u8 = "8 word"
type_synonym u16 = "16 word"
type_synonym u32 = "32 word"
type_synonym u64 = "64 word"
type_synonym bytes = "u8 list"

text \<open>A Go string literal as the bytes it holds.\<close>

definition lit :: "string \<Rightarrow> bytes" where
  "lit s = map of_char s"

text \<open>The two's complement reading of a 64-bit pattern, i.e. Go's conversion to \<open>int64\<close>.\<close>

definition wrap64 :: "int \<Rightarrow> int" where
  "wrap64 x = (x + 2 ^ 63) mod 2 ^ 64 - 2 ^ 63"

abbreviation maxInt64 :: int where
  "maxInt64 \<equiv> 2 ^ 63 - 1"

text \<open>An instant is its nanoseconds since the epoch; \<open>time.Time.UnixMicro\<close> and \<open>time.UnixMicro\<close>.\<close>

definition time_to_UnixMicro :: "int \<Rightarrow> int" where
  "time_to_UnixMicro t = wrap64 (t div 1000)"

definition time_UnixMicro :: "int \<Rightarrow> int" where
  "time_UnixMicro us = us * 1000"

section \<open>Collections of facts\<close>

named_theorems codec_simps \<open>lengths and inversions of the byte encodings\<close>
named_theorems io_simps \<open>behaviour of the device operations\<close>

section \<open>Slices\<close>

text \<open>Go's \<open>xs[a:b]\<close>, for bounds the code has checked.\<close>

definition slice :: "nat \<Rightarrow> nat \<Rightarrow> 'a list \<Rightarrow> 'a list" where
  "slice a b xs = take (b - a) (drop a xs)"

section \<open>Fixed-width integer encodings\<close>

text \<open>
  \<open>le_bytes k w\<close> is the low \<open>k\<close> bytes of \<open>w\<close>, least significant first;
  \<open>le_word\<close> reads them back.
\<close>

primrec le_bytes :: "nat \<Rightarrow> 'a::len word \<Rightarrow> bytes" where
  "le_bytes 0 w = []"
| "le_bytes (Suc k) w = ucast w # le_bytes k (drop_bit 8 w)"

primrec le_word :: "bytes \<Rightarrow> 'a::len word" where
  "le_word [] = 0"
| "le_word (b # bs) = ucast b + push_bit 8 (le_word bs)"

text \<open>\<open>binary.LittleEndian.PutUint16/32/64\<close> and \<open>Uint16/32/64\<close>.\<close>

definition put_u16 :: "u16 \<Rightarrow> bytes" where "put_u16 x = le_bytes 2 x"
definition put_u32 :: "u32 \<Rightarrow> bytes" where "put_u32 x = le_bytes 4 x"
definition put_u64 :: "u64 \<Rightarrow> bytes" where "put_u64 x = le_bytes 8 x"
definition get_u16 :: "bytes \<Rightarrow> u16" where "get_u16 bs = le_word bs"
definition get_u32 :: "bytes \<Rightarrow> u32" where "get_u32 bs = le_word bs"
definition get_u64 :: "bytes \<Rightarrow> u64" where "get_u64 bs = le_word bs"

text \<open>\<open>binary.BigEndian.PutUint64\<close> and \<open>Uint64\<close>.\<close>

definition put_be64 :: "u64 \<Rightarrow> bytes" where "put_be64 x = rev (le_bytes 8 x)"
definition get_be64 :: "bytes \<Rightarrow> u64" where "get_be64 bs = le_word (rev bs)"

text \<open>The value of a little-endian byte string, used in proofs only.\<close>

primrec le_val :: "bytes \<Rightarrow> nat" where
  "le_val [] = 0"
| "le_val (b # bs) = unat b + 256 * le_val bs"

primrec nat_bytes :: "nat \<Rightarrow> nat \<Rightarrow> bytes" where
  "nat_bytes 0 n = []"
| "nat_bytes (Suc k) n = of_nat n # nat_bytes k (n div 256)"

section \<open>Lemmas on slices\<close>

lemma length_slice [simp]: "length (slice a b xs) = min (b - a) (length xs - a)"
  by (simp add: slice_def)

lemma slice_append_front [simp]:
  "b \<le> length xs \<Longrightarrow> slice a b (xs @ ys) = slice a b xs"
  by (simp add: slice_def)

lemma slice_append_back [simp]:
  "length xs \<le> a \<Longrightarrow> slice a b (xs @ ys) = slice (a - length xs) (b - length xs) ys"
  by (simp add: slice_def)

lemma slice_all [simp]: "length xs \<le> b \<Longrightarrow> slice 0 b xs = xs"
  by (simp add: slice_def)

lemma slice_Cons:
  "slice a b (x # xs) = (if b = 0 then [] else if a = 0 then x # slice 0 (b - 1) xs
                         else slice (a - 1) (b - 1) xs)"
  by (cases a; cases b) (auto simp: slice_def)

lemma slice_update_outside:
  "i < a \<or> b \<le> i \<Longrightarrow> slice a b (xs[i := v]) = slice a b xs"
  by (cases "i < a") (auto simp: slice_def drop_update_cancel drop_update_swap)

lemma slice_update_inside:
  "a \<le> i \<Longrightarrow> i < b \<Longrightarrow> slice a b (xs[i := v]) = (slice a b xs)[i - a := v]"
  by (simp add: slice_def drop_update_swap take_update_swap)

lemma nth_slice [simp]: "a + i < b \<Longrightarrow> b \<le> length xs \<Longrightarrow> slice a b xs ! i = xs ! (a + i)"
  by (simp add: slice_def)

lemma list_update_neq:
  "i < length xs \<Longrightarrow> v \<noteq> xs ! i \<Longrightarrow> xs[i := v] \<noteq> xs"
  by (metis nth_list_update_eq)

section \<open>Lemmas on the integer encodings\<close>

lemma length_nat_bytes [simp]: "length (nat_bytes k n) = k"
  by (induction k arbitrary: n) auto

lemma unat_u8_less: "unat (b :: u8) < 256"
  using unsigned_less [of b] by simp

lemma le_val_bound: "le_val bs < 256 ^ length bs"
proof (induction bs)
  case (Cons b bs)
  then show ?case using unat_u8_less [of b] by simp
qed simp

lemma le_val_nat_bytes: "le_val (nat_bytes k n) = n mod 256 ^ k"
proof (induction k arbitrary: n)
  case (Suc k)
  have "unat (of_nat n :: u8) = n mod 256" by (simp add: unat_of_nat)
  with Suc show ?case by (simp add: mod_mult2_eq)
qed simp

lemma u8_256: "(256 :: u8) = 0"
  by simp

lemma nat_bytes_le_val: "length bs = k \<Longrightarrow> nat_bytes k (le_val bs) = bs"
proof (induction bs arbitrary: k)
  case (Cons b bs)
  have "(unat b + 256 * le_val bs) div 256 = le_val bs" using unat_u8_less [of b] by simp
  moreover have "(of_nat (unat b + 256 * le_val bs) :: u8) = b"
    by (simp add: u8_256)
  ultimately show ?case using Cons by (cases k) auto
qed simp

lemma le_bytes_nat: "le_bytes k w = nat_bytes k (unat w)"
proof (induction k arbitrary: w)
  case (Suc k)
  have "unat (drop_bit 8 w) = drop_bit 8 (unat w)"
    by (simp add: unsigned_drop_bit_eq take_bit_nat_eq_self)
  then have "unat (drop_bit 8 w) = unat w div 256"
    by (simp add: drop_bit_eq_div [of _ "unat w"])
  moreover have "(of_nat (unat w) :: u8) = ucast w" by simp
  ultimately show ?case using Suc by simp
qed simp

lemma length_le_bytes [simp]: "length (le_bytes k w) = k"
  by (simp add: le_bytes_nat)

lemma le_word_nat: "(le_word bs :: 'a::len word) = of_nat (le_val bs)"
  by (induction bs) (simp_all add: push_bit_eq_mult)

section \<open>The contract of a fixed-width encoding\<close>

locale fixed_codec =
  fixes put :: "'w \<Rightarrow> bytes" and get :: "bytes \<Rightarrow> 'w" and width :: nat
  assumes length_put: "length (put x) = width"
    and get_put: "get (put x) = x"
    and put_get: "length bs = width \<Longrightarrow> put (get bs) = bs"
begin

lemma put_inject: "put x = put y \<longleftrightarrow> x = y"
  by (metis get_put)

lemma get_front: "get (take width (put x @ rest)) = x"
  by (simp add: length_put get_put)

lemma get_slice: "a = length pre \<Longrightarrow> b = a + width \<Longrightarrow> get (slice a b (pre @ put x @ rest)) = x"
  by (simp add: slice_def length_put get_put)

text \<open>Two different encodings of the same width decode differently.\<close>

lemma get_inject: "length as = width \<Longrightarrow> length bs = width \<Longrightarrow> get as = get bs \<longleftrightarrow> as = bs"
  by (metis put_get)

end

lemma le_word_put_get:
  assumes "LENGTH('a::len) = 8 * k" and "length bs = k"
  shows "le_bytes k (le_word bs :: 'a word) = bs"
proof -
  have "le_val bs < 2 ^ LENGTH('a)"
    using le_val_bound [of bs] assms by (simp add: power_mult)
  then show ?thesis using assms by (simp add: le_bytes_nat le_word_nat unat_of_nat nat_bytes_le_val)
qed

lemma le_word_get_put:
  fixes x :: "'a::len word"
  assumes "LENGTH('a) = 8 * k"
  shows "le_word (le_bytes k x) = x"
proof -
  have "unat x < 256 ^ k" using unsigned_less [of x] assms by (simp add: power_mult)
  then show ?thesis by (simp add: le_bytes_nat le_word_nat le_val_nat_bytes)
qed

interpretation le16: fixed_codec put_u16 get_u16 2
  by unfold_locales (simp_all add: put_u16_def get_u16_def le_word_put_get le_word_get_put)

interpretation le32: fixed_codec put_u32 get_u32 4
  by unfold_locales (simp_all add: put_u32_def get_u32_def le_word_put_get le_word_get_put)

interpretation le64: fixed_codec put_u64 get_u64 8
  by unfold_locales (simp_all add: put_u64_def get_u64_def le_word_put_get le_word_get_put)

interpretation be64: fixed_codec put_be64 get_be64 8
proof unfold_locales
  fix bs :: bytes assume "length bs = 8"
  then have "le_bytes 8 (le_word (rev bs) :: u64) = rev bs"
    by (simp add: le_word_put_get)
  then show "put_be64 (get_be64 bs) = bs" by (simp add: put_be64_def get_be64_def)
qed (simp_all add: put_be64_def get_be64_def le_word_get_put)

lemmas [simp, codec_simps] =
  le16.length_put le32.length_put le64.length_put be64.length_put
  le16.get_put le32.get_put le64.get_put be64.get_put
  le16.put_inject le32.put_inject le64.put_inject be64.put_inject

lemma length_lit [simp]: "length (lit s) = length s"
  by (simp add: lit_def)

section \<open>Lemmas on 64-bit signed arithmetic\<close>

lemma wrap64_id [simp]: "- (2 ^ 63) \<le> x \<Longrightarrow> x < 2 ^ 63 \<Longrightarrow> wrap64 x = x"
  by (simp add: wrap64_def)

lemma wrap64_range: "- (2 ^ 63) \<le> wrap64 x \<and> wrap64 x < 2 ^ 63"
proof -
  have "(x + 2 ^ 63) mod 2 ^ 64 < (2::int) ^ 64" "0 \<le> (x + 2 ^ 63) mod (2::int) ^ 64"
    by simp_all
  then show ?thesis unfolding wrap64_def by simp
qed

end
