(* ===== verification/Go_Hash.thy ===== *)
theory Go_Hash
  imports Scrap_Prelude
begin

text \<open>
  The checksums of the Go standard library that the sources call: CRC-32C
  (\<open>hash/crc32\<close> with the Castagnoli table), SHA-256 (\<open>crypto/sha256\<close>) and 64-bit
  FNV-1a (\<open>hash/fnv\<close>). All three are executable definitions of the published algorithms.

  The lemma the Block format rests on is \<open>crc32c_update_neq\<close>: replacing one byte of a
  message by a different one always changes its CRC-32C, because one step of the checksum
  register is injective.
\<close>

unbundle bit_operations_syntax

section \<open>CRC-32C\<close>

definition crc_poly :: u32 where "crc_poly = 0x82F63B78"

definition crc_bit :: "u32 \<Rightarrow> u32" where
  "crc_bit c = (if bit c 0 then drop_bit 1 c XOR crc_poly else drop_bit 1 c)"

definition crc_byte :: "u32 \<Rightarrow> u8 \<Rightarrow> u32" where
  "crc_byte c b = (crc_bit ^^ 8) (c XOR ucast b)"

definition crc32c :: "bytes \<Rightarrow> u32" where
  "crc32c bs = NOT (foldl crc_byte (NOT 0) bs)"

section \<open>SHA-256\<close>

text \<open>
  The round constants and the initial state are the first 32 bits of the fractional parts of the
  cube and square roots of the first primes. They are computed here as integer roots of scaled
  primes, one bit at a time.
\<close>

definition sha_primes :: "nat list" where
  "sha_primes = filter (\<lambda>p. list_all (\<lambda>d. \<not> d dvd p) [2..<p]) [2..<312]"

primrec int_root :: "nat \<Rightarrow> nat \<Rightarrow> int \<Rightarrow> int \<Rightarrow> int" where
  "int_root k 0 n r = r"
| "int_root k (Suc b) n r = (let r' = r + 2 ^ b in int_root k b n (if r' ^ k \<le> n then r' else r))"

definition root_fraction :: "nat \<Rightarrow> nat \<Rightarrow> u32" where
  "root_fraction k p = word_of_int (int_root k 36 (int p * 2 ^ (32 * k)) 0)"

definition sha_k :: "u32 list" where
  "sha_k = map (root_fraction 3) sha_primes"

definition rotr32 :: "nat \<Rightarrow> u32 \<Rightarrow> u32" where
  "rotr32 n w = drop_bit n w OR push_bit (32 - n) w"

definition put_be32 :: "u32 \<Rightarrow> bytes" where "put_be32 x = rev (le_bytes 4 x)"
definition get_be32 :: "bytes \<Rightarrow> u32" where "get_be32 bs = le_word (rev bs)"

primrec sha_extend :: "nat \<Rightarrow> u32 list \<Rightarrow> u32 list" where
  "sha_extend 0 ws = ws"
| "sha_extend (Suc n) ws =
     (let t = length ws;
          x = ws ! (t - 15);
          y = ws ! (t - 2);
          s0 = rotr32 7 x XOR rotr32 18 x XOR drop_bit 3 x;
          s1 = rotr32 17 y XOR rotr32 19 y XOR drop_bit 10 y
      in sha_extend n (ws @ [ws ! (t - 16) + s0 + ws ! (t - 7) + s1]))"

type_synonym sha_state = "u32 \<times> u32 \<times> u32 \<times> u32 \<times> u32 \<times> u32 \<times> u32 \<times> u32"

fun sha_round :: "sha_state \<Rightarrow> u32 \<times> u32 \<Rightarrow> sha_state" where
  "sha_round (a, b, c, d, e, f, g, h) (k, w) =
     (let s1 = rotr32 6 e XOR rotr32 11 e XOR rotr32 25 e;
          ch = (e AND f) XOR (NOT e AND g);
          t1 = h + s1 + ch + k + w;
          s0 = rotr32 2 a XOR rotr32 13 a XOR rotr32 22 a;
          maj = (a AND b) XOR (a AND c) XOR (b AND c);
          t2 = s0 + maj
      in (t1 + t2, a, b, c, d + t1, e, f, g))"

fun sha_add :: "sha_state \<Rightarrow> sha_state \<Rightarrow> sha_state" where
  "sha_add (a, b, c, d, e, f, g, h) (a', b', c', d', e', f', g', h') =
     (a + a', b + b', c + c', d + d', e + e', f + f', g + g', h + h')"

primrec be_words :: "nat \<Rightarrow> bytes \<Rightarrow> u32 list" where
  "be_words 0 bs = []"
| "be_words (Suc n) bs = get_be32 (take 4 bs) # be_words n (drop 4 bs)"

definition sha_compress :: "sha_state \<Rightarrow> bytes \<Rightarrow> sha_state" where
  "sha_compress st blk =
     sha_add st (foldl sha_round st (zip sha_k (sha_extend 48 (be_words 16 blk))))"

definition sha_pad :: "bytes \<Rightarrow> bytes" where
  "sha_pad bs = bs @ [0x80] @ replicate ((119 - length bs mod 64) mod 64) 0
     @ put_be64 (of_nat (8 * length bs))"

primrec sha_blocks :: "nat \<Rightarrow> sha_state \<Rightarrow> bytes \<Rightarrow> sha_state" where
  "sha_blocks 0 st bs = st"
| "sha_blocks (Suc n) st bs = sha_blocks n (sha_compress st (take 64 bs)) (drop 64 bs)"

definition sha_init :: sha_state where
  "sha_init = (root_fraction 2 2, root_fraction 2 3, root_fraction 2 5, root_fraction 2 7,
     root_fraction 2 11, root_fraction 2 13, root_fraction 2 17, root_fraction 2 19)"

fun sha_digest :: "sha_state \<Rightarrow> bytes" where
  "sha_digest (a, b, c, d, e, f, g, h) = concat (map put_be32 [a, b, c, d, e, f, g, h])"

definition sha256 :: "bytes \<Rightarrow> bytes" where
  "sha256 bs = (let m = sha_pad bs in sha_digest (sha_blocks (length m div 64) sha_init m))"

section \<open>FNV-1a\<close>

definition fnv64a :: "bytes \<Rightarrow> u64" where
  "fnv64a bs = foldl (\<lambda>h b. (h XOR ucast b) * 1099511628211) 14695981039346656037 bs"

section \<open>Facts about the checksums\<close>

lemma length_put_be32 [simp]: "length (put_be32 x) = 4"
  by (simp add: put_be32_def)

lemma length_sha_digest [simp]: "length (sha_digest st) = 32"
  by (cases st rule: sha_digest.cases) simp

lemma length_sha256 [simp]: "length (sha256 bs) = 32"
  by (simp add: sha256_def Let_def)

subsection \<open>One step of the CRC register is injective\<close>

lemma bit_crc_poly_top: "bit crc_poly 31"
  by (simp add: crc_poly_def)

lemma bit_crc_bit_top: "bit (crc_bit c) 31 = bit c 0"
proof -
  have "\<not> bit (drop_bit 1 c) 31" by (auto simp: bit_simps dest: bit_imp_le_length)
  then show ?thesis using bit_crc_poly_top by (simp add: crc_bit_def bit_xor_iff)
qed

lemma drop_bit_1_eqD:
  fixes c d :: u32
  assumes "drop_bit 1 c = drop_bit 1 d" and "bit c 0 = bit d 0"
  shows "c = d"
proof (rule bit_word_eqI)
  fix n
  show "bit c n = bit d n"
  proof (cases n)
    case (Suc m)
    have "bit (drop_bit 1 c) m = bit (drop_bit 1 d) m" by (simp only: assms)
    then show ?thesis by (simp add: bit_simps Suc)
  qed (simp add: assms)
qed

lemma crc_bit_inject: "crc_bit c = crc_bit d \<longleftrightarrow> c = d"
proof
  assume eq: "crc_bit c = crc_bit d"
  then have b0: "bit c 0 = bit d 0" by (metis bit_crc_bit_top)
  have "drop_bit 1 c = drop_bit 1 d"
  proof (cases "bit c 0")
    case True
    then have "drop_bit 1 c XOR crc_poly = drop_bit 1 d XOR crc_poly"
      using eq b0 by (simp add: crc_bit_def)
    then have "(drop_bit 1 c XOR crc_poly) XOR crc_poly = (drop_bit 1 d XOR crc_poly) XOR crc_poly"
      by simp
    then show ?thesis by (simp add: xor.assoc)
  next
    case False
    then show ?thesis using eq b0 by (simp add: crc_bit_def)
  qed
  then show "c = d" using b0 by (rule drop_bit_1_eqD)
qed simp

lemma crc_bits_inject: "(crc_bit ^^ n) c = (crc_bit ^^ n) d \<longleftrightarrow> c = d"
  by (induction n arbitrary: c d) (simp_all add: crc_bit_inject)

lemma xor_cancel_left: "(a::u32) XOR b = a XOR c \<longleftrightarrow> b = c"
  by (metis xor.assoc xor_self_eq xor.left_neutral)

lemma ucast_u8_inject: "(ucast (a::u8) :: u32) = ucast b \<longleftrightarrow> a = b"
proof
  assume "(ucast a :: u32) = ucast b"
  then have "(ucast (ucast a :: u32) :: u8) = ucast (ucast b :: u32)" by simp
  then show "a = b" by (simp add: ucast_up_ucast_id is_up)
qed simp

lemma crc_byte_inject_byte: "crc_byte c a = crc_byte c b \<longleftrightarrow> a = b"
  by (simp add: crc_byte_def crc_bits_inject xor_cancel_left ucast_u8_inject)

lemma crc_byte_inject_reg: "crc_byte c b = crc_byte d b \<longleftrightarrow> c = d"
  by (simp add: crc_byte_def crc_bits_inject) (metis xor.commute xor_cancel_left)

lemma crc_fold_inject: "foldl crc_byte c bs = foldl crc_byte d bs \<longleftrightarrow> c = d"
  by (induction bs arbitrary: c d) (simp_all add: crc_byte_inject_reg)

lemma crc32c_split_neq:
  assumes "a \<noteq> b"
  shows "crc32c (xs @ a # ys) \<noteq> crc32c (xs @ b # ys)"
  using assms by (simp add: crc32c_def crc_fold_inject crc_byte_inject_byte)

lemma crc32c_update_neq:
  assumes "i < length xs" and "v \<noteq> xs ! i"
  shows "crc32c (xs[i := v]) \<noteq> crc32c xs"
proof -
  have "xs = take i xs @ xs ! i # drop (Suc i) xs" using assms(1) by (rule id_take_nth_drop)
  moreover have "xs[i := v] = take i xs @ v # drop (Suc i) xs"
    using assms(1) by (rule upd_conv_take_nth_drop)
  ultimately show ?thesis using crc32c_split_neq [OF assms(2)] by metis
qed

end
