(* ===== verification/Go_IO.thy ===== *)
theory Go_IO
  imports Scrap_Prelude
begin

text \<open>
  The part of \<open>os.File\<close> and package \<open>io\<close> the Block code uses, as operations on an explicit
  device. An \<open>osfile\<close> holds the stored bytes, the current offset and a schedule of outcomes: every
  call that reaches the device takes the next outcome. \<open>Done\<close> is success, \<open>Fault k\<close> an I/O
  error after \<open>k\<close> bytes were transferred, so short writes and torn tails are states of the
  model. An exhausted schedule means every further call succeeds.
\<close>

section \<open>The device\<close>

datatype io_outcome = Done | Fault nat

record osfile =
  fdata :: bytes
  fpos :: nat
  fsched :: "io_outcome list"

datatype read_err = EOF | UnexpectedEOF | IOError

definition next_outcome :: "osfile \<Rightarrow> io_outcome \<times> osfile" where
  "next_outcome f = (case fsched f of [] \<Rightarrow> (Done, f) | o1 # os \<Rightarrow> (o1, f\<lparr>fsched := os\<rparr>))"

text \<open>The unread bytes of a file.\<close>

definition rest :: "osfile \<Rightarrow> bytes" where
  "rest f = drop (fpos f) (fdata f)"

text \<open>
  \<open>io.ReadFull(r, buf)\<close> for a buffer of \<open>n\<close> bytes: the bytes read and the error.
  No call is made for an empty buffer; \<open>EOF\<close> only when nothing was read.
\<close>

definition io_ReadFull :: "nat \<Rightarrow> osfile \<Rightarrow> (bytes \<times> read_err option) \<times> osfile" where
  "io_ReadFull n f =
     (if n = 0 then (([], None), f)
      else case next_outcome f of (outcome, f1) \<Rightarrow>
        (case outcome of
           Fault k \<Rightarrow> (let got = take (min k (n - 1)) (rest f1)
                       in ((got, Some IOError), f1\<lparr>fpos := fpos f1 + length got\<rparr>))
         | Done \<Rightarrow> (let got = take n (rest f1)
                    in ((got, if got = [] then Some EOF
                              else if length got < n then Some UnexpectedEOF else None),
                        f1\<lparr>fpos := fpos f1 + length got\<rparr>))))"

text \<open>Overwriting and extending a byte string from position \<open>p\<close>; a gap is filled with zeros.\<close>

definition write_at :: "nat \<Rightarrow> bytes \<Rightarrow> bytes \<Rightarrow> bytes" where
  "write_at p bs xs = take p xs @ replicate (p - length xs) 0 @ bs @ drop (p + length bs) xs"

text \<open>\<open>f.Write(bs)\<close>: whether it succeeded. A fault after \<open>k\<close> bytes leaves those on the device.\<close>

definition file_Write :: "bytes \<Rightarrow> osfile \<Rightarrow> bool \<times> osfile" where
  "file_Write bs f =
     (case next_outcome f of (outcome, f1) \<Rightarrow>
        (case outcome of
           Done \<Rightarrow> (True, f1\<lparr>fdata := write_at (fpos f1) bs (fdata f1), fpos := fpos f1 + length bs\<rparr>)
         | Fault k \<Rightarrow> (let part = take k bs
                      in (False, f1\<lparr>fdata := write_at (fpos f1) part (fdata f1),
                                    fpos := fpos f1 + length part\<rparr>))))"

text \<open>\<open>f.Sync()\<close>, \<open>f.Close()\<close> and the seeks: a fault changes nothing.\<close>

definition file_Sync :: "osfile \<Rightarrow> bool \<times> osfile" where
  "file_Sync f = (case next_outcome f of (outcome, f1) \<Rightarrow> (outcome = Done, f1))"

definition file_Seek :: "nat \<Rightarrow> osfile \<Rightarrow> bool \<times> osfile" where
  "file_Seek p f =
     (case next_outcome f of (outcome, f1) \<Rightarrow>
        if outcome = Done then (True, f1\<lparr>fpos := p\<rparr>) else (False, f1))"

definition file_SeekEnd :: "osfile \<Rightarrow> bool \<times> osfile" where
  "file_SeekEnd f = file_Seek (length (fdata f)) f"

text \<open>\<open>f.Truncate(n)\<close> keeps the offset and extends with zeros when \<open>n\<close> is past the end.\<close>

definition file_Truncate :: "nat \<Rightarrow> osfile \<Rightarrow> bool \<times> osfile" where
  "file_Truncate n f =
     (case next_outcome f of (outcome, f1) \<Rightarrow>
        if outcome = Done
        then (True, f1\<lparr>fdata := take n (fdata f1) @ replicate (n - length (fdata f1)) 0\<rparr>)
        else (False, f1))"

text \<open>\<open>os.OpenFile\<close> with \<open>O_CREATE|O_TRUNC\<close>, and opening existing contents at offset 0.\<close>

definition file_Create :: "io_outcome list \<Rightarrow> bool \<times> osfile" where
  "file_Create os =
     (case next_outcome \<lparr>fdata = [], fpos = 0, fsched = os\<rparr> of (outcome, f) \<Rightarrow> (outcome = Done, f))"

definition file_Open :: "bytes \<Rightarrow> io_outcome list \<Rightarrow> bool \<times> osfile" where
  "file_Open bs os =
     (case next_outcome \<lparr>fdata = bs, fpos = 0, fsched = os\<rparr> of (outcome, f) \<Rightarrow> (outcome = Done, f))"

text \<open>A file without further faults, positioned at its end: the state between two appends.\<close>

definition at_end :: "osfile \<Rightarrow> bool" where
  "at_end f \<longleftrightarrow> fpos f = length (fdata f)"

section \<open>Behaviour of the operations\<close>

lemma next_outcome_nil [simp]: "fsched f = [] \<Longrightarrow> next_outcome f = (Done, f)"
  by (simp add: next_outcome_def)

lemma next_outcome_data: "next_outcome f = (oc, f') \<Longrightarrow> fdata f' = fdata f \<and> fpos f' = fpos f"
  by (auto simp: next_outcome_def split: list.splits)

lemma next_outcome_sched: "next_outcome f = (oc, f') \<Longrightarrow> fsched f' = tl (fsched f)"
  by (auto simp: next_outcome_def split: list.splits)

lemma io_ReadFull_zero [simp]: "io_ReadFull 0 f = (([], None), f)"
  by (simp add: io_ReadFull_def)

lemma io_ReadFull_full:
  assumes "fsched f = []" and "rest f = bs @ tail" and "length bs = n"
  shows "io_ReadFull n f = ((bs, None), f\<lparr>fpos := fpos f + n\<rparr>)"
  using assms by (cases "n = 0") (auto simp: io_ReadFull_def)

lemma io_ReadFull_eof:
  assumes "fsched f = []" and "rest f = []" and "0 < n"
  shows "io_ReadFull n f = (([], Some EOF), f)"
  using assms by (simp add: io_ReadFull_def)

lemma io_ReadFull_short:
  assumes "fsched f = []" and "rest f \<noteq> []" and "length (rest f) < n"
  shows "io_ReadFull n f = ((rest f, Some UnexpectedEOF), f\<lparr>fpos := fpos f + length (rest f)\<rparr>)"
  using assms by (cases "n = 0") (auto simp: io_ReadFull_def Let_def)

lemma io_ReadFull_data: "io_ReadFull n f = (r, f') \<Longrightarrow> fdata f' = fdata f"
  by (auto simp: io_ReadFull_def Let_def split: if_splits io_outcome.splits prod.splits
      dest: next_outcome_data)

text \<open>Reading consumes exactly the bytes it returns, whatever the outcome.\<close>

lemma io_ReadFull_rest:
  assumes "io_ReadFull n f = ((got, err), f')"
  shows "rest f = got @ rest f'"
proof (cases "n = 0")
  case False
  obtain oc f1 where o1: "next_outcome f = (oc, f1)" by (cases "next_outcome f")
  then have r: "rest f1 = rest f" using next_outcome_data by (auto simp: rest_def)
  obtain k where got: "got = take k (rest f1)" and f': "f' = f1\<lparr>fpos := fpos f1 + length got\<rparr>"
    using assms False o1 by (auto simp: io_ReadFull_def Let_def split: io_outcome.splits)
  have "rest f' = drop (length got) (rest f1)"
    by (simp add: f' rest_def add.commute)
  also have "\<dots> = drop k (rest f1)" by (cases "k \<le> length (rest f1)") (simp_all add: got)
  finally show ?thesis using got r by simp
qed (use assms in auto)

lemma io_ReadFull_None_length:
  assumes "io_ReadFull n f = ((got, None), f')"
  shows "length got = n"
  using assms by (auto simp: io_ReadFull_def Let_def split: if_splits io_outcome.splits prod.splits)

lemma io_ReadFull_pos:
  assumes "io_ReadFull n f = ((got, err), f')"
  shows "fpos f' = fpos f + length got"
  using assms by (auto simp: io_ReadFull_def Let_def split: if_splits io_outcome.splits prod.splits
      dest: next_outcome_data)

lemma write_at_end [simp]: "p = length xs \<Longrightarrow> write_at p bs xs = xs @ bs"
  by (simp add: write_at_def)

lemma file_Write_ok [simp]:
  "fsched f = [] \<Longrightarrow>
   file_Write bs f = (True, f\<lparr>fdata := write_at (fpos f) bs (fdata f), fpos := fpos f + length bs\<rparr>)"
  by (simp add: file_Write_def)

lemma file_Sync_ok [simp]: "fsched f = [] \<Longrightarrow> file_Sync f = (True, f)"
  by (simp add: file_Sync_def)

lemma file_Seek_ok [simp]: "fsched f = [] \<Longrightarrow> file_Seek p f = (True, f\<lparr>fpos := p\<rparr>)"
  by (simp add: file_Seek_def)

lemma file_Truncate_ok [simp]:
  "fsched f = [] \<Longrightarrow> file_Truncate n f =
     (True, f\<lparr>fdata := take n (fdata f) @ replicate (n - length (fdata f)) 0\<rparr>)"
  by (simp add: file_Truncate_def)

text \<open>
  An append to a file positioned at its end only extends the stored bytes, even when it
  fails half-way; the new offset is the new end.
\<close>

lemma file_Write_extends:
  assumes "file_Write bs f = (ok, f')" and "at_end f"
  shows "\<exists>part. fdata f' = fdata f @ part \<and> at_end f' \<and> (ok \<longrightarrow> part = bs) \<and> length part \<le> length bs"
  using assms
  by (auto simp: file_Write_def at_end_def Let_def split: io_outcome.splits prod.splits
      dest!: next_outcome_data)

lemma file_Sync_keeps:
  "file_Sync f = (ok, f') \<Longrightarrow> fdata f' = fdata f \<and> fpos f' = fpos f"
  by (auto simp: file_Sync_def split: prod.splits dest: next_outcome_data)

lemma rest_0 [simp]: "rest (f\<lparr>fpos := 0\<rparr>) = fdata f"
  by (simp add: rest_def)

lemma rest_advance: "rest f = bs @ tail \<Longrightarrow> rest (f\<lparr>fpos := fpos f + length bs\<rparr>) = tail"
proof -
  assume "rest f = bs @ tail"
  moreover have "rest (f\<lparr>fpos := fpos f + length bs\<rparr>) = drop (length bs) (rest f)"
    by (simp add: rest_def add.commute)
  ultimately show ?thesis by simp
qed

lemma file_Write_prefix:
  assumes "file_Write bs f = (ok, f')" and "at_end f"
  shows "\<exists>k\<le>length bs. fdata f' = fdata f @ take k bs \<and> at_end f' \<and> (ok \<longrightarrow> k = length bs)"
proof (cases "next_outcome f")
  case (Pair oc f1)
  note d = next_outcome_data [OF Pair]
  show ?thesis
  proof (cases oc)
    case Done
    then show ?thesis
      using assms d Pair by (intro exI [of _ "length bs"]) (auto simp: file_Write_def at_end_def)
  next
    case (Fault k)
    then show ?thesis
      using assms d Pair
      by (intro exI [of _ "min k (length bs)"]) (auto simp: file_Write_def at_end_def Let_def min_def)
  qed
qed

section \<open>Runs without a fault\<close>

text \<open>A run that met no error would have gone the same way on a fault-free device.\<close>

definition quiet :: "osfile \<Rightarrow> osfile" where
  "quiet f = f\<lparr>fsched := []\<rparr>"

lemma quiet_sel [simp]: "fdata (quiet f) = fdata f" "fpos (quiet f) = fpos f" "fsched (quiet f) = []"
  by (simp_all add: quiet_def)

lemma quiet_fpos: "quiet (f\<lparr>fpos := k\<rparr>) = (quiet f)\<lparr>fpos := k\<rparr>"
  by (cases f) (simp add: quiet_def)

lemma next_outcome_quiet: "next_outcome f = (oc, f1) \<Longrightarrow> quiet f1 = quiet f"
  by (auto simp: next_outcome_def quiet_def split: list.splits)

lemma io_ReadFull_quiet:
  assumes "io_ReadFull n f = ((got, err), f')" and "err \<noteq> Some IOError"
  shows "io_ReadFull n (quiet f) = ((got, err), quiet f')"
proof (cases "n = 0")
  case False
  obtain oc f1 where o1: "next_outcome f = (oc, f1)" by (cases "next_outcome f")
  have q: "quiet f1 = quiet f" and r: "rest f1 = rest f" and p: "fpos f1 = fpos f"
    using next_outcome_quiet [OF o1] next_outcome_data [OF o1] by (auto simp: rest_def)
  have "oc = Done" using assms False o1 by (auto simp: io_ReadFull_def Let_def split: io_outcome.splits)
  then have "got = take n (rest f)" "f' = f1\<lparr>fpos := fpos f + length got\<rparr>"
    "err = (if got = [] then Some EOF else if length got < n then Some UnexpectedEOF else None)"
    using assms(1) False o1 r p by (auto simp: io_ReadFull_def Let_def)
  moreover have "quiet (f1\<lparr>fpos := k\<rparr>) = (quiet f)\<lparr>fpos := k\<rparr>" for k
    by (simp add: quiet_fpos q)
  moreover have "rest (quiet f) = rest f" by (simp add: rest_def)
  ultimately show ?thesis using False by (simp add: io_ReadFull_def Let_def)
qed (use assms in auto)

lemma io_ReadFull_EOF_rest:
  assumes "io_ReadFull n f = ((got, Some err), f')" and "err \<noteq> IOError"
  shows "rest f' = [] \<and> length got < n"
proof -
  have n: "n \<noteq> 0" using assms(1) by (metis io_ReadFull_zero option.discI prod.inject)
  from io_ReadFull_quiet [OF assms(1)] assms(2)
  have q: "io_ReadFull n (quiet f) = ((got, Some err), quiet f')" by simp
  have g: "got = take n (rest (quiet f))" and l: "length got < n"
    using q n by (auto simp: io_ReadFull_def Let_def split: if_splits)
  then have "got = rest (quiet f)" by (metis length_take min.strict_order_iff min_def nat_le_linear take_all)
  with io_ReadFull_rest [OF q] have "rest (quiet f') = []" by simp
  then show ?thesis using l by (simp add: rest_def)
qed

lemma file_Open_quiet: "file_Open bs sched = (True, f) \<Longrightarrow> file_Open bs [] = (True, quiet f) \<and> fdata f = bs \<and> fpos f = 0"
  by (auto simp: file_Open_def quiet_def next_outcome_def split: prod.splits list.splits)

lemma file_Seek_quiet: "file_Seek p f = (True, f') \<Longrightarrow> quiet f' = (quiet f)\<lparr>fpos := p\<rparr> \<and> fdata f' = fdata f \<and> fpos f' = p"
  by (auto simp: file_Seek_def quiet_fpos split: prod.splits if_splits
      dest: next_outcome_quiet next_outcome_data)

end
