(* ===== verification/Block_Frame.thy ===== *)
theory Block_Frame
  imports Go_Hash Go_IO
begin

text \<open>
  The Frame codec of \<open>internal/block/frame.go\<close>: a 32-byte header with its own CRC-32C followed
  by at most 64 KiB of payload covered by a second CRC-32C.
\<close>

section \<open>Constants, header and errors\<close>

definition FrameHeaderSize :: nat where "FrameHeaderSize = 32"
definition MaxFramePayload :: nat where "MaxFramePayload = 64 * 1024"
definition frameMagic :: u16 where "frameMagic = 0x5343"
definition frameVersion :: u8 where "frameVersion = 1"

definition FlagFirstFrame :: u8 where "FlagFirstFrame = 1"
definition FlagLastFrame :: u8 where "FlagLastFrame = 2"
definition FlagSingleFrame :: u8 where "FlagSingleFrame = 3"

record FrameHeader =
  Flags :: u8
  DocSeq :: u32
  FrameSeq :: u32
  PayloadLen :: u32
  PayloadCRC :: u32

datatype frame_err =
    ErrBadMagic
  | ErrBadVersion
  | ErrCRCMismatch
  | ErrHeaderCRC
  | ErrTruncated
  | ErrPayloadLimit
  | ErrReadHeader read_err
  | ErrReadPayload read_err
  | ErrWriteHeader
  | ErrWritePayload

text \<open>\<open>errors.Is(err, io.EOF)\<close> on the errors \<open>ReadFrame\<close> returns: both wrapped read errors count.\<close>

fun frame_err_is_EOF :: "frame_err \<Rightarrow> bool" where
  "frame_err_is_EOF (ErrReadHeader e) = (e = EOF)"
| "frame_err_is_EOF (ErrReadPayload e) = (e = EOF)"
| "frame_err_is_EOF _ = False"

section \<open>Writing and reading one Frame\<close>

definition frame_header_prefix :: "FrameHeader \<Rightarrow> bytes \<Rightarrow> bytes" where
  "frame_header_prefix hdr payload =
     put_u16 frameMagic @ [frameVersion] @ [Flags hdr] @ put_u16 (of_nat FrameHeaderSize) @ [0, 0]
     @ put_u32 (DocSeq hdr) @ put_u32 (FrameSeq hdr) @ put_u32 (of_nat (length payload))
     @ put_u32 (crc32c payload) @ [0, 0, 0, 0]"

definition frame_header_bytes :: "FrameHeader \<Rightarrow> bytes \<Rightarrow> bytes" where
  "frame_header_bytes hdr payload =
     (let p = frame_header_prefix hdr payload in p @ put_u32 (crc32c p))"

definition WriteFrame :: "FrameHeader \<Rightarrow> bytes \<Rightarrow> osfile \<Rightarrow> frame_err option \<times> osfile" where
  "WriteFrame hdr payload w =
     (if length payload > MaxFramePayload then (Some ErrPayloadLimit, w)
      else case file_Write (frame_header_bytes hdr payload) w of (ok1, w1) \<Rightarrow>
        if \<not> ok1 then (Some ErrWriteHeader, w1)
        else if length payload > 0 then
          (case file_Write payload w1 of (ok2, w2) \<Rightarrow>
             if \<not> ok2 then (Some ErrWritePayload, w2) else (None, w2))
        else (None, w1))"

text \<open>The checks on the 32 header bytes, in the order \<open>ReadFrame\<close> makes them.\<close>

definition parse_frame_header :: "bytes \<Rightarrow> frame_err + FrameHeader" where
  "parse_frame_header buf =
     (if crc32c (slice 0 28 buf) \<noteq> get_u32 (slice 28 32 buf) then Inl ErrHeaderCRC
      else if get_u16 (slice 0 2 buf) \<noteq> frameMagic then Inl ErrBadMagic
      else if buf ! 2 \<noteq> frameVersion then Inl ErrBadVersion
      else if unat (get_u32 (slice 16 20 buf)) > MaxFramePayload then Inl ErrPayloadLimit
      else Inr \<lparr>Flags = buf ! 3, DocSeq = get_u32 (slice 8 12 buf), FrameSeq = get_u32 (slice 12 16 buf),
                PayloadLen = get_u32 (slice 16 20 buf), PayloadCRC = get_u32 (slice 20 24 buf)\<rparr>)"

definition ReadFrame :: "osfile \<Rightarrow> (frame_err + FrameHeader \<times> bytes) \<times> osfile" where
  "ReadFrame r =
     (case io_ReadFull FrameHeaderSize r of ((buf, err), r1) \<Rightarrow>
        (case err of
           Some e \<Rightarrow> (Inl (if e = UnexpectedEOF then ErrTruncated else ErrReadHeader e), r1)
         | None \<Rightarrow>
             (case parse_frame_header buf of
                Inl e \<Rightarrow> (Inl e, r1)
              | Inr hdr \<Rightarrow>
                  (case io_ReadFull (unat (PayloadLen hdr)) r1 of ((payload, perr), r2) \<Rightarrow>
                     (case perr of
                        Some e \<Rightarrow> (Inl (if e = UnexpectedEOF then ErrTruncated else ErrReadPayload e), r2)
                      | None \<Rightarrow> if crc32c payload \<noteq> PayloadCRC hdr then (Inl ErrCRCMismatch, r2)
                                else (Inr (hdr, payload), r2))))))"

section \<open>The stored form of a Frame\<close>

definition frame_bytes :: "FrameHeader \<Rightarrow> bytes \<Rightarrow> bytes" where
  "frame_bytes hdr payload = frame_header_bytes hdr payload @ payload"

text \<open>The header as it is read back: the length and checksum fields are computed, not copied.\<close>

definition sealed_header :: "FrameHeader \<Rightarrow> bytes \<Rightarrow> FrameHeader" where
  "sealed_header hdr payload =
     hdr\<lparr>PayloadLen := of_nat (length payload), PayloadCRC := crc32c payload\<rparr>"

lemma length_frame_header_prefix [simp]: "length (frame_header_prefix hdr payload) = 28"
  by (simp add: frame_header_prefix_def)

lemma length_frame_header_bytes [simp]: "length (frame_header_bytes hdr payload) = 32"
  by (simp add: frame_header_bytes_def Let_def)

lemma length_frame_bytes: "length (frame_bytes hdr payload) = 32 + length payload"
  by (simp add: frame_bytes_def)

lemma unat_payload_len:
  "length payload \<le> MaxFramePayload \<Longrightarrow> unat (of_nat (length payload) :: u32) = length payload"
  by (simp add: MaxFramePayload_def unat_of_nat)

lemma parse_frame_header_prefix:
  assumes "length payload \<le> MaxFramePayload"
  shows "parse_frame_header (frame_header_bytes hdr payload) = Inr (sealed_header hdr payload)"
proof -
  let ?p = "frame_header_prefix hdr payload"
  have crc: "crc32c (slice 0 28 (?p @ put_u32 (crc32c ?p))) = get_u32 (slice 28 32 (?p @ put_u32 (crc32c ?p)))"
    by simp
  have fields:
    "get_u16 (slice 0 2 ?p) = frameMagic" "?p ! 2 = frameVersion" "?p ! 3 = Flags hdr"
    "get_u32 (slice 8 12 ?p) = DocSeq hdr" "get_u32 (slice 12 16 ?p) = FrameSeq hdr"
    "get_u32 (slice 16 20 ?p) = of_nat (length payload)" "get_u32 (slice 20 24 ?p) = crc32c payload"
    by (simp_all add: frame_header_prefix_def slice_Cons nth_append)
  have nth: "(?p @ put_u32 (crc32c ?p)) ! 2 = ?p ! 2" "(?p @ put_u32 (crc32c ?p)) ! 3 = ?p ! 3"
    by (simp_all add: nth_append)
  show ?thesis
    using crc assms
    by (simp add: parse_frame_header_def frame_header_bytes_def Let_def fields nth
        unat_payload_len sealed_header_def)
qed

lemma ReadFrame_frame_bytes:
  assumes "fsched r = []" and "rest r = frame_bytes hdr payload @ tail"
    and "length payload \<le> MaxFramePayload"
  shows "ReadFrame r = (Inr (sealed_header hdr payload, payload),
                        r\<lparr>fpos := fpos r + length (frame_bytes hdr payload)\<rparr>)"
proof -
  have h: "io_ReadFull FrameHeaderSize r
      = ((frame_header_bytes hdr payload, None), r\<lparr>fpos := fpos r + 32\<rparr>)"
    using assms(1,2) by (simp add: FrameHeaderSize_def io_ReadFull_full [where tail = "payload @ tail"] frame_bytes_def)
  have rest1: "rest (r\<lparr>fpos := fpos r + 32\<rparr>) = payload @ tail"
    using rest_advance [of r "frame_header_bytes hdr payload" "payload @ tail"] assms(2)
    by (simp add: frame_bytes_def)
  have p: "io_ReadFull (length payload) (r\<lparr>fpos := fpos r + 32\<rparr>)
      = ((payload, None), r\<lparr>fpos := fpos r + 32 + length payload\<rparr>)"
    using io_ReadFull_full [OF _ rest1] assms(1) by simp
  show ?thesis
    using assms(3)
    by (simp add: ReadFrame_def h parse_frame_header_prefix sealed_header_def unat_payload_len p
        length_frame_bytes add.assoc)
qed

lemma WriteFrame_ok:
  assumes "fsched w = []" and "at_end w" and "length payload \<le> MaxFramePayload"
  shows "WriteFrame hdr payload w =
    (None, w\<lparr>fdata := fdata w @ frame_bytes hdr payload, fpos := fpos w + length (frame_bytes hdr payload)\<rparr>)"
  using assms
  by (auto simp: WriteFrame_def at_end_def frame_bytes_def length_frame_bytes)

text \<open>A failing write only extends the stored bytes.\<close>

lemma WriteFrame_extends:
  assumes "WriteFrame hdr payload w = (err, w')" and "at_end w"
  shows "\<exists>part. fdata w' = fdata w @ part \<and> at_end w'
      \<and> (err = None \<longrightarrow> part = frame_bytes hdr payload \<and> length payload \<le> MaxFramePayload)"
proof (cases "length payload > MaxFramePayload")
  case True
  then show ?thesis using assms by (auto simp: WriteFrame_def)
next
  case False
  obtain ok1 w1 where w1: "file_Write (frame_header_bytes hdr payload) w = (ok1, w1)"
    by (cases "file_Write (frame_header_bytes hdr payload) w")
  obtain p1 where p1: "fdata w1 = fdata w @ p1" "at_end w1" "ok1 \<longrightarrow> p1 = frame_header_bytes hdr payload"
    using file_Write_extends [OF w1 assms(2)] by blast
  obtain ok2 w2 where w2: "file_Write payload w1 = (ok2, w2)"
    by (cases "file_Write payload w1")
  obtain p2 where p2: "fdata w2 = fdata w1 @ p2" "at_end w2" "ok2 \<longrightarrow> p2 = payload"
    using file_Write_extends [OF w2 p1(2)] by blast
  show ?thesis
    using assms(1) False w1 w2 p1 p2
    by (auto simp: WriteFrame_def frame_bytes_def split: if_splits)
qed

section \<open>Detection of damaged Frames\<close>

lemma parse_frame_header_damaged:
  assumes "i < 32" and "v \<noteq> frame_header_bytes hdr payload ! i"
  shows "parse_frame_header ((frame_header_bytes hdr payload)[i := v]) = Inl ErrHeaderCRC"
proof -
  let ?p = "frame_header_prefix hdr payload"
  let ?h = "?p @ put_u32 (crc32c ?p)"
  have h: "frame_header_bytes hdr payload = ?h" by (simp add: frame_header_bytes_def Let_def)
  have "crc32c (slice 0 28 (?h[i := v])) \<noteq> get_u32 (slice 28 32 (?h[i := v]))"
  proof (cases "i < 28")
    case True
    then have "slice 0 28 (?h[i := v]) = ?p[i := v]" "slice 28 32 (?h[i := v]) = put_u32 (crc32c ?p)"
      by (simp_all add: list_update_append)
    moreover have "v \<noteq> ?p ! i" using assms(2) True by (simp add: h nth_append)
    ultimately show ?thesis using crc32c_update_neq [of i ?p v] True by simp
  next
    case False
    let ?c = "put_u32 (crc32c ?p)"
    have sl: "slice 0 28 (?h[i := v]) = ?p" "slice 28 32 (?h[i := v]) = ?c[i - 28 := v]"
      using False by (simp_all add: list_update_append)
    have "v \<noteq> ?c ! (i - 28)" using assms(2) False by (simp add: h nth_append)
    then have "?c[i - 28 := v] \<noteq> ?c" using assms(1) False by (intro list_update_neq) simp_all
    then have "get_u32 (?c[i - 28 := v]) \<noteq> get_u32 ?c" by (subst le32.get_inject) simp_all
    then show ?thesis using sl by simp
  qed
  then show ?thesis by (simp add: h parse_frame_header_def)
qed

lemma sealed_header_simps [simp]:
  "PayloadLen (sealed_header hdr payload) = of_nat (length payload)"
  "PayloadCRC (sealed_header hdr payload) = crc32c payload"
  "Flags (sealed_header hdr payload) = Flags hdr"
  "DocSeq (sealed_header hdr payload) = DocSeq hdr"
  "FrameSeq (sealed_header hdr payload) = FrameSeq hdr"
  by (simp_all add: sealed_header_def)

text \<open>Replacing any one byte of a stored Frame makes the read fail with a checksum error.\<close>

lemma ReadFrame_damaged:
  assumes "fsched r = []" and "rest r = (frame_bytes hdr payload)[i := v] @ tail"
    and "length payload \<le> MaxFramePayload"
    and "i < length (frame_bytes hdr payload)" and "v \<noteq> frame_bytes hdr payload ! i"
  shows "fst (ReadFrame r) = Inl (if i < 32 then ErrHeaderCRC else ErrCRCMismatch)"
proof (cases "i < 32")
  case True
  let ?h = "(frame_header_bytes hdr payload)[i := v]"
  have "rest r = ?h @ (payload @ tail)"
    using assms(2) True by (simp add: frame_bytes_def list_update_append)
  then have "io_ReadFull FrameHeaderSize r = ((?h, None), r\<lparr>fpos := fpos r + 32\<rparr>)"
    using assms(1) by (simp add: FrameHeaderSize_def io_ReadFull_full [where tail = "payload @ tail"])
  moreover have "parse_frame_header ?h = Inl ErrHeaderCRC"
    using assms(5) True by (intro parse_frame_header_damaged) (simp_all add: frame_bytes_def nth_append)
  ultimately show ?thesis using True by (simp add: ReadFrame_def)
next
  case False
  let ?h = "frame_header_bytes hdr payload"
  let ?q = "payload[i - 32 := v]"
  have rest: "rest r = ?h @ (?q @ tail)"
    using assms(2) False by (simp add: frame_bytes_def list_update_append)
  have h: "io_ReadFull FrameHeaderSize r = ((?h, None), r\<lparr>fpos := fpos r + 32\<rparr>)"
    using assms(1) rest by (simp add: FrameHeaderSize_def io_ReadFull_full [where tail = "?q @ tail"])
  have "rest (r\<lparr>fpos := fpos r + 32\<rparr>) = ?q @ tail"
    using rest_advance [OF rest] by simp
  then have q: "io_ReadFull (length payload) (r\<lparr>fpos := fpos r + 32\<rparr>)
      = ((?q, None), r\<lparr>fpos := fpos r + 32 + length payload\<rparr>)"
    using io_ReadFull_full [of "r\<lparr>fpos := fpos r + 32\<rparr>" ?q tail "length payload"] assms(1) by simp
  have "crc32c ?q \<noteq> crc32c payload"
    using assms(4,5) False by (intro crc32c_update_neq) (simp_all add: frame_bytes_def nth_append)
  then show ?thesis
    using assms(3) False
    by (simp add: ReadFrame_def h parse_frame_header_prefix unat_payload_len q)
qed

text \<open>A proper prefix of a stored Frame is never read as a Frame.\<close>

lemma ReadFrame_prefix:
  assumes "fsched r = []" and "rest r = take c (frame_bytes hdr payload)"
    and "length payload \<le> MaxFramePayload" and "c < length (frame_bytes hdr payload)"
  shows "fst (ReadFrame r) = Inl (if c = 0 then ErrReadHeader EOF else if c = 32 then ErrReadPayload EOF
                                  else ErrTruncated)"
proof (cases "c < 32")
  case True
  then have len: "length (rest r) = c" using assms(2,4) by simp
  show ?thesis
  proof (cases "c = 0")
    case True
    then show ?thesis
      using assms(1,2) by (simp add: ReadFrame_def FrameHeaderSize_def io_ReadFull_eof)
  next
    case False
    then have "rest r \<noteq> []" using len by auto
    then show ?thesis
      using assms(1) \<open>c < 32\<close> len False
      by (simp add: ReadFrame_def FrameHeaderSize_def io_ReadFull_short)
  qed
next
  case False
  let ?h = "frame_header_bytes hdr payload"
  let ?q = "take (c - 32) payload"
  let ?r1 = "r\<lparr>fpos := fpos r + 32\<rparr>"
  have rest: "rest r = ?h @ ?q" using assms(2) False by (simp add: frame_bytes_def)
  have h: "io_ReadFull FrameHeaderSize r = ((?h, None), ?r1)"
    using assms(1) rest by (simp add: FrameHeaderSize_def io_ReadFull_full [where tail = ?q])
  have rest1: "rest ?r1 = ?q" using rest_advance [OF rest] by simp
  have lt: "c - 32 < length payload" using assms(4) False by (simp add: length_frame_bytes)
  have hdr: "fst (ReadFrame r) = Inl (if c = 32 then ErrReadPayload EOF else ErrTruncated)"
  proof (cases "c = 32")
    case True
    then have "io_ReadFull (length payload) ?r1 = (([], Some EOF), ?r1)"
      using rest1 lt assms(1) by (intro io_ReadFull_eof) simp_all
    then show ?thesis using True assms(3)
      by (simp add: ReadFrame_def h parse_frame_header_prefix unat_payload_len)
  next
    case False
    then have ne: "rest ?r1 \<noteq> []" and l: "length (rest ?r1) < length payload"
      using rest1 lt \<open>\<not> c < 32\<close> by auto
    show ?thesis using False assms(1,3) io_ReadFull_short [OF _ ne l]
      by (simp add: ReadFrame_def h parse_frame_header_prefix unat_payload_len)
  qed
  then show ?thesis using False by simp
qed

text \<open>Every successful read consumes its 32-byte header, so a scan over Frames makes progress.\<close>

lemma ReadFrame_progress:
  assumes "ReadFrame r = (Inr (hdr, payload), r')"
  shows "length (rest r') + 32 + length payload = length (rest r) \<and> fdata r' = fdata r
      \<and> fpos r' = fpos r + 32 + length payload"
proof -
  obtain buf r1 where h: "io_ReadFull FrameHeaderSize r = ((buf, None), r1)"
    and h2: "parse_frame_header buf = Inr hdr"
    and p: "io_ReadFull (unat (PayloadLen hdr)) r1 = ((payload, None), r')"
    using assms
    by (auto simp: ReadFrame_def split: prod.splits option.splits sum.splits if_splits)
  from h have "length buf = 32" using io_ReadFull_None_length by (fastforce simp: FrameHeaderSize_def)
  moreover have "rest r = buf @ rest r1" "rest r1 = payload @ rest r'"
    using h p io_ReadFull_rest by blast+
  moreover have "fdata r' = fdata r" using h p io_ReadFull_data by metis
  moreover have "fpos r' = fpos r + length buf + length payload"
    using io_ReadFull_pos [OF h] io_ReadFull_pos [OF p] by simp
  ultimately show ?thesis by simp
qed

text \<open>Only an \<open>IOError\<close> distinguishes a run on a faulty device from one on a quiet device.\<close>

lemma ReadFrame_quiet:
  assumes "ReadFrame f = (r, f')" and "\<forall>e. r = Inl e \<longrightarrow> frame_err_is_EOF e"
  shows "ReadFrame (quiet f) = (r, quiet f')"
proof -
  obtain buf err f1 where h: "io_ReadFull FrameHeaderSize f = ((buf, err), f1)"
    by (cases "io_ReadFull FrameHeaderSize f") auto
  show ?thesis
  proof (cases err)
    case (Some e)
    then have "e = EOF" "r = Inl (ErrReadHeader EOF)" "f' = f1"
      using assms h by (auto simp: ReadFrame_def split: if_splits)
    then show ?thesis using io_ReadFull_quiet [OF h] Some by (simp add: ReadFrame_def)
  next
    case None
    obtain hdr where p: "parse_frame_header buf = Inr hdr"
      using assms h None
      by (cases "parse_frame_header buf") (auto simp: ReadFrame_def parse_frame_header_def split: if_splits)
    obtain payload perr f2 where b: "io_ReadFull (unat (PayloadLen hdr)) f1 = ((payload, perr), f2)"
      by (cases "io_ReadFull (unat (PayloadLen hdr)) f1") auto
    have ok: "perr \<noteq> Some IOError" using assms h None p b by (auto simp: ReadFrame_def)
    have f': "f' = f2" using assms h None p b by (auto simp: ReadFrame_def split: option.splits if_splits)
    show ?thesis
      using assms(1) f' io_ReadFull_quiet [OF h] io_ReadFull_quiet [OF b ok] h None p b
      by (auto simp: ReadFrame_def split: option.splits if_splits)
  qed
qed

section \<open>Properties\<close>

text \<open>
  C12: a Frame that \<open>WriteFrame\<close> reports as written, on a device with any fault schedule, is read back
  by \<open>ReadFrame\<close> from the offset it was written at: the same flags, sequence numbers and payload,
  with the length and checksum of that payload in the header, whatever is appended later.
\<close>

theorem frame_write_read:
  assumes "WriteFrame hdr payload w = (None, w')" and "at_end w"
  shows "fst (ReadFrame \<lparr>fdata = fdata w' @ tail, fpos = fpos w, fsched = []\<rparr>) =
    Inr (sealed_header hdr payload, payload)"
proof -
  have "fdata w' = fdata w @ frame_bytes hdr payload" "length payload \<le> MaxFramePayload"
    using WriteFrame_extends [OF assms] by auto
  moreover have "rest \<lparr>fdata = fdata w' @ tail, fpos = fpos w, fsched = []\<rparr> = frame_bytes hdr payload @ tail"
    using assms(2) calculation by (simp add: rest_def at_end_def)
  ultimately show ?thesis by (simp add: ReadFrame_frame_bytes)
qed

definition sample_header :: FrameHeader where
  "sample_header = \<lparr>Flags = FlagSingleFrame, DocSeq = 1, FrameSeq = 0, PayloadLen = 0, PayloadCRC = 0\<rparr>"

theorem frame_write_read_witness:
  "fst (ReadFrame \<lparr>fdata = [9] @ frame_bytes sample_header [1, 2, 3] @ [7], fpos = 1, fsched = []\<rparr>) =
    Inr (sealed_header sample_header [1, 2, 3], [1, 2, 3])"
proof -
  let ?w = "\<lparr>fdata = [9], fpos = 1, fsched = []\<rparr>"
  have "WriteFrame sample_header [1, 2, 3] ?w =
      (None, ?w\<lparr>fdata := [9] @ frame_bytes sample_header [1, 2, 3], fpos := 36\<rparr>)"
    using WriteFrame_ok [of ?w "[1, 2, 3]" sample_header]
    by (simp add: at_end_def MaxFramePayload_def length_frame_bytes)
  from frame_write_read [OF this, of "[7]"] show ?thesis by (simp add: at_end_def)
qed

text \<open>
  C15: any single changed byte of a stored Frame is detected: a change in the 32 header bytes is
  reported as a header checksum mismatch, a change in the payload as a payload checksum mismatch.
\<close>

theorem frame_damage_detected:
  assumes "length payload \<le> MaxFramePayload"
    and "i < length (frame_bytes hdr payload)" and "v \<noteq> frame_bytes hdr payload ! i"
  shows "fst (ReadFrame \<lparr>fdata = pre @ (frame_bytes hdr payload)[i := v] @ tail, fpos = length pre, fsched = []\<rparr>) =
    Inl (if i < 32 then ErrHeaderCRC else ErrCRCMismatch)"
  by (rule ReadFrame_damaged [OF _ _ assms]) (simp_all add: rest_def)

theorem frame_damage_detected_witness:
  "fst (ReadFrame \<lparr>fdata = [] @ (frame_bytes sample_header [1, 2, 3])[33 := 9] @ [], fpos = length ([]::bytes), fsched = []\<rparr>) =
    Inl ErrCRCMismatch"
  using frame_damage_detected [of "[1, 2, 3]" 33 sample_header 9 "[]" "[]"]
  by (simp add: MaxFramePayload_def length_frame_bytes frame_bytes_def nth_append)

text \<open>
  A Frame of which only a proper prefix reached the disk is never read as a Frame. The error
  wraps \<open>EOF\<close> when nothing was written, and also when exactly the header was; every other cut is
  \<open>ErrTruncated\<close>.
\<close>

theorem frame_torn_rejected:
  assumes "length payload \<le> MaxFramePayload" and "c < length (frame_bytes hdr payload)"
  shows "fst (ReadFrame \<lparr>fdata = pre @ take c (frame_bytes hdr payload), fpos = length pre, fsched = []\<rparr>) =
    Inl (if c = 0 then ErrReadHeader EOF else if c = 32 then ErrReadPayload EOF else ErrTruncated)"
  by (rule ReadFrame_prefix [OF _ _ assms]) (simp_all add: rest_def)

theorem frame_torn_rejected_witness:
  "fst (ReadFrame \<lparr>fdata = [] @ take 32 (frame_bytes sample_header [1, 2, 3]), fpos = length ([]::bytes), fsched = []\<rparr>) =
    Inl (ErrReadPayload EOF)"
  using frame_torn_rejected [of "[1, 2, 3]" 32 sample_header "[]"]
  by (simp add: MaxFramePayload_def length_frame_bytes)

end
