(* ===== verification/Block_Index.thy ===== *)
theory Block_Index
  imports Go_Hash Go_IO
begin

text \<open>
  The per-Block index file of \<open>internal/block/index.go\<close>: a CRC-protected header followed by
  length-prefixed, CRC-protected entries. The theory holds the entry codec, the append path,
  the reader, the torn-tail repair run after a crash and the envelope replacement, with the
  errors of the source as values. Errors keep the read error they wrap, because
  \<open>truncateIncompleteIndexTail\<close> decides with \<open>errors.Is(err, io.ErrUnexpectedEOF)\<close>.

  Times are nanoseconds since the epoch; the file stores microseconds. \<open>int64\<close> fields are
  integers in the 64-bit signed range.
\<close>

section \<open>Constants, entries and errors\<close>

definition idxMagic :: bytes where "idxMagic = lit ''SIDX''"
definition idxVersion :: u16 where "idxVersion = 1"
definition idxHeaderLen :: nat where "idxHeaderLen = 12"
definition idxEntryVersion :: u8 where "idxEntryVersion = 1"
definition idxEntryVersionV2 :: u8 where "idxEntryVersionV2 = 2"
definition idxMinEntryLen :: nat where "idxMinEntryLen = 2"
definition idxLenPrefixSize :: nat where "idxLenPrefixSize = 2"
definition idxFixedFieldSize :: nat where "idxFixedFieldSize = 60"
definition idxMaxEntryLen :: nat where "idxMaxEntryLen = 131072"
definition maxUint16 :: nat where "maxUint16 = 65535"

record IndexEntry =
  TransactionID :: bytes
  DocName :: bytes
  ContentType :: bytes
  CreatedAt :: int
  FirstFrameOff :: int
  FrameCount :: u32
  TotalBytes :: int
  SHA256 :: bytes
  EncryptionEnvelope :: bytes

datatype decode_err =
    EntryTooShort
  | UnknownEntryVersion u8
  | MissingLengthPrefix
  | TruncatedString
  | FixedFieldsTruncated
  | TrailingBytes nat

datatype idx_cause =
    ReadHeader read_err
  | InvalidMagic
  | HeaderCRCMismatch
  | ReadEntryLen read_err
  | EntryLenExceedsMax
  | ReadEntryPayload read_err
  | ReadEntryCRC read_err
  | EntryCRCMismatch
  | DecodeEntry decode_err

datatype idx_err =
    ErrIdxCorrupt idx_cause
  | ErrDocNotFound
  | ErrFieldLength string
  | ErrIdxIO

fun cause_read_err :: "idx_cause \<Rightarrow> read_err option" where
  "cause_read_err (ReadHeader e) = Some e"
| "cause_read_err (ReadEntryLen e) = Some e"
| "cause_read_err (ReadEntryPayload e) = Some e"
| "cause_read_err (ReadEntryCRC e) = Some e"
| "cause_read_err _ = None"

text \<open>\<open>errors.Is(err, io.ErrUnexpectedEOF)\<close>.\<close>

fun idx_err_is_UnexpectedEOF :: "idx_err \<Rightarrow> bool" where
  "idx_err_is_UnexpectedEOF (ErrIdxCorrupt c) = (cause_read_err c = Some UnexpectedEOF)"
| "idx_err_is_UnexpectedEOF _ = False"

section \<open>The entry codec\<close>

definition validateEntryFieldLens :: "IndexEntry \<Rightarrow> idx_err option" where
  "validateEntryFieldLens e =
     (if length (TransactionID e) > maxUint16 then Some (ErrFieldLength ''transaction_id'')
      else if length (DocName e) > maxUint16 then Some (ErrFieldLength ''document_name'')
      else if length (ContentType e) > maxUint16 then Some (ErrFieldLength ''content_type'')
      else if length (EncryptionEnvelope e) > maxUint16 then Some (ErrFieldLength ''encryption_envelope'')
      else None)"

definition appendLenPrefixed :: "bytes \<Rightarrow> bytes" where
  "appendLenPrefixed d = put_u16 (of_nat (length d)) @ d"

definition encode_fixed :: "IndexEntry \<Rightarrow> bytes" where
  "encode_fixed e =
     put_u64 (word_of_int (time_to_UnixMicro (CreatedAt e))) @ put_u64 (word_of_int (FirstFrameOff e))
     @ put_u32 (FrameCount e) @ put_u64 (word_of_int (TotalBytes e)) @ SHA256 e"

definition encodeIndexEntry :: "IndexEntry \<Rightarrow> bytes" where
  "encodeIndexEntry e =
     (let version = (if length (EncryptionEnvelope e) > 0 then idxEntryVersionV2 else idxEntryVersion)
      in [version, 0] @ appendLenPrefixed (TransactionID e) @ appendLenPrefixed (DocName e)
         @ appendLenPrefixed (ContentType e) @ encode_fixed e
         @ (if version = idxEntryVersionV2 then appendLenPrefixed (EncryptionEnvelope e) else []))"

definition readLenPrefixed :: "bytes \<Rightarrow> decode_err + bytes \<times> nat" where
  "readLenPrefixed d =
     (if length d < idxLenPrefixSize then Inl MissingLengthPrefix
      else let n = unat (get_u16 (slice 0 idxLenPrefixSize d))
           in if length d < idxLenPrefixSize + n then Inl TruncatedString
              else Inr (slice idxLenPrefixSize (idxLenPrefixSize + n) d, idxLenPrefixSize + n))"

definition decodeIndexEntryVersion :: "bytes \<Rightarrow> decode_err + u8" where
  "decodeIndexEntryVersion d =
     (if length d < idxMinEntryLen then Inl EntryTooShort
      else if d ! 0 \<noteq> idxEntryVersion \<and> d ! 0 \<noteq> idxEntryVersionV2 then Inl (UnknownEntryVersion (d ! 0))
      else Inr (d ! 0))"

definition decodeIndexEntryStrings :: "bytes \<Rightarrow> nat \<Rightarrow> decode_err + bytes \<times> bytes \<times> bytes \<times> nat" where
  "decodeIndexEntryStrings d off =
     (case readLenPrefixed (drop off d) of Inl e \<Rightarrow> Inl e | Inr (txID, n1) \<Rightarrow>
        (case readLenPrefixed (drop (off + n1) d) of Inl e \<Rightarrow> Inl e | Inr (docName, n2) \<Rightarrow>
           (case readLenPrefixed (drop (off + n1 + n2) d) of Inl e \<Rightarrow> Inl e | Inr (contentType, n3) \<Rightarrow>
              Inr (txID, docName, contentType, off + n1 + n2 + n3))))"

definition decodeIndexEntryFixed :: "bytes \<Rightarrow> nat \<Rightarrow> decode_err + int \<times> int \<times> u32 \<times> int \<times> bytes \<times> nat" where
  "decodeIndexEntryFixed d off =
     (if length (drop off d) < idxFixedFieldSize then Inl FixedFieldsTruncated
      else Inr (time_UnixMicro (sint (get_u64 (slice off (off + 8) d))),
                sint (get_u64 (slice (off + 8) (off + 16) d)),
                get_u32 (slice (off + 16) (off + 20) d),
                sint (get_u64 (slice (off + 20) (off + 28) d)),
                slice (off + 28) (off + idxFixedFieldSize) d,
                off + idxFixedFieldSize))"

definition decodeIndexEntryEnvelope :: "bytes \<Rightarrow> u8 \<Rightarrow> nat \<Rightarrow> decode_err + bytes \<times> nat" where
  "decodeIndexEntryEnvelope d version off =
     (if version \<noteq> idxEntryVersionV2 then Inr ([], off)
      else case readLenPrefixed (drop off d) of Inl e \<Rightarrow> Inl e | Inr (env, n) \<Rightarrow> Inr (env, off + n))"

definition decodeIndexEntry :: "bytes \<Rightarrow> decode_err + IndexEntry" where
  "decodeIndexEntry d =
     (case decodeIndexEntryVersion d of Inl e \<Rightarrow> Inl e | Inr version \<Rightarrow>
        (case decodeIndexEntryStrings d idxMinEntryLen of Inl e \<Rightarrow> Inl e
         | Inr (txID, docName, contentType, off1) \<Rightarrow>
             (case decodeIndexEntryFixed d off1 of Inl e \<Rightarrow> Inl e
              | Inr (createdAt, firstFrameOff, frameCount, totalBytes, sha, off2) \<Rightarrow>
                  (case decodeIndexEntryEnvelope d version off2 of Inl e \<Rightarrow> Inl e
                   | Inr (envelope, off3) \<Rightarrow>
                       if off3 \<noteq> length d then Inl (TrailingBytes (length d - off3))
                       else Inr \<lparr>TransactionID = txID, DocName = docName, ContentType = contentType,
                                 CreatedAt = createdAt, FirstFrameOff = firstFrameOff,
                                 FrameCount = frameCount, TotalBytes = totalBytes, SHA256 = sha,
                                 EncryptionEnvelope = envelope\<rparr>))))"

section \<open>Writing the file\<close>

definition idx_header_bytes :: bytes where
  "idx_header_bytes =
     (let p = idxMagic @ put_u16 idxVersion @ put_u16 (of_nat idxHeaderLen) in p @ put_u32 (crc32c p))"

definition NewIndexWriter :: "io_outcome list \<Rightarrow> idx_err + osfile" where
  "NewIndexWriter sched =
     (case file_Create sched of (ok, f) \<Rightarrow>
        if \<not> ok then Inl ErrIdxIO
        else case file_Write idx_header_bytes f of (ok1, f1) \<Rightarrow>
          if \<not> ok1 then Inl ErrIdxIO else Inr f1)"

definition IndexWriter_Append :: "IndexEntry \<Rightarrow> osfile \<Rightarrow> idx_err option \<times> osfile" where
  "IndexWriter_Append e f =
     (case validateEntryFieldLens e of
        Some err \<Rightarrow> (Some err, f)
      | None \<Rightarrow>
          (let payload = encodeIndexEntry e in
           case file_Write (put_u32 (of_nat (length payload))) f of (ok1, f1) \<Rightarrow>
             if \<not> ok1 then (Some ErrIdxIO, f1)
             else case file_Write payload f1 of (ok2, f2) \<Rightarrow>
               if \<not> ok2 then (Some ErrIdxIO, f2)
               else case file_Write (put_u32 (crc32c payload)) f2 of (ok3, f3) \<Rightarrow>
                 if \<not> ok3 then (Some ErrIdxIO, f3)
                 else case file_Sync f3 of (ok4, f4) \<Rightarrow>
                   if \<not> ok4 then (Some ErrIdxIO, f4) else (None, f4)))"

definition IndexWriter_Close :: "osfile \<Rightarrow> idx_err option \<times> osfile" where
  "IndexWriter_Close f =
     (case file_Sync f of (ok, f1) \<Rightarrow>
        if \<not> ok then (Some ErrIdxIO, f1)
        else case file_Sync f1 of (ok2, f2) \<Rightarrow> (if ok2 then None else Some ErrIdxIO, f2))"

section \<open>Reading the file\<close>

definition validateIndexHeader :: "osfile \<Rightarrow> idx_err option \<times> osfile" where
  "validateIndexHeader f =
     (case io_ReadFull idxHeaderLen f of ((hdr, err), f1) \<Rightarrow>
        (case err of
           Some e \<Rightarrow> (Some (ErrIdxCorrupt (ReadHeader e)), f1)
         | None \<Rightarrow>
             if slice 0 4 hdr \<noteq> idxMagic then (Some (ErrIdxCorrupt InvalidMagic), f1)
             else if crc32c (slice 0 8 hdr) \<noteq> get_u32 (slice 8 12 hdr)
             then (Some (ErrIdxCorrupt HeaderCRCMismatch), f1)
             else (None, f1)))"

definition classifyOversizedEntryLen :: "osfile \<Rightarrow> nat \<Rightarrow> idx_err \<times> osfile" where
  "classifyOversizedEntryLen f payloadLen =
     (let oversized = ErrIdxCorrupt EntryLenExceedsMax in
      case file_Seek (fpos f) f of (ok1, f1) \<Rightarrow>
        if \<not> ok1 then (oversized, f1)
        else case file_SeekEnd f1 of (ok2, f2) \<Rightarrow>
          if \<not> ok2 then (oversized, f2)
          else if payloadLen + 4 > length (fdata f) - fpos f
          then (ErrIdxCorrupt (ReadEntryPayload UnexpectedEOF), f2)
          else (oversized, f2))"

text \<open>\<open>readNextEntry\<close>: \<open>Inr None\<close> is the clean end of the file.\<close>

definition readNextEntry :: "osfile \<Rightarrow> (idx_err + IndexEntry option) \<times> osfile" where
  "readNextEntry f =
     (case io_ReadFull 4 f of ((lenBuf, err), f1) \<Rightarrow>
        (case err of
           Some e \<Rightarrow> (if e = EOF then Inr None else Inl (ErrIdxCorrupt (ReadEntryLen e)), f1)
         | None \<Rightarrow>
             (let payloadLen = unat (get_u32 lenBuf) in
              if payloadLen > idxMaxEntryLen
              then (case classifyOversizedEntryLen f1 payloadLen of (e, f2) \<Rightarrow> (Inl e, f2))
              else case io_ReadFull payloadLen f1 of ((payload, perr), f2) \<Rightarrow>
                (case perr of
                   Some e \<Rightarrow> (Inl (ErrIdxCorrupt (ReadEntryPayload e)), f2)
                 | None \<Rightarrow>
                     (case io_ReadFull 4 f2 of ((crcBuf, cerr), f3) \<Rightarrow>
                        (case cerr of
                           Some e \<Rightarrow> (Inl (ErrIdxCorrupt (ReadEntryCRC e)), f3)
                         | None \<Rightarrow>
                             if crc32c payload \<noteq> get_u32 crcBuf
                             then (Inl (ErrIdxCorrupt EntryCRCMismatch), f3)
                             else (case decodeIndexEntry payload of
                                     Inl e \<Rightarrow> (Inl (ErrIdxCorrupt (DecodeEntry e)), f3)
                                   | Inr entry \<Rightarrow> (Inr (Some entry), f3))))))))"

lemma readNextEntry_progress:
  assumes "readNextEntry f = (Inr (Some e), f')"
  shows "length (rest f') < length (rest f)"
proof -
  obtain lenBuf f1 where l: "io_ReadFull 4 f = ((lenBuf, None), f1)"
    using assms by (auto simp: readNextEntry_def Let_def split: prod.splits option.splits if_splits)
  obtain payload f2 crcBuf where
    p: "io_ReadFull (unat (get_u32 lenBuf)) f1 = ((payload, None), f2)" and
    c: "io_ReadFull 4 f2 = ((crcBuf, None), f')"
    using assms l
    by (auto simp: readNextEntry_def Let_def split: prod.splits option.splits if_splits sum.splits)
  have "rest f = lenBuf @ payload @ crcBuf @ rest f'"
    using io_ReadFull_rest [OF l] io_ReadFull_rest [OF p] io_ReadFull_rest [OF c] by simp
  moreover have "length lenBuf = 4" using io_ReadFull_None_length [OF l] .
  ultimately show ?thesis by simp
qed

text \<open>The loop of \<open>readIndexEntries\<close> after the header check.\<close>

function read_entries_loop :: "osfile \<Rightarrow> idx_err + IndexEntry list" where
  "read_entries_loop f =
     (case readNextEntry f of
        (Inl e, _) \<Rightarrow> Inl e
      | (Inr None, _) \<Rightarrow> Inr []
      | (Inr (Some e), f1) \<Rightarrow>
          (case read_entries_loop f1 of Inl err \<Rightarrow> Inl err | Inr es \<Rightarrow> Inr (e # es)))"
  by pat_completeness auto
termination
  by (relation "measure (\<lambda>f. length (rest f))") (auto dest: readNextEntry_progress [OF sym])

declare read_entries_loop.simps [simp del]

definition readIndexEntries :: "osfile \<Rightarrow> idx_err + IndexEntry list" where
  "readIndexEntries f =
     (case validateIndexHeader f of
        (Some e, _) \<Rightarrow> Inl e
      | (None, f1) \<Rightarrow> read_entries_loop f1)"

text \<open>\<open>OpenIndexReader\<close> on a file with the given contents and schedule.\<close>

definition OpenIndexReader :: "bytes \<Rightarrow> io_outcome list \<Rightarrow> idx_err + IndexEntry list" where
  "OpenIndexReader content sched =
     (case file_Open content sched of (ok, f) \<Rightarrow> if \<not> ok then Inl ErrIdxIO else readIndexEntries f)"

primrec IndexReader_Find :: "IndexEntry list \<Rightarrow> bytes \<Rightarrow> bytes \<Rightarrow> idx_err + IndexEntry" where
  "IndexReader_Find [] txID docName = Inl ErrDocNotFound"
| "IndexReader_Find (e # es) txID docName =
     (if TransactionID e = txID \<and> DocName e = docName then Inr e else IndexReader_Find es txID docName)"

definition IndexReader_FindByTransaction :: "IndexEntry list \<Rightarrow> bytes \<Rightarrow> IndexEntry list" where
  "IndexReader_FindByTransaction es txID = filter (\<lambda>e. TransactionID e = txID) es"

definition OpenIndexWriter :: "bytes \<Rightarrow> io_outcome list \<Rightarrow> idx_err + osfile" where
  "OpenIndexWriter content sched =
     (case file_Open content sched of (ok, f) \<Rightarrow>
        if \<not> ok then Inl ErrIdxIO
        else case validateIndexHeader f of
          (Some e, _) \<Rightarrow> Inl e
        | (None, f1) \<Rightarrow> (case file_SeekEnd f1 of (ok2, f2) \<Rightarrow> if ok2 then Inr f2 else Inl ErrIdxIO))"

section \<open>Repairing a torn tail\<close>

definition truncateIncompleteIndexTail :: "osfile \<Rightarrow> nat \<Rightarrow> idx_err \<Rightarrow> idx_err option \<times> osfile" where
  "truncateIncompleteIndexTail f validEnd readErr =
     (if \<not> idx_err_is_UnexpectedEOF readErr then (Some readErr, f)
      else case file_Truncate validEnd f of (ok, f1) \<Rightarrow>
        if \<not> ok then (Some ErrIdxIO, f1)
        else case file_Sync f1 of (ok2, f2) \<Rightarrow>
          if \<not> ok2 then (Some ErrIdxIO, f2) else (None, f2))"

lemma file_Seek_rest: "file_Seek (fpos f) f = (ok, f') \<Longrightarrow> rest f' = rest f"
  by (auto simp: file_Seek_def rest_def split: prod.splits if_splits dest: next_outcome_data)

function repairIndexTail :: "osfile \<Rightarrow> idx_err option \<times> osfile" where
  "repairIndexTail f =
     (let validEnd = fpos f in
      case file_Seek validEnd f of (ok, f1) \<Rightarrow>
        if \<not> ok then (Some ErrIdxIO, f1)
        else case readNextEntry f1 of
          (Inr None, f2) \<Rightarrow> (None, f2)
        | (Inl e, f2) \<Rightarrow> truncateIncompleteIndexTail f2 validEnd e
        | (Inr (Some _), f2) \<Rightarrow> repairIndexTail f2)"
  by pat_completeness auto
termination
  by (relation "measure (\<lambda>f. length (rest f))")
    (auto dest!: readNextEntry_progress [OF sym] file_Seek_rest [OF sym])

declare repairIndexTail.simps [simp del]

definition RepairIndexTail :: "bytes \<Rightarrow> io_outcome list \<Rightarrow> idx_err option \<times> bytes" where
  "RepairIndexTail content sched =
     (case file_Open content sched of (ok, f) \<Rightarrow>
        if \<not> ok then (Some ErrIdxIO, content)
        else case validateIndexHeader f of
          (Some e, f1) \<Rightarrow> (Some e, fdata f1)
        | (None, f1) \<Rightarrow> (case repairIndexTail f1 of (err, f2) \<Rightarrow> (err, fdata f2)))"

section \<open>Replacing an envelope\<close>

primrec append_all :: "IndexEntry list \<Rightarrow> osfile \<Rightarrow> idx_err option \<times> osfile" where
  "append_all [] f = (None, f)"
| "append_all (e # es) f =
     (case IndexWriter_Append e f of (Some err, f1) \<Rightarrow> (Some err, f1) | (None, f1) \<Rightarrow> append_all es f1)"

text \<open>
  The outcomes of the file operations \<open>ReplaceDocumentEnvelope\<close> makes: the reads and the close
  of the old index, the temporary placeholder (created, closed, removed), the writes to the
  replacement, the rename and the directory sync.
\<close>

record rewrite_env =
  env_read :: "io_outcome list"
  env_close :: bool
  env_tmp :: bool
  env_write :: "io_outcome list"
  env_rename :: bool
  env_sync :: bool

text \<open>
  \<open>rewriteIndexEntries\<close>: the entries go to a temporary file, which replaces the index by a
  rename; the result is the error and the contents the index path has afterwards.
\<close>

definition rewriteIndexEntries ::
  "rewrite_env \<Rightarrow> bytes \<Rightarrow> IndexEntry list \<Rightarrow> idx_err option \<times> bytes" where
  "rewriteIndexEntries env content entries =
     (if \<not> env_tmp env then (Some ErrIdxIO, content)
      else case NewIndexWriter (env_write env) of Inl e \<Rightarrow> (Some e, content) | Inr f \<Rightarrow>
        (case append_all entries f of
           (Some e, _) \<Rightarrow> (Some e, content)
         | (None, f1) \<Rightarrow>
             (case IndexWriter_Close f1 of
                (Some e, _) \<Rightarrow> (Some e, content)
              | (None, f2) \<Rightarrow>
                  if \<not> env_rename env then (Some ErrIdxIO, content)
                  else (if env_sync env then None else Some ErrIdxIO, fdata f2))))"

text \<open>The first entry with the given identity.\<close>

primrec find_target :: "IndexEntry list \<Rightarrow> bytes \<Rightarrow> bytes \<Rightarrow> nat option" where
  "find_target [] txID docName = None"
| "find_target (e # es) txID docName =
     (if TransactionID e = txID \<and> DocName e = docName then Some 0
      else map_option Suc (find_target es txID docName))"

definition ReplaceDocumentEnvelope ::
  "rewrite_env \<Rightarrow> bytes \<Rightarrow> bytes \<Rightarrow> bytes \<Rightarrow> bytes \<Rightarrow> (idx_err + IndexEntry \<times> bool) \<times> bytes" where
  "ReplaceDocumentEnvelope env content txID docName envelope =
     (case OpenIndexReader content (env_read env) of
        Inl e \<Rightarrow> (Inl e, content)
      | Inr entries \<Rightarrow>
          if \<not> env_close env then (Inl ErrIdxIO, content)
          else case find_target entries txID docName of
             None \<Rightarrow> (Inl ErrDocNotFound, content)
           | Some t \<Rightarrow>
               if EncryptionEnvelope (entries ! t) = envelope then (Inr (entries ! t, False), content)
               else let entries' = entries[t := (entries ! t)\<lparr>EncryptionEnvelope := envelope\<rparr>] in
                 (case rewriteIndexEntries env content entries' of
                    (Some e, content') \<Rightarrow> (Inl e, content')
                  | (None, content') \<Rightarrow> (Inr (entries' ! t, True), content')))"

section \<open>The codec round trip\<close>

text \<open>What the Go types guarantee of an entry value: 64-bit fields and a 32-byte digest.\<close>

definition int64_range :: "int \<Rightarrow> bool" where
  "int64_range x \<longleftrightarrow> - (2 ^ 63) \<le> x \<and> x < 2 ^ 63"

definition entry_typed :: "IndexEntry \<Rightarrow> bool" where
  "entry_typed e \<longleftrightarrow> int64_range (FirstFrameOff e) \<and> int64_range (TotalBytes e) \<and> length (SHA256 e) = 32"

text \<open>An entry \<open>Append\<close> accepts and \<open>readNextEntry\<close> is willing to read.\<close>

definition entry_storable :: "IndexEntry \<Rightarrow> bool" where
  "entry_storable e \<longleftrightarrow> entry_typed e \<and> validateEntryFieldLens e = None
     \<and> length (encodeIndexEntry e) \<le> idxMaxEntryLen"

text \<open>The entry as it is read back: the time is kept to the microsecond.\<close>

definition stored_entry :: "IndexEntry \<Rightarrow> IndexEntry" where
  "stored_entry e = e\<lparr>CreatedAt := time_UnixMicro (time_to_UnixMicro (CreatedAt e))\<rparr>"

lemma sint_word_of_int64: "int64_range x \<Longrightarrow> sint (word_of_int x :: u64) = x"
  by (simp add: int64_range_def sint_sbintrunc' signed_take_bit_int_eq_self)

lemma int64_range_UnixMicro [simp]: "int64_range (time_to_UnixMicro t)"
  using wrap64_range by (simp add: int64_range_def time_to_UnixMicro_def)

lemma length_appendLenPrefixed [simp]: "length (appendLenPrefixed d) = 2 + length d"
  by (simp add: appendLenPrefixed_def)

lemma length_encode_fixed [simp]: "length (SHA256 e) = 32 \<Longrightarrow> length (encode_fixed e) = 60"
  by (simp add: encode_fixed_def)

lemma readLenPrefixed_append:
  assumes "length d \<le> maxUint16"
  shows "readLenPrefixed (appendLenPrefixed d @ r) = Inr (d, 2 + length d)"
proof -
  have "unat (of_nat (length d) :: u16) = length d"
    using assms by (simp add: maxUint16_def unat_of_nat)
  then show ?thesis
    by (simp add: readLenPrefixed_def appendLenPrefixed_def idxLenPrefixSize_def Let_def)
qed

lemma drop_appendLenPrefixed [simp]: "drop (2 + length d) (appendLenPrefixed d @ r) = r"
  by simp

lemma decodeIndexEntryStrings_append:
  assumes "length a \<le> maxUint16" "length b \<le> maxUint16" "length c \<le> maxUint16" "length pre = off"
  shows "decodeIndexEntryStrings (pre @ appendLenPrefixed a @ appendLenPrefixed b @ appendLenPrefixed c @ r) off
       = Inr (a, b, c, off + (2 + length a) + (2 + length b) + (2 + length c))"
proof -
  let ?d = "pre @ appendLenPrefixed a @ appendLenPrefixed b @ appendLenPrefixed c @ r"
  have "drop off ?d = appendLenPrefixed a @ appendLenPrefixed b @ appendLenPrefixed c @ r"
    and "drop (off + (2 + length a)) ?d = appendLenPrefixed b @ appendLenPrefixed c @ r"
    and "drop (off + (2 + length a) + (2 + length b)) ?d = appendLenPrefixed c @ r"
    using assms(4) by auto
  then show ?thesis using assms(1-3)
    by (simp only: decodeIndexEntryStrings_def readLenPrefixed_append sum.case prod.case)
qed

lemma decodeIndexEntryFixed_append:
  assumes "entry_typed e" and "length pre = off"
  shows "decodeIndexEntryFixed (pre @ encode_fixed e @ r) off
       = Inr (CreatedAt (stored_entry e), FirstFrameOff e, FrameCount e, TotalBytes e, SHA256 e, off + 60)"
proof -
  have len: "length (SHA256 e) = 32" using assms(1) by (simp add: entry_typed_def)
  have sl: "slice (off + i) (off + j) (pre @ encode_fixed e @ r) = slice i j (encode_fixed e)"
    if "j \<le> 60" for i j using that assms(2) len by simp
  have 0: "slice off (off + 8) (pre @ encode_fixed e @ r) = slice 0 8 (encode_fixed e)"
    using sl [of 8 0] by simp
  show ?thesis
    using assms len
    by (simp add: decodeIndexEntryFixed_def idxFixedFieldSize_def sl 0 stored_entry_def)
      (simp add: encode_fixed_def entry_typed_def sint_word_of_int64)
qed

lemma decodeIndexEntry_encode:
  assumes "entry_typed e" and "validateEntryFieldLens e = None"
  shows "decodeIndexEntry (encodeIndexEntry e) = Inr (stored_entry e)"
proof -
  have len: "length (SHA256 e) = 32" using assms(1) by (simp add: entry_typed_def)
  have lens: "length (TransactionID e) \<le> maxUint16" "length (DocName e) \<le> maxUint16"
    "length (ContentType e) \<le> maxUint16" "length (EncryptionEnvelope e) \<le> maxUint16"
    using assms(2) by (auto simp: validateEntryFieldLens_def split: if_splits)
  define v where "v = (if length (EncryptionEnvelope e) > 0 then idxEntryVersionV2 else idxEntryVersion)"
  define env where "env = (if v = idxEntryVersionV2 then appendLenPrefixed (EncryptionEnvelope e) else [])"
  define strs where "strs = appendLenPrefixed (TransactionID e) @ appendLenPrefixed (DocName e)
     @ appendLenPrefixed (ContentType e)"
  have enc: "encodeIndexEntry e = [v, 0] @ appendLenPrefixed (TransactionID e) @ appendLenPrefixed (DocName e)
     @ appendLenPrefixed (ContentType e) @ encode_fixed e @ env"
    by (simp add: encodeIndexEntry_def v_def env_def Let_def)
  then have enc2: "encodeIndexEntry e = ([v, 0] @ strs) @ encode_fixed e @ env"
    and enc3: "encodeIndexEntry e = (([v, 0] @ strs) @ encode_fixed e) @ env"
    by (simp_all add: strs_def)
  have ver: "decodeIndexEntryVersion (encodeIndexEntry e) = Inr v"
    by (simp add: enc decodeIndexEntryVersion_def idxMinEntryLen_def v_def)
  define off1 where "off1 = length ([v, 0] @ strs)"
  have "decodeIndexEntryStrings (encodeIndexEntry e) idxMinEntryLen
      = Inr (TransactionID e, DocName e, ContentType e, idxMinEntryLen + (2 + length (TransactionID e))
             + (2 + length (DocName e)) + (2 + length (ContentType e)))"
    unfolding enc by (rule decodeIndexEntryStrings_append) (use lens in \<open>simp_all add: idxMinEntryLen_def\<close>)
  then have strs': "decodeIndexEntryStrings (encodeIndexEntry e) idxMinEntryLen
      = Inr (TransactionID e, DocName e, ContentType e, off1)"
    by (simp add: off1_def strs_def idxMinEntryLen_def)
  have fix': "decodeIndexEntryFixed (encodeIndexEntry e) off1
      = Inr (CreatedAt (stored_entry e), FirstFrameOff e, FrameCount e, TotalBytes e, SHA256 e, off1 + 60)"
    unfolding enc2 by (rule decodeIndexEntryFixed_append) (simp_all add: assms(1) off1_def)
  have off2: "length (([v, 0] @ strs) @ encode_fixed e) = off1 + 60"
    using len by (simp add: off1_def)
  have env': "decodeIndexEntryEnvelope (encodeIndexEntry e) v (off1 + 60)
      = Inr (EncryptionEnvelope e, off1 + 60 + length env)"
  proof (cases "v = idxEntryVersionV2")
    case True
    have "drop (off1 + 60) (encodeIndexEntry e) = env" unfolding enc3 using off2 by (metis append_eq_conv_conj)
    moreover have "readLenPrefixed env = Inr (EncryptionEnvelope e, 2 + length (EncryptionEnvelope e))"
      using readLenPrefixed_append [OF lens(4), of "[]"] True by (simp add: env_def)
    ultimately show ?thesis using True by (simp add: decodeIndexEntryEnvelope_def env_def)
  next
    case False
    then have "EncryptionEnvelope e = []" by (simp add: v_def split: if_splits)
    then show ?thesis using False by (simp add: decodeIndexEntryEnvelope_def env_def)
  qed
  have "length (encodeIndexEntry e) = off1 + 60 + length env" unfolding enc3 using off2 by simp
  then show ?thesis
    by (simp add: decodeIndexEntry_def ver strs' fix' env' stored_entry_def)
qed

end
