(* ===== verification/Block_Index_File.thy ===== *)
theory Block_Index_File
  imports Block_Index
begin

text \<open>
  Index files as a whole: the bytes a sequence of appended entries leaves on the device, what the
  reader returns for them, what a failed append leaves behind and what \<open>RepairIndexTail\<close> makes of
  it, and the atomicity of \<open>ReplaceDocumentEnvelope\<close>.
\<close>

section \<open>The stored form of an index file\<close>

definition entry_record :: "IndexEntry \<Rightarrow> bytes" where
  "entry_record e = (let p = encodeIndexEntry e in put_u32 (of_nat (length p)) @ p @ put_u32 (crc32c p))"

definition idx_file_bytes :: "IndexEntry list \<Rightarrow> bytes" where
  "idx_file_bytes es = idx_header_bytes @ concat (map entry_record es)"

lemma put_u32_nonempty: "put_u32 w \<noteq> []"
  by (metis le32.length_put length_0_conv zero_neq_numeral)

lemma length_entry_record: "length (entry_record e) = 8 + length (encodeIndexEntry e)"
  by (simp add: entry_record_def Let_def)

lemma encodeIndexEntry_nonempty: "2 < length (encodeIndexEntry e)"
  by (simp add: encodeIndexEntry_def Let_def)

lemma length_idx_header_bytes [simp]: "length idx_header_bytes = 12"
  by (simp add: idx_header_bytes_def idxMagic_def Let_def)

lemma unat_entry_len:
  "entry_storable e \<Longrightarrow> unat (of_nat (length (encodeIndexEntry e)) :: u32) = length (encodeIndexEntry e)"
  by (simp add: entry_storable_def idxMaxEntryLen_def unat_of_nat)

lemma validateIndexHeader_ok:
  assumes "fsched f = []" and "rest f = idx_header_bytes @ tail"
  shows "validateIndexHeader f = (None, f\<lparr>fpos := fpos f + 12\<rparr>)"
proof -
  have "io_ReadFull idxHeaderLen f = ((idx_header_bytes, None), f\<lparr>fpos := fpos f + 12\<rparr>)"
    using io_ReadFull_full [OF assms] by (simp add: idxHeaderLen_def)
  moreover have "slice 0 4 idx_header_bytes = idxMagic"
    "crc32c (slice 0 8 idx_header_bytes) = get_u32 (slice 8 12 idx_header_bytes)"
    using slice_append_front [of 8 "lit ''SIDX'' @ put_u16 idxVersion @ put_u16 (of_nat idxHeaderLen)" 0]
    by (simp_all add: idx_header_bytes_def Let_def idxMagic_def)
  ultimately show ?thesis by (simp add: validateIndexHeader_def)
qed

subsection \<open>Reading one record, whole or torn\<close>

lemma readNextEntry_whole:
  assumes "fsched f = []" and "rest f = entry_record e @ tail" and "entry_storable e"
  shows "readNextEntry f = (Inr (Some (stored_entry e)), f\<lparr>fpos := fpos f + length (entry_record e)\<rparr>)"
proof -
  let ?p = "encodeIndexEntry e"
  let ?f1 = "f\<lparr>fpos := fpos f + 4\<rparr>" and ?f2 = "f\<lparr>fpos := fpos f + 4 + length ?p\<rparr>"
  have r: "rest f = put_u32 (of_nat (length ?p)) @ (?p @ put_u32 (crc32c ?p) @ tail)"
    using assms(2) by (simp add: entry_record_def Let_def)
  then have l: "io_ReadFull 4 f = ((put_u32 (of_nat (length ?p)), None), ?f1)"
    using io_ReadFull_full [OF assms(1) r, of 4] by simp
  have r1: "rest ?f1 = ?p @ (put_u32 (crc32c ?p) @ tail)" using rest_advance [OF r] by simp
  then have p: "io_ReadFull (length ?p) ?f1 = ((?p, None), ?f2)"
    using io_ReadFull_full [OF _ r1] assms(1) by simp
  have r2: "rest ?f2 = put_u32 (crc32c ?p) @ tail" using rest_advance [OF r1] by simp
  then have c: "io_ReadFull 4 ?f2 = ((put_u32 (crc32c ?p), None), f\<lparr>fpos := fpos f + 4 + length ?p + 4\<rparr>)"
    using io_ReadFull_full [OF _ r2] assms(1) by simp
  have "length ?p \<le> idxMaxEntryLen" "decodeIndexEntry ?p = Inr (stored_entry e)"
    using assms(3) by (simp_all add: entry_storable_def decodeIndexEntry_encode)
  then show ?thesis
    using assms(3)
    by (simp add: readNextEntry_def l p c unat_entry_len Let_def length_entry_record)
qed

text \<open>The error of reading a record of which only the first \<open>c\<close> bytes reached the disk.\<close>

definition torn_result :: "nat \<Rightarrow> nat \<Rightarrow> idx_err + IndexEntry option" where
  "torn_result n c =
     (if c = 0 then Inr None
      else Inl (ErrIdxCorrupt
        (if c < 4 then ReadEntryLen UnexpectedEOF
         else if c = 4 then ReadEntryPayload EOF
         else if c < 4 + n then ReadEntryPayload UnexpectedEOF
         else if c = 4 + n then ReadEntryCRC EOF
         else ReadEntryCRC UnexpectedEOF)))"

lemma readNextEntry_torn:
  assumes "fsched f = []" and "rest f = take c (entry_record e)" and "entry_storable e"
    and "c < length (entry_record e)"
  shows "\<exists>p. readNextEntry f = (torn_result (length (encodeIndexEntry e)) c, f\<lparr>fpos := p\<rparr>)"
proof -
  let ?p = "encodeIndexEntry e"
  let ?n = "length ?p"
  let ?f1 = "f\<lparr>fpos := fpos f + 4\<rparr>" and ?f2 = "f\<lparr>fpos := fpos f + 4 + ?n\<rparr>"
  have len: "length (rest f) = c" using assms(2,4) by simp
  have n: "?n \<le> idxMaxEntryLen" "2 < ?n" "?p \<noteq> []"
    using assms(3) encodeIndexEntry_nonempty [of e] by (auto simp: entry_storable_def)
  consider "c = 0" | "0 < c" "c < 4" | "4 \<le> c" by linarith
  then show ?thesis
  proof cases
    case 1
    then have "rest f = []" using len by simp
    then have "io_ReadFull 4 f = (([], Some EOF), f\<lparr>fpos := fpos f\<rparr>)"
      using assms(1) by (simp add: io_ReadFull_eof)
    then show ?thesis using 1 by (auto simp: readNextEntry_def torn_result_def intro: exI [of _ "fpos f"])
  next
    case 2
    then have "rest f \<noteq> []" "length (rest f) < 4" using len by auto
    then show ?thesis using 2 io_ReadFull_short [OF assms(1)]
      by (auto simp: readNextEntry_def torn_result_def)
  next
    case 3
    have r: "rest f = put_u32 (of_nat ?n) @ take (c - 4) (?p @ put_u32 (crc32c ?p))"
      using assms(2) 3 by (simp add: entry_record_def Let_def)
    have l: "io_ReadFull 4 f = ((put_u32 (of_nat ?n), None), ?f1)"
      using io_ReadFull_full [OF assms(1) r, of 4] by simp
    have r1: "rest ?f1 = take (c - 4) (?p @ put_u32 (crc32c ?p))" using rest_advance [OF r] by simp
    note step = readNextEntry_def l unat_entry_len [OF assms(3)] Let_def torn_result_def
    show ?thesis
    proof (cases "c < 4 + ?n")
      case True
      then have r1': "rest ?f1 = take (c - 4) ?p" using r1 by simp
      show ?thesis
      proof (cases "c = 4")
        case True
        then have "io_ReadFull ?n ?f1 = (([], Some EOF), ?f1)"
          using r1' n assms(1) by (intro io_ReadFull_eof) simp_all
        then show ?thesis using True n by (auto simp: step)
      next
        case False
        then have "rest ?f1 \<noteq> []" "length (rest ?f1) < ?n" using r1' 3 \<open>c < 4 + ?n\<close> by auto
        from io_ReadFull_short [OF _ this] show ?thesis
          using assms(1) 3 False \<open>c < 4 + ?n\<close> n by (auto simp: step)
      qed
    next
      case False
      then have r1': "rest ?f1 = ?p @ take (c - 4 - ?n) (put_u32 (crc32c ?p))" using r1 by simp
      have p: "io_ReadFull ?n ?f1 = ((?p, None), ?f2)"
        using io_ReadFull_full [OF _ r1'] assms(1) by simp
      have r2: "rest ?f2 = take (c - 4 - ?n) (put_u32 (crc32c ?p))" using rest_advance [OF r1'] by simp
      have lt: "c - 4 - ?n < 4" using assms(4) False by (simp add: length_entry_record)
      show ?thesis
      proof (cases "c = 4 + ?n")
        case True
        then have "io_ReadFull 4 ?f2 = (([], Some EOF), ?f2)"
          using r2 assms(1) by (intro io_ReadFull_eof) simp_all
        then show ?thesis using True n by (auto simp: step p)
      next
        case F: False
        then have "rest ?f2 \<noteq> []" "length (rest ?f2) < 4" using r2 lt False F by (auto simp: put_u32_nonempty)
        from io_ReadFull_short [OF _ this] show ?thesis
          using assms(1) False F 3 n by (auto simp: step p)
      qed
    qed
  qed
qed

subsection \<open>Reading and repairing whole files\<close>

lemma read_entries_loop_records:
  assumes "fsched f = []" and "rest f = concat (map entry_record es)" and "\<forall>e\<in>set es. entry_storable e"
  shows "read_entries_loop f = Inr (map stored_entry es)"
  using assms
proof (induction es arbitrary: f)
  case Nil
  then have "io_ReadFull 4 f = (([], Some EOF), f)" by (simp add: io_ReadFull_eof)
  then show ?case by (simp add: read_entries_loop.simps [of f] readNextEntry_def)
next
  case (Cons e es)
  let ?f1 = "f\<lparr>fpos := fpos f + length (entry_record e)\<rparr>"
  have r: "rest f = entry_record e @ concat (map entry_record es)" using Cons.prems(2) by simp
  have "readNextEntry f = (Inr (Some (stored_entry e)), ?f1)"
    using readNextEntry_whole [OF Cons.prems(1) r] Cons.prems(3) by simp
  moreover have "read_entries_loop ?f1 = Inr (map stored_entry es)"
    by (rule Cons.IH) (use Cons.prems rest_advance [OF r] in simp_all)
  ultimately show ?case by (simp add: read_entries_loop.simps [of f])
qed

lemma OpenIndexReader_file:
  assumes "\<forall>e\<in>set es. entry_storable e"
  shows "OpenIndexReader (idx_file_bytes es) [] = Inr (map stored_entry es)"
proof -
  let ?f = "\<lparr>fdata = idx_file_bytes es, fpos = 0, fsched = []\<rparr>"
  have r: "rest ?f = idx_header_bytes @ concat (map entry_record es)"
    by (simp add: rest_def idx_file_bytes_def)
  have "rest (?f\<lparr>fpos := 12\<rparr>) = concat (map entry_record es)"
    using rest_advance [OF r] by simp
  then show ?thesis
    using validateIndexHeader_ok [OF _ r] read_entries_loop_records [of "?f\<lparr>fpos := 12\<rparr>" es] assms
    by (simp add: OpenIndexReader_def file_Open_def readIndexEntries_def)
qed

lemma repairIndexTail_torn:
  assumes "fsched f = []" and "rest f = concat (map entry_record es) @ take c (entry_record e)"
    and "\<forall>e\<in>set es. entry_storable e" and "entry_storable e" and "c < length (entry_record e)"
    and "fpos f \<le> length (fdata f)"
  defines "n \<equiv> length (encodeIndexEntry e)"
  shows "\<exists>f'. repairIndexTail f =
      (if c = 4 then Some (ErrIdxCorrupt (ReadEntryPayload EOF))
       else if c = 4 + n then Some (ErrIdxCorrupt (ReadEntryCRC EOF)) else None, f')
    \<and> fdata f' = (if c = 4 \<or> c = 4 + n then fdata f else take (length (fdata f) - c) (fdata f))"
  using assms(1-3,6)
proof (induction es arbitrary: f)
  case Nil
  have r: "rest f = take c (entry_record e)" using Nil.prems(2) by simp
  obtain p where p: "readNextEntry f = (torn_result n c, f\<lparr>fpos := p\<rparr>)"
    using readNextEntry_torn [OF Nil.prems(1) r assms(4,5)] by (auto simp: n_def)
  have s: "file_Seek (fpos f) f = (True, f)" using Nil.prems(1) by simp
  have "length (rest f) = c" using r assms(5) by simp
  then have pos: "fpos f = length (fdata f) - c" and "c \<le> length (fdata f)"
    using Nil.prems(4) by (auto simp: rest_def)
  have "repairIndexTail f =
      (case torn_result n c of Inr None \<Rightarrow> (None, f\<lparr>fpos := p\<rparr>)
       | Inr (Some _) \<Rightarrow> repairIndexTail (f\<lparr>fpos := p\<rparr>)
       | Inl err \<Rightarrow> truncateIncompleteIndexTail (f\<lparr>fpos := p\<rparr>) (fpos f) err)"
    by (subst repairIndexTail.simps) (simp add: s p Let_def split: sum.splits option.splits)
  then show ?case
    using Nil.prems(1) pos \<open>c \<le> length (fdata f)\<close> encodeIndexEntry_nonempty [of e]
    by (auto simp: torn_result_def truncateIncompleteIndexTail_def n_def)
next
  case (Cons e' es)
  let ?f1 = "f\<lparr>fpos := fpos f + length (entry_record e')\<rparr>"
  have r: "rest f = entry_record e' @ (concat (map entry_record es) @ take c (entry_record e))"
    using Cons.prems(2) by simp
  have w: "readNextEntry f = (Inr (Some (stored_entry e')), ?f1)"
    using readNextEntry_whole [OF Cons.prems(1) r] Cons.prems(3) by simp
  have le: "fpos ?f1 \<le> length (fdata ?f1)"
  proof -
    have "length (entry_record e') \<le> length (rest f)" by (simp add: r)
    then show ?thesis using Cons.prems(4) by (simp add: rest_def)
  qed
  have "repairIndexTail f = repairIndexTail ?f1"
    using Cons.prems(1) w by (subst repairIndexTail.simps) (simp add: Let_def)
  moreover have "fsched ?f1 = []" "rest ?f1 = concat (map entry_record es) @ take c (entry_record e)"
    using Cons.prems(1) rest_advance [OF r] by simp_all
  moreover have "\<forall>e\<in>set es. entry_storable e" and d: "fdata ?f1 = fdata f"
    using Cons.prems(3) by simp_all
  ultimately show ?case using Cons.IH [of ?f1, unfolded d] le [unfolded d] by metis
qed

lemma RepairIndexTail_torn:
  assumes "\<forall>e\<in>set es. entry_storable e" and "entry_storable e" and "c < length (entry_record e)"
  defines "n \<equiv> length (encodeIndexEntry e)"
  shows "RepairIndexTail (idx_file_bytes es @ take c (entry_record e)) [] =
      (if c = 4 then (Some (ErrIdxCorrupt (ReadEntryPayload EOF)), idx_file_bytes es @ take c (entry_record e))
       else if c = 4 + n then (Some (ErrIdxCorrupt (ReadEntryCRC EOF)), idx_file_bytes es @ take c (entry_record e))
       else (None, idx_file_bytes es))"
proof -
  let ?d = "idx_file_bytes es @ take c (entry_record e)"
  let ?f = "\<lparr>fdata = ?d, fpos = 0, fsched = []\<rparr>"
  have r: "rest ?f = idx_header_bytes @ (concat (map entry_record es) @ take c (entry_record e))"
    by (simp add: rest_def idx_file_bytes_def)
  have v: "validateIndexHeader ?f = (None, ?f\<lparr>fpos := 12\<rparr>)"
    using validateIndexHeader_ok [OF _ r] by simp
  have r1: "rest (?f\<lparr>fpos := 12\<rparr>) = concat (map entry_record es) @ take c (entry_record e)"
    using rest_advance [OF r] by simp
  have "length ?d - c = length (idx_file_bytes es)" using assms(3) by simp
  then have tk: "take (length ?d - c) ?d = idx_file_bytes es" by (simp only:) simp
  have le: "fpos (?f\<lparr>fpos := 12\<rparr>) \<le> length (fdata (?f\<lparr>fpos := 12\<rparr>))"
    by (simp add: idx_file_bytes_def)
  from repairIndexTail_torn [OF _ r1 assms(1,2,3) le] obtain f' where
    f': "repairIndexTail (?f\<lparr>fpos := 12\<rparr>) =
      (if c = 4 then Some (ErrIdxCorrupt (ReadEntryPayload EOF))
       else if c = 4 + n then Some (ErrIdxCorrupt (ReadEntryCRC EOF)) else None, f')"
    "fdata f' = (if c = 4 \<or> c = 4 + n then ?d else take (length ?d - c) ?d)"
    by (auto simp: n_def)
  show ?thesis
    using f' unfolding tk by (simp add: RepairIndexTail_def file_Open_def v)
qed


subsection \<open>Writing under an arbitrary fault schedule\<close>

lemma IndexWriter_Append_prefix:
  assumes "IndexWriter_Append e f = (r, f')" and "at_end f"
  shows "\<exists>c\<le>length (entry_record e). fdata f' = fdata f @ take c (entry_record e) \<and> at_end f'
       \<and> (r = None \<longrightarrow> c = length (entry_record e))"
proof (cases "validateEntryFieldLens e")
  case (Some err)
  then show ?thesis using assms by (intro exI [of _ 0]) (auto simp: IndexWriter_Append_def)
next
  case None
  let ?p = "encodeIndexEntry e"
  let ?l = "put_u32 (of_nat (length ?p))" and ?c = "put_u32 (crc32c ?p)"
  have er: "entry_record e = ?l @ ?p @ ?c" by (simp add: entry_record_def Let_def)
  obtain ok1 f1 where w1: "file_Write ?l f = (ok1, f1)" by (cases "file_Write ?l f")
  then obtain k1 where k1: "k1 \<le> 4" "fdata f1 = fdata f @ take k1 ?l" "at_end f1" "ok1 \<longrightarrow> k1 = 4"
    using file_Write_prefix [OF w1 assms(2)] by auto
  obtain ok2 f2 where w2: "file_Write ?p f1 = (ok2, f2)" by (cases "file_Write ?p f1")
  then obtain k2 where k2: "k2 \<le> length ?p" "fdata f2 = fdata f1 @ take k2 ?p" "at_end f2" "ok2 \<longrightarrow> k2 = length ?p"
    using file_Write_prefix [OF w2 k1(3)] by auto
  obtain ok3 f3 where w3: "file_Write ?c f2 = (ok3, f3)" by (cases "file_Write ?c f2")
  then obtain k3 where k3: "k3 \<le> 4" "fdata f3 = fdata f2 @ take k3 ?c" "at_end f3" "ok3 \<longrightarrow> k3 = 4"
    using file_Write_prefix [OF w3 k2(3)] by auto
  obtain ok4 f4 where w4: "file_Sync f3 = (ok4, f4)" by (cases "file_Sync f3")
  then have k4: "fdata f4 = fdata f3" "at_end f4" using file_Sync_keeps [OF w4] k3(3) by (auto simp: at_end_def)
  note run = IndexWriter_Append_def None Let_def w1 w2 w3 w4
  consider "\<not> ok1" | "ok1" "\<not> ok2" | "ok1" "ok2" "\<not> ok3" | "ok1" "ok2" "ok3" by blast
  then show ?thesis
  proof cases
    case 1 then show ?thesis using assms(1) k1
      by (intro exI [of _ k1]) (auto simp: run er)
  next
    case 2 then show ?thesis using assms(1) k1 k2
      by (intro exI [of _ "4 + k2"]) (auto simp: run er)
  next
    case 3 then show ?thesis using assms(1) k1 k2 k3
      by (intro exI [of _ "4 + length ?p + k3"]) (auto simp: run er)
  next
    case 4 then show ?thesis using assms(1) k1 k2 k3 k4
      by (intro exI [of _ "length (entry_record e)"]) (auto simp: run er split: if_splits)
  qed
qed

lemma IndexWriter_Append_valid:
  "IndexWriter_Append e f = (None, f') \<Longrightarrow> validateEntryFieldLens e = None"
  by (auto simp: IndexWriter_Append_def split: option.splits)

lemma append_all_records:
  assumes "append_all es f = (None, f')" and "at_end f"
  shows "fdata f' = fdata f @ concat (map entry_record es) \<and> at_end f'
    \<and> (\<forall>e\<in>set es. validateEntryFieldLens e = None)"
  using assms
proof (induction es arbitrary: f)
  case (Cons e es)
  then obtain f1 where a: "IndexWriter_Append e f = (None, f1)" "append_all es f1 = (None, f')"
    by (auto split: prod.splits option.splits)
  have "fdata f1 = fdata f @ entry_record e" "at_end f1"
    using IndexWriter_Append_prefix [OF a(1) Cons.prems(2)] by auto
  then show ?case using Cons.IH [OF a(2)] IndexWriter_Append_valid [OF a(1)] by auto
qed simp

lemma NewIndexWriter_header:
  assumes "NewIndexWriter sched = Inr f"
  shows "fdata f = idx_header_bytes \<and> at_end f"
proof -
  obtain f0 where c: "file_Create sched = (True, f0)" and w: "file_Write idx_header_bytes f0 = (True, f)"
    using assms by (auto simp: NewIndexWriter_def split: prod.splits if_splits)
  have "fdata f0 = []" "fpos f0 = 0"
    using c by (auto simp: file_Create_def split: prod.splits dest: next_outcome_data)
  then have "at_end f0" by (simp add: at_end_def)
  from file_Write_prefix [OF w this] show ?thesis using \<open>fdata f0 = []\<close> by auto
qed

lemma index_written_bytes:
  assumes "NewIndexWriter sched = Inr f" and "append_all es f = (None, f')"
  shows "fdata f' = idx_file_bytes es \<and> (\<forall>e\<in>set es. validateEntryFieldLens e = None)"
  using append_all_records [OF assms(2)] NewIndexWriter_header [OF assms(1)]
  by (simp add: idx_file_bytes_def)

subsection \<open>Reads under an arbitrary fault schedule\<close>

lemma readNextEntry_quiet:
  assumes "readNextEntry f = (Inr r, f')"
  shows "readNextEntry (quiet f) = (Inr r, quiet f')"
proof -
  obtain lenBuf err f1 where l: "io_ReadFull 4 f = ((lenBuf, err), f1)"
    by (cases "io_ReadFull 4 f") auto
  show ?thesis
  proof (cases err)
    case (Some e)
    then have "e = EOF" "r = None" "f' = f1" using assms l by (auto simp: readNextEntry_def split: if_splits)
    then show ?thesis using io_ReadFull_quiet [OF l] Some by (simp add: readNextEntry_def)
  next
    case None
    obtain payload f2 crcBuf where le: "\<not> unat (get_u32 lenBuf) > idxMaxEntryLen" and
      p: "io_ReadFull (unat (get_u32 lenBuf)) f1 = ((payload, None), f2)" and
      c: "io_ReadFull 4 f2 = ((crcBuf, None), f')" and crc: "crc32c payload = get_u32 crcBuf" and
      d: "\<exists>e. decodeIndexEntry payload = Inr e \<and> r = Some e"
      using assms l None
      by (auto simp: readNextEntry_def Let_def split: prod.splits option.splits if_splits sum.splits)
    show ?thesis
      using io_ReadFull_quiet [OF l] io_ReadFull_quiet [OF p] io_ReadFull_quiet [OF c] None le crc d
      by (auto simp: readNextEntry_def Let_def)
  qed
qed

lemma read_entries_loop_quiet:
  "read_entries_loop f = Inr es \<Longrightarrow> read_entries_loop (quiet f) = Inr es"
proof (induction f arbitrary: es rule: read_entries_loop.induct)
  case (1 f)
  obtain r f1 where r: "readNextEntry f = (Inr r, f1)"
    using "1.prems" by (auto simp: read_entries_loop.simps [of f] split: prod.splits sum.splits)
  note q = readNextEntry_quiet [OF r]
  show ?case
  proof (cases r)
    case None
    then show ?thesis using "1.prems" r q
      by (simp add: read_entries_loop.simps [of f] read_entries_loop.simps [of "quiet f"])
  next
    case (Some e)
    then obtain es' where "read_entries_loop f1 = Inr es'" "es = e # es'"
      using "1.prems" r by (auto simp: read_entries_loop.simps [of f] split: sum.splits)
    then show ?thesis using "1.IH" [OF r [symmetric]] Some q
      by (simp add: read_entries_loop.simps [of "quiet f"])
  qed
qed

lemma OpenIndexReader_quiet:
  assumes "OpenIndexReader content sched = Inr es"
  shows "OpenIndexReader content [] = Inr es"
proof -
  obtain f where o1: "file_Open content sched = (True, f)" and r: "readIndexEntries f = Inr es"
    using assms by (auto simp: OpenIndexReader_def split: prod.splits if_splits)
  have q: "file_Open content [] = (True, quiet f)"
    using o1 by (auto simp: file_Open_def quiet_def next_outcome_def split: prod.splits list.splits)
  obtain f1 where v: "validateIndexHeader f = (None, f1)" and l: "read_entries_loop f1 = Inr es"
    using r by (auto simp: readIndexEntries_def split: prod.splits option.splits)
  obtain hdr where h: "io_ReadFull idxHeaderLen f = ((hdr, None), f1)"
    using v by (auto simp: validateIndexHeader_def split: prod.splits option.splits if_splits)
  have "validateIndexHeader (quiet f) = (None, quiet f1)"
    using v h io_ReadFull_quiet [OF h]
    by (auto simp: validateIndexHeader_def split: if_splits)
  then show ?thesis
    using q read_entries_loop_quiet [OF l] by (simp add: OpenIndexReader_def readIndexEntries_def)
qed


lemma readNextEntry_quiet_eof:
  assumes "readNextEntry f = (Inl e, f')" and "idx_err_is_UnexpectedEOF e"
  shows "\<exists>e' f''. readNextEntry (quiet f) = (Inl e', f'')"
proof -
  obtain lenBuf err f1 where l: "io_ReadFull 4 f = ((lenBuf, err), f1)" by (cases "io_ReadFull 4 f") auto
  show ?thesis
  proof (cases err)
    case (Some le)
    then have "le \<noteq> EOF" "e = ErrIdxCorrupt (ReadEntryLen le)" using assms(1) l by (auto simp: readNextEntry_def split: if_splits)
    then show ?thesis using io_ReadFull_quiet [OF l] Some assms(2) by (simp add: readNextEntry_def)
  next
    case None
    note q = io_ReadFull_quiet [OF l, unfolded None, simplified]
    show ?thesis
    proof (cases "unat (get_u32 lenBuf) > idxMaxEntryLen")
      case True
      then show ?thesis using q by (auto simp: readNextEntry_def Let_def split: prod.splits)
    next
      case small: False
      obtain payload perr f2 where p: "io_ReadFull (unat (get_u32 lenBuf)) f1 = ((payload, perr), f2)" by (metis surj_pair)
      show ?thesis
      proof (cases perr)
        case (Some pe)
        then have "e = ErrIdxCorrupt (ReadEntryPayload pe)" using assms(1) l None small p by (auto simp: readNextEntry_def Let_def)
        then show ?thesis using io_ReadFull_quiet [OF p] Some assms(2) q small by (simp add: readNextEntry_def Let_def)
      next
        case pn: None
        note qp = io_ReadFull_quiet [OF p, unfolded pn, simplified]
        obtain crcBuf cerr f3 where c: "io_ReadFull 4 f2 = ((crcBuf, cerr), f3)" by (metis surj_pair)
        show ?thesis
        proof (cases cerr)
          case (Some ce)
          then have "e = ErrIdxCorrupt (ReadEntryCRC ce)" using assms(1) l None small p pn c by (auto simp: readNextEntry_def Let_def)
          then show ?thesis using io_ReadFull_quiet [OF c] Some assms(2) q qp small by (simp add: readNextEntry_def Let_def)
        next
          case cn: None
          then show ?thesis using assms l None small p pn c by (auto simp: readNextEntry_def Let_def split: if_splits sum.splits)
        qed
      qed
    qed
  qed
qed

lemma file_Seek_data: "file_Seek p f = (ok, f') \<Longrightarrow> fdata f' = fdata f"
  by (auto simp: file_Seek_def split: prod.splits if_splits dest: next_outcome_data)

lemma readNextEntry_data: "readNextEntry f = (r, f') \<Longrightarrow> fdata f' = fdata f"
  by (auto simp: readNextEntry_def classifyOversizedEntryLen_def file_SeekEnd_def Let_def
      split: prod.splits option.splits if_splits sum.splits dest!: io_ReadFull_data file_Seek_data)

lemma truncate_tail_other: "\<not> idx_err_is_UnexpectedEOF e \<Longrightarrow> fdata (snd (truncateIncompleteIndexTail f n e)) = fdata f"
  by (simp add: truncateIncompleteIndexTail_def)

lemma repairIndexTail_whole:
  assumes "rest f = concat (map entry_record es)" and "\<forall>e \<in> set es. entry_storable e"
  shows "fdata (snd (repairIndexTail f)) = fdata f"
  using assms
proof (induction es arbitrary: f)
  case Nil
  obtain ok f1 where s: "file_Seek (fpos f) f = (ok, f1)" by (metis surj_pair)
  have r: "rest (quiet f1) = []" using file_Seek_rest [OF s] Nil by (simp add: rest_def)
  have q: "readNextEntry (quiet f1) = (Inr None, quiet f1)"
    using io_ReadFull_eof [of "quiet f1" 4] r by (simp add: readNextEntry_def)
  obtain x f2 where x: "readNextEntry f1 = (x, f2)" by (metis surj_pair)
  have d: "fdata f2 = fdata f" using readNextEntry_data [OF x] file_Seek_data [OF s] by simp
  show ?case
  proof (cases x)
    case (Inl e)
    have "\<not> idx_err_is_UnexpectedEOF e" using readNextEntry_quiet_eof [of f1 e f2] x Inl q by auto
    then show ?thesis using s x Inl d file_Seek_data [OF s] truncate_tail_other
      by (auto simp: repairIndexTail.simps [of f] Let_def)
  next
    case (Inr o1)
    then have "o1 = None" using readNextEntry_quiet [of f1 o1 f2] x q by auto
    then show ?thesis using s x Inr d file_Seek_data [OF s] by (auto simp: repairIndexTail.simps [of f] Let_def)
  qed
next
  case (Cons e es)
  obtain ok f1 where s: "file_Seek (fpos f) f = (ok, f1)" by (metis surj_pair)
  have r: "rest (quiet f1) = entry_record e @ concat (map entry_record es)" using file_Seek_rest [OF s] Cons.prems(1) by (simp add: rest_def)
  have st: "entry_storable e" using Cons.prems(2) by simp
  note q = readNextEntry_whole [OF _ r st, simplified]
  obtain x f2 where x: "readNextEntry f1 = (x, f2)" by (metis surj_pair)
  have d: "fdata f2 = fdata f" using readNextEntry_data [OF x] file_Seek_data [OF s] by simp
  show ?case
  proof (cases x)
    case (Inl er)
    have "\<not> idx_err_is_UnexpectedEOF er" using readNextEntry_quiet_eof [of f1 er f2] x Inl q by auto
    then show ?thesis using s x Inl d file_Seek_data [OF s] truncate_tail_other
      by (auto simp: repairIndexTail.simps [of f] Let_def)
  next
    case (Inr o1)
    then have o1: "o1 = Some (stored_entry e)" and f2: "quiet f2 = (quiet f1)\<lparr>fpos := fpos f1 + length (entry_record e)\<rparr>"
      using readNextEntry_quiet [of f1 o1 f2] x q by auto
    have "rest f2 = rest (quiet f2)" by (simp add: rest_def)
    also have "\<dots> = concat (map entry_record es)" unfolding f2 using rest_advance [OF r] by simp
    finally have "fdata (snd (repairIndexTail f2)) = fdata f2" using Cons.IH Cons.prems(2) by simp
    then show ?thesis using s x Inr o1 d file_Seek_data [OF s] by (auto simp: repairIndexTail.simps [of f] Let_def)
  qed
qed

text \<open>Repairing an index file whose records are whole changes nothing, whatever reads fail.\<close>

lemma RepairIndexTail_whole:
  assumes "\<forall>e \<in> set es. entry_storable e"
  shows "snd (RepairIndexTail (idx_file_bytes es) sched) = idx_file_bytes es"
proof -
  obtain ok f where o1: "file_Open (idx_file_bytes es) sched = (ok, f)" by (metis surj_pair)
  have fd: "fdata f = idx_file_bytes es" "fpos f = 0" using o1 by (auto simp: file_Open_def split: prod.splits dest: next_outcome_data)
  obtain err f1 where v: "validateIndexHeader f = (err, f1)" by (metis surj_pair)
  obtain hdr he where h: "io_ReadFull idxHeaderLen f = ((hdr, he), f1)"
    using v by (cases "io_ReadFull idxHeaderLen f") (auto simp: validateIndexHeader_def split: option.splits if_splits)
  have d: "fdata f1 = idx_file_bytes es" using io_ReadFull_data [OF h] fd by simp
  show ?thesis
  proof (cases err)
    case (Some e)
    then show ?thesis using o1 v d by (simp add: RepairIndexTail_def)
  next
    case None
    then have "he = None" using v h by (auto simp: validateIndexHeader_def split: option.splits)
    then have "length hdr = 12" "rest f = hdr @ rest f1" using io_ReadFull_None_length io_ReadFull_rest h by (auto simp: idxHeaderLen_def)
    moreover have "rest f = idx_header_bytes @ concat (map entry_record es)" using fd by (simp add: rest_def idx_file_bytes_def)
    ultimately have "rest f1 = concat (map entry_record es)" by simp
    from repairIndexTail_whole [OF this assms] show ?thesis using o1 v d None by (cases "repairIndexTail f1") (simp add: RepairIndexTail_def)
  qed
qed

subsection \<open>Damaged records\<close>

lemma readNextEntry_damaged:
  assumes "fsched f = []" and "rest f = (entry_record e)[i := b] @ tail" and "entry_storable e"
    and "4 \<le> i" and "i < length (entry_record e)" and "b \<noteq> entry_record e ! i"
  shows "\<exists>f'. readNextEntry f = (Inl (ErrIdxCorrupt EntryCRCMismatch), f')"
proof -
  let ?p = "encodeIndexEntry e"
  let ?n = "length ?p" and ?l = "put_u32 (of_nat (length ?p))" and ?c = "put_u32 (crc32c ?p)"
  have er: "entry_record e = ?l @ ?p @ ?c" by (simp add: entry_record_def Let_def)
  obtain p c where pc: "(entry_record e)[i := b] = ?l @ p @ c" "length p = ?n" "length c = 4"
    and neq: "crc32c p \<noteq> get_u32 c"
  proof (cases "i < 4 + ?n")
    case True
    then have "i - 4 < ?n" using assms(4) by linarith
    then have "(entry_record e)[i := b] = ?l @ ?p[i - 4 := b] @ ?c"
      using assms(4) by (simp add: er list_update_append)
    moreover have "crc32c (?p[i - 4 := b]) \<noteq> crc32c ?p"
      using \<open>i - 4 < ?n\<close> assms(4,6) by (intro crc32c_update_neq) (auto simp: er nth_append)
    ultimately show ?thesis using that [of "?p[i - 4 := b]" ?c] by simp
  next
    case False
    then have g: "\<not> i - 4 < ?n" using assms(4) by linarith
    then have "(entry_record e)[i := b] = ?l @ ?p @ ?c[i - 4 - ?n := b]"
      using assms(4) by (simp add: er list_update_append)
    moreover have "?c[i - 4 - ?n := b] \<noteq> ?c"
      using g False assms(4-6) by (intro list_update_neq) (auto simp: er nth_append)
    then have "get_u32 (?c[i - 4 - ?n := b]) \<noteq> crc32c ?p"
      using le32.put_get [of "?c[i - 4 - ?n := b]"] by auto
    ultimately show ?thesis using that [of ?p "?c[i - 4 - ?n := b]"] by (metis length_list_update le32.length_put)
  qed
  have r: "rest f = ?l @ (p @ c @ tail)" using assms(2) pc(1) by simp
  let ?f1 = "f\<lparr>fpos := fpos f + 4\<rparr>" and ?f2 = "f\<lparr>fpos := fpos f + 4 + ?n\<rparr>"
  have l: "io_ReadFull 4 f = ((?l, None), ?f1)" using io_ReadFull_full [OF assms(1) r, of 4] by simp
  have r1: "rest ?f1 = p @ (c @ tail)" using rest_advance [OF r] by simp
  have p: "io_ReadFull ?n ?f1 = ((p, None), ?f2)" using io_ReadFull_full [OF _ r1 pc(2)] assms(1) by simp
  have r2: "rest ?f2 = c @ tail" using rest_advance [OF r1] pc(2) by simp
  have c: "io_ReadFull 4 ?f2 = ((c, None), f\<lparr>fpos := fpos f + 4 + ?n + 4\<rparr>)"
    using io_ReadFull_full [OF _ r2 pc(3)] assms(1) by simp
  have "?n \<le> idxMaxEntryLen" using assms(3) by (simp add: entry_storable_def)
  then show ?thesis
    using assms(3) neq by (simp add: readNextEntry_def l p c unat_entry_len Let_def)
qed

lemma read_entries_loop_error:
  assumes "fsched f = []" and "rest f = concat (map entry_record es) @ bad" and "\<forall>e\<in>set es. entry_storable e"
    and "\<And>f. fsched f = [] \<Longrightarrow> rest f = bad \<Longrightarrow> \<exists>f'. readNextEntry f = (Inl err, f')"
  shows "read_entries_loop f = Inl err"
  using assms(1-3)
proof (induction es arbitrary: f)
  case Nil
  then show ?case using assms(4) [of f] by (auto simp: read_entries_loop.simps [of f])
next
  case (Cons e es)
  let ?f1 = "f\<lparr>fpos := fpos f + length (entry_record e)\<rparr>"
  have r: "rest f = entry_record e @ (concat (map entry_record es) @ bad)" using Cons.prems(2) by simp
  have "readNextEntry f = (Inr (Some (stored_entry e)), ?f1)"
    using readNextEntry_whole [OF Cons.prems(1) r] Cons.prems(3) by simp
  moreover have "read_entries_loop ?f1 = Inl err"
    by (rule Cons.IH) (use Cons.prems rest_advance [OF r] in simp_all)
  ultimately show ?case by (simp add: read_entries_loop.simps [of f])
qed

lemma OpenIndexReader_error:
  assumes "\<forall>e\<in>set es. entry_storable e"
    and "\<And>f. fsched f = [] \<Longrightarrow> rest f = bad \<Longrightarrow> \<exists>f'. readNextEntry f = (Inl err, f')"
  shows "OpenIndexReader (idx_file_bytes es @ bad) [] = Inl err"
proof -
  let ?f = "\<lparr>fdata = idx_file_bytes es @ bad, fpos = 0, fsched = []\<rparr>"
  have r: "rest ?f = idx_header_bytes @ (concat (map entry_record es) @ bad)"
    by (simp add: rest_def idx_file_bytes_def)
  have "rest (?f\<lparr>fpos := 12\<rparr>) = concat (map entry_record es) @ bad"
    using rest_advance [OF r] by simp
  then show ?thesis
    using validateIndexHeader_ok [OF _ r] read_entries_loop_error [of "?f\<lparr>fpos := 12\<rparr>" es bad err] assms
    by (simp add: OpenIndexReader_def file_Open_def readIndexEntries_def)
qed

lemma readNextEntry_oversized:
  assumes "fsched f = []" and "rest f = entry_record e @ tail"
    and "idxMaxEntryLen < length (encodeIndexEntry e)" and "length (encodeIndexEntry e) < 2 ^ 32"
  shows "\<exists>f'. readNextEntry f = (Inl (ErrIdxCorrupt EntryLenExceedsMax), f')"
proof -
  let ?p = "encodeIndexEntry e"
  let ?f1 = "f\<lparr>fpos := fpos f + 4\<rparr>"
  have r: "rest f = put_u32 (of_nat (length ?p)) @ (?p @ put_u32 (crc32c ?p) @ tail)"
    using assms(2) by (simp add: entry_record_def Let_def)
  have l: "io_ReadFull 4 f = ((put_u32 (of_nat (length ?p)), None), ?f1)"
    using io_ReadFull_full [OF assms(1) r, of 4] by simp
  have "length (rest ?f1) \<ge> length ?p + 4" using rest_advance [OF r] by simp
  then have "\<not> length ?p + 4 > length (fdata f) - (fpos f + 4)" by (simp add: rest_def)
  moreover have "unat (of_nat (length ?p) :: u32) = length ?p" using assms(4) by (simp add: unat_of_nat)
  ultimately show ?thesis
    using assms(1,3) by (simp add: readNextEntry_def l Let_def classifyOversizedEntryLen_def file_SeekEnd_def)
qed

subsection \<open>Envelope replacement\<close>

lemma time_UnixMicro_stable [simp]:
  "time_to_UnixMicro (time_UnixMicro (time_to_UnixMicro t)) = time_to_UnixMicro t"
  using wrap64_range [of "t div 1000"] by (simp add: time_to_UnixMicro_def time_UnixMicro_def)

lemma encodeIndexEntry_stored [simp]: "encodeIndexEntry (stored_entry e) = encodeIndexEntry e"
  by (simp add: encodeIndexEntry_def stored_entry_def encode_fixed_def)

lemma entry_record_stored [simp]: "entry_record (stored_entry e) = entry_record e"
  by (simp add: entry_record_def)

lemma stored_entry_envelope:
  "(stored_entry e)\<lparr>EncryptionEnvelope := x\<rparr> = stored_entry (e\<lparr>EncryptionEnvelope := x\<rparr>)"
  by (simp add: stored_entry_def)

lemma find_target_stored [simp]: "find_target (map stored_entry es) tx doc = find_target es tx doc"
  by (induction es) (simp_all add: stored_entry_def)

lemma find_target_Some:
  "find_target es tx doc = Some t \<Longrightarrow>
   t < length es \<and> TransactionID (es ! t) = tx \<and> DocName (es ! t) = doc
   \<and> (\<forall>i<t. \<not> (TransactionID (es ! i) = tx \<and> DocName (es ! i) = doc))"
  by (induction es arbitrary: t) (auto split: if_splits simp: nth_Cons split: nat.splits)

lemma rewriteIndexEntries_atomic:
  assumes "rewriteIndexEntries env content es = (r, content')"
  shows "content' = content \<and> r \<noteq> None \<or>
    content' = idx_file_bytes es \<and> (\<forall>e\<in>set es. validateEntryFieldLens e = None)"
proof (cases "content' = content \<and> r \<noteq> None")
  case False
  obtain f f1 f2 where w: "NewIndexWriter (env_write env) = Inr f" "append_all es f = (None, f1)"
    and c: "IndexWriter_Close f1 = (None, f2)" and "content' = fdata f2"
    using assms False
    by (auto simp: rewriteIndexEntries_def split: if_splits sum.splits prod.splits option.splits)
  moreover have "fdata f2 = fdata f1"
    using c by (auto simp: IndexWriter_Close_def split: prod.splits if_splits dest!: file_Sync_keeps)
  ultimately show ?thesis using index_written_bytes [OF w] by simp
qed simp

lemma ReplaceDocumentEnvelope_cases:
  assumes "\<forall>e\<in>set es. entry_storable e"
    and "ReplaceDocumentEnvelope env (idx_file_bytes es) tx doc envl = (r, content')"
  shows "content' = idx_file_bytes es \<and> (\<forall>x. r \<noteq> Inr (x, True)) \<or>
    (\<exists>t. find_target es tx doc = Some t \<and>
       content' = idx_file_bytes (es[t := (es ! t)\<lparr>EncryptionEnvelope := envl\<rparr>]) \<and>
       validateEntryFieldLens ((es ! t)\<lparr>EncryptionEnvelope := envl\<rparr>) = None \<and>
       (\<forall>x. r \<noteq> Inr (x, False)))"
proof (cases "content' = idx_file_bytes es \<and> (\<forall>x. r \<noteq> Inr (x, True))")
  case False
  let ?ss = "map stored_entry es"
  obtain entries where o1: "OpenIndexReader (idx_file_bytes es) (env_read env) = Inr entries"
    using assms(2) False by (auto simp: ReplaceDocumentEnvelope_def split: sum.splits)
  then have e: "entries = ?ss"
    using OpenIndexReader_quiet OpenIndexReader_file [OF assms(1)] by fastforce
  then obtain t where t: "find_target es tx doc = Some t"
    using assms(2) False o1
    by (auto simp: ReplaceDocumentEnvelope_def split: if_splits option.splits)
  then have lt: "t < length es" by (simp add: find_target_Some)
  let ?es' = "es[t := (es ! t)\<lparr>EncryptionEnvelope := envl\<rparr>]"
  have ss: "?ss[t := (?ss ! t)\<lparr>EncryptionEnvelope := envl\<rparr>] = map stored_entry ?es'"
    using lt by (simp add: stored_entry_envelope map_update)
  obtain r' where rw: "rewriteIndexEntries env (idx_file_bytes es) (map stored_entry ?es') = (r', content')"
    and r: "\<forall>x. r \<noteq> Inr (x, False)" "r' \<noteq> None \<longrightarrow> (\<forall>x. r \<noteq> Inr (x, True))"
    using assms(2) False o1 e t lt ss
    by (auto simp: ReplaceDocumentEnvelope_def Let_def split: if_splits prod.splits option.splits)
  have "idx_file_bytes (map stored_entry ?es') = idx_file_bytes ?es'"
    by (simp add: idx_file_bytes_def comp_def)
  moreover have "stored_entry (?es' ! t) \<in> set (map stored_entry ?es')" using lt by (metis length_list_update nth_map nth_mem length_map)
  moreover have "validateEntryFieldLens (stored_entry x) = validateEntryFieldLens x" for x
    by (simp add: stored_entry_def validateEntryFieldLens_def)
  ultimately show ?thesis
    using rewriteIndexEntries_atomic [OF rw] r False t lt by (metis nth_list_update_eq)
qed simp


section \<open>Properties\<close>

text \<open>
  C16: creating an index file and appending entries, each accepted by the reader's limits, on a device
  with any fault schedule, and then reopening it, returns exactly the appended entries in order
  (with the times kept to the microsecond) whenever the writes reported success.
\<close>

theorem index_write_read:
  assumes "NewIndexWriter sched = Inr f" and "append_all es f = (None, f')"
    and "\<forall>e\<in>set es. entry_typed e \<and> length (encodeIndexEntry e) \<le> idxMaxEntryLen"
  shows "OpenIndexReader (fdata f') [] = Inr (map stored_entry es)"
proof -
  have "fdata f' = idx_file_bytes es" "\<forall>e\<in>set es. entry_storable e"
    using index_written_bytes [OF assms(1,2)] assms(3) by (auto simp: entry_storable_def)
  then show ?thesis by (simp add: OpenIndexReader_file)
qed

definition sample_entry :: IndexEntry where
  "sample_entry = \<lparr>TransactionID = lit ''tx'', DocName = lit ''doc'', ContentType = lit ''text'',
     CreatedAt = 7000, FirstFrameOff = 64, FrameCount = 1, TotalBytes = 3,
     SHA256 = replicate 32 1, EncryptionEnvelope = []\<rparr>"

lemma sample_entry_storable: "entry_storable sample_entry"
  by (simp add: entry_storable_def sample_entry_def entry_typed_def int64_range_def
      validateEntryFieldLens_def lit_def maxUint16_def encodeIndexEntry_def idxMaxEntryLen_def
      idxEntryVersion_def idxEntryVersionV2_def)

lemma sample_index_run:
  "NewIndexWriter [] = Inr \<lparr>fdata = idx_header_bytes, fpos = 12, fsched = []\<rparr>"
  "append_all [sample_entry] \<lparr>fdata = idx_header_bytes, fpos = 12, fsched = []\<rparr> =
     (None, \<lparr>fdata = idx_file_bytes [sample_entry], fpos = 12 + length (entry_record sample_entry), fsched = []\<rparr>)"
  using sample_entry_storable
  by (simp_all add: NewIndexWriter_def file_Create_def IndexWriter_Append_def entry_storable_def
      entry_record_def idx_file_bytes_def Let_def)

theorem index_write_read_witness:
  "OpenIndexReader (idx_file_bytes [sample_entry]) [] = Inr [stored_entry sample_entry]"
  using index_write_read [OF sample_index_run] sample_entry_storable by (simp add: entry_storable_def)

text \<open>
  C18: an append that fails on a device with any fault schedule leaves the old file followed by a prefix
  of the new record, and \<open>RepairIndexTail\<close> then restores exactly the old file, unless the record
  was cut right after its length field or right before its checksum: those two cuts make
  \<open>io.ReadFull\<close> report \<open>EOF\<close>, which the repair does not take for a torn tail, so it refuses
  and leaves the file as it is. A record that was written completely is kept.
\<close>

theorem index_append_crash_repair:
  assumes "fdata f = idx_file_bytes es" and "at_end f" and "\<forall>x\<in>set es. entry_storable x"
    and "entry_storable e" and "IndexWriter_Append e f = (Some err, f')"
  shows "\<exists>c\<le>length (entry_record e). fdata f' = idx_file_bytes es @ take c (entry_record e) \<and>
    RepairIndexTail (fdata f') [] =
      (if c = 4 then (Some (ErrIdxCorrupt (ReadEntryPayload EOF)), fdata f')
       else if c = 4 + length (encodeIndexEntry e) then (Some (ErrIdxCorrupt (ReadEntryCRC EOF)), fdata f')
       else if c = length (entry_record e) then (None, idx_file_bytes (es @ [e]))
       else (None, idx_file_bytes es))"
proof -
  obtain c where c: "c \<le> length (entry_record e)" "fdata f' = idx_file_bytes es @ take c (entry_record e)"
    using IndexWriter_Append_prefix [OF assms(5,2)] assms(1) by auto
  show ?thesis
  proof (cases "c = length (entry_record e)")
    case True
    have "RepairIndexTail (idx_file_bytes (es @ [e]) @ take 0 (entry_record e)) [] = (None, idx_file_bytes (es @ [e]))"
      using RepairIndexTail_torn [of "es @ [e]" e 0] assms(3,4) by (auto simp: length_entry_record)
    then show ?thesis using c True by (intro exI [of _ c]) (simp add: idx_file_bytes_def length_entry_record)
  next
    case False
    then show ?thesis
      using c RepairIndexTail_torn [OF assms(3,4), of c] by (intro exI [of _ c]) simp
  qed
qed

theorem index_append_crash_repair_witness:
  "RepairIndexTail (idx_header_bytes @ take 2 (entry_record sample_entry)) [] = (None, idx_header_bytes)"
proof -
  let ?f = "\<lparr>fdata = idx_file_bytes [], fpos = 12, fsched = [Fault 2]\<rparr>"
  have "IndexWriter_Append sample_entry ?f =
      (Some ErrIdxIO, \<lparr>fdata = idx_header_bytes @ take 2 (entry_record sample_entry), fpos = 14, fsched = []\<rparr>)"
    using sample_entry_storable
    by (simp add: IndexWriter_Append_def entry_storable_def Let_def file_Write_def next_outcome_def
        idx_file_bytes_def entry_record_def)
  from index_append_crash_repair [OF _ _ _ sample_entry_storable this, of "[]"] obtain c where
    c: "c \<le> length (entry_record sample_entry)"
      "take 2 (entry_record sample_entry) = take c (entry_record sample_entry)"
      "RepairIndexTail (idx_header_bytes @ take 2 (entry_record sample_entry)) [] =
        (if c = 4 then (Some (ErrIdxCorrupt (ReadEntryPayload EOF)), idx_header_bytes @ take 2 (entry_record sample_entry))
         else if c = 4 + length (encodeIndexEntry sample_entry)
         then (Some (ErrIdxCorrupt (ReadEntryCRC EOF)), idx_header_bytes @ take 2 (entry_record sample_entry))
         else if c = length (entry_record sample_entry) then (None, idx_file_bytes ([] @ [sample_entry]))
         else (None, idx_file_bytes []))"
    by (auto simp: at_end_def idx_file_bytes_def)
  have "c = 2" using c(1) arg_cong [OF c(2), of length] by (simp add: length_entry_record)
  then show ?thesis using c(3) by (simp add: idx_file_bytes_def length_entry_record)
qed

text \<open>
  A single changed byte in the payload or the checksum of any record of an index file makes
  \<open>OpenIndexReader\<close> report a checksum mismatch, whatever follows the record.
\<close>

theorem index_damage_detected:
  assumes "\<forall>x\<in>set es. entry_storable x" and "entry_storable e"
    and "4 \<le> i" and "i < length (entry_record e)" and "b \<noteq> entry_record e ! i"
  shows "OpenIndexReader (idx_file_bytes es @ (entry_record e)[i := b] @ tail) [] =
    Inl (ErrIdxCorrupt EntryCRCMismatch)"
  by (rule OpenIndexReader_error [OF assms(1)]) (use readNextEntry_damaged assms(2-5) in blast)

theorem index_damage_detected_witness:
  "OpenIndexReader (idx_file_bytes [] @ (entry_record sample_entry)[5 := 1] @ []) [] =
    Inl (ErrIdxCorrupt EntryCRCMismatch)"
proof (rule index_damage_detected)
  show "1 \<noteq> entry_record sample_entry ! 5"
    by (simp add: entry_record_def encodeIndexEntry_def Let_def nth_append)
qed (use sample_entry_storable in \<open>simp_all add: length_entry_record\<close>)

text \<open>
  \<open>Append\<close> accepts entries the reader refuses. An entry whose fields pass the length check but
  whose encoding is longer than \<open>idxMaxEntryLen\<close> is written without an error, and from then on
  the whole index file is reported as corrupt.
\<close>

theorem index_append_oversized:
  assumes "\<forall>x\<in>set es. entry_storable x" and "validateEntryFieldLens e = None"
    and "idxMaxEntryLen < length (encodeIndexEntry e)" and "length (encodeIndexEntry e) < 2 ^ 32"
    and "fdata f = idx_file_bytes es" and "at_end f" and "fsched f = []"
  shows "\<exists>f'. IndexWriter_Append e f = (None, f') \<and>
    OpenIndexReader (fdata f') [] = Inl (ErrIdxCorrupt EntryLenExceedsMax)"
proof -
  obtain f' where a: "IndexWriter_Append e f = (None, f')"
    using assms(2,7) by (auto simp: IndexWriter_Append_def Let_def)
  have "fdata f' = idx_file_bytes es @ entry_record e @ []"
    using IndexWriter_Append_prefix [OF a assms(6)] assms(5) by auto
  then have "OpenIndexReader (fdata f') [] = Inl (ErrIdxCorrupt EntryLenExceedsMax)"
    using OpenIndexReader_error [OF assms(1), of "entry_record e @ []"]
      readNextEntry_oversized [OF _ _ assms(3,4), of _ "[]"] by metis
  then show ?thesis using a by blast
qed

definition oversized_entry :: IndexEntry where
  "oversized_entry = sample_entry\<lparr>TransactionID := replicate 65535 65, DocName := replicate 65535 66,
     ContentType := replicate 65535 67\<rparr>"

theorem index_append_oversized_witness:
  "\<exists>f'. IndexWriter_Append oversized_entry \<lparr>fdata = idx_file_bytes [], fpos = 12, fsched = []\<rparr> = (None, f') \<and>
    OpenIndexReader (fdata f') [] = Inl (ErrIdxCorrupt EntryLenExceedsMax)"
proof (rule index_append_oversized [where es = "[]"])
  have "length (encodeIndexEntry oversized_entry) = 196673"
    by (simp add: oversized_entry_def sample_entry_def encodeIndexEntry_def
        idxEntryVersion_def idxEntryVersionV2_def del: replicate.simps replicate_Suc)
  then show "idxMaxEntryLen < length (encodeIndexEntry oversized_entry)"
    "length (encodeIndexEntry oversized_entry) < 2 ^ 32" by (simp_all add: idxMaxEntryLen_def)
qed (simp_all add: at_end_def idx_file_bytes_def oversized_entry_def sample_entry_def
    validateEntryFieldLens_def maxUint16_def)



end
