(* ===== verification/Block_Writer.thy ===== *)
theory Block_Writer
  imports Block_Frame Block_Index
begin

text \<open>
  \<open>internal/block/header.go\<close> and \<open>internal/block/writer.go\<close>: the Block header and its
  verification, and the writer that appends Documents to a Block as Frames, reopens a Block by
  scanning its Frames, and truncates after a failed append.
\<close>

section \<open>The Block header\<close>

definition HeaderSize :: nat where "HeaderSize = 40"

definition blockMagic :: bytes where "blockMagic = lit ''SCRP''"

datatype hdr_err =
    HdrOpen
  | HdrRead read_err
  | HdrMagic
  | HdrVersion
  | HdrLen
  | HdrShard
  | HdrBlock
  | HdrCRC

text \<open>\<open>errors.Is(err, ErrBlockHeaderCorrupt)\<close>: every error but a failed open.\<close>

definition hdr_err_is_corrupt :: "hdr_err \<Rightarrow> bool" where
  "hdr_err_is_corrupt e \<longleftrightarrow> e \<noteq> HdrOpen"

definition block_header_prefix :: "u64 \<Rightarrow> u64 \<Rightarrow> u64 \<Rightarrow> bytes" where
  "block_header_prefix shardID blockID created =
     blockMagic @ put_u16 1 @ put_u16 (of_nat HeaderSize) @ put_u64 shardID @ put_u64 blockID
     @ put_u64 created @ [0, 0, 0, 0]"

definition block_header_bytes :: "u64 \<Rightarrow> u64 \<Rightarrow> u64 \<Rightarrow> bytes" where
  "block_header_bytes shardID blockID created =
     (let p = block_header_prefix shardID blockID created in p @ put_u32 (crc32c p))"

definition verify_header_fields :: "bytes \<Rightarrow> u64 \<Rightarrow> u64 \<Rightarrow> hdr_err option" where
  "verify_header_fields hdr shardID blockID =
     (if slice 0 4 hdr \<noteq> blockMagic then Some HdrMagic
      else if get_u16 (slice 4 6 hdr) \<noteq> 1 then Some HdrVersion
      else if get_u16 (slice 6 8 hdr) \<noteq> of_nat HeaderSize then Some HdrLen
      else if get_u64 (slice 8 16 hdr) \<noteq> shardID then Some HdrShard
      else if get_u64 (slice 16 24 hdr) \<noteq> blockID then Some HdrBlock
      else if get_u32 (slice 36 40 hdr) \<noteq> crc32c (slice 0 36 hdr) then Some HdrCRC
      else None)"

definition VerifyHeader :: "bytes \<Rightarrow> io_outcome list \<Rightarrow> u64 \<Rightarrow> u64 \<Rightarrow> hdr_err option" where
  "VerifyHeader content sched shardID blockID =
     (case file_Open content sched of (ok, f) \<Rightarrow>
        if \<not> ok then Some HdrOpen
        else case io_ReadFull HeaderSize f of ((hdr, err), _) \<Rightarrow>
          (case err of Some e \<Rightarrow> Some (HdrRead e) | None \<Rightarrow> verify_header_fields hdr shardID blockID))"

section \<open>The writer\<close>

record AppendResult =
  resSHA256 :: bytes
  resSize :: int
  resFrameCount :: u32
  resFirstFrameOffset :: nat

record DocumentFrames =
  dfPayloads :: "bytes list"
  dfSHA256 :: bytes
  dfSize :: int

record Writer =
  wfile :: osfile
  wshardID :: u64
  wblockID :: u64
  woffset :: nat
  wdocSeq :: u32
  wdocCount :: u32
  wclosed :: bool

datatype src_err = SrcEOF | SrcErr

datatype write_err =
    ErrWriterCreate
  | ErrWriterHeader
  | ErrVerifyHeader hdr_err
  | ErrWriterOpen
  | ErrScanSeek
  | ErrScanIncomplete
  | ErrScanFrame frame_err
  | ErrScanDocSeq
  | ErrScanFrameSeq
  | ErrScanFlags
  | ErrWriterSeek
  | ErrWriterClosed
  | ErrReadBody read_err
  | ErrWriteFrame frame_err
  | ErrEmptyBody
  | ErrFsyncDocument
  | ErrNegativeSize
  | ErrNoFrames
  | ErrFrameSource src_err
  | ErrTruncateBeforeHeader
  | ErrTruncateBeyondEnd
  | ErrTruncate
  | ErrFsyncTruncate
  | ErrFinalFsync
  | ErrCloseFile

definition NewWriter :: "io_outcome list \<Rightarrow> u64 \<Rightarrow> u64 \<Rightarrow> u64 \<Rightarrow> write_err + Writer" where
  "NewWriter sched now shardID blockID =
     (case file_Create sched of (ok, f) \<Rightarrow>
        if \<not> ok then Inl ErrWriterCreate
        else case file_Write (block_header_bytes shardID blockID now) f of (ok1, f1) \<Rightarrow>
          if \<not> ok1 then Inl ErrWriterHeader
          else Inr \<lparr>wfile = f1, wshardID = shardID, wblockID = blockID, woffset = HeaderSize,
                    wdocSeq = 0, wdocCount = 0, wclosed = False\<rparr>)"

definition isLastFrame :: "u8 \<Rightarrow> bool" where
  "isLastFrame flags \<longleftrightarrow> flags = FlagLastFrame \<or> flags = FlagSingleFrame"

definition frameFlags :: "u32 \<Rightarrow> bool \<Rightarrow> u8" where
  "frameFlags seq isLast =
     (if seq = 0 \<and> isLast then FlagSingleFrame
      else if seq = 0 then FlagFirstFrame
      else if isLast then FlagLastFrame
      else 0)"

definition validateWriterScanFrameFlags :: "u8 \<Rightarrow> u32 \<Rightarrow> write_err option" where
  "validateWriterScanFrameFlags flags frameSeq =
     (if flags \<noteq> frameFlags frameSeq (isLastFrame flags) then Some ErrScanFlags else None)"

definition validateWriterScanFrame :: "FrameHeader \<Rightarrow> u32 \<Rightarrow> u32 \<Rightarrow> write_err option" where
  "validateWriterScanFrame hdr docSeq frameSeq =
     (if DocSeq hdr \<noteq> docSeq then Some ErrScanDocSeq
      else if FrameSeq hdr \<noteq> frameSeq then Some ErrScanFrameSeq
      else validateWriterScanFrameFlags (Flags hdr) frameSeq)"

text \<open>
  The loop of \<open>scanWriterState\<close>; every accepted Frame consumes at least its header, so the
  loop ends at the end of the file at the latest.
\<close>

function scan_loop ::
  "osfile \<Rightarrow> nat \<Rightarrow> u32 \<Rightarrow> u32 \<Rightarrow> u32 \<Rightarrow> (write_err + nat \<times> u32 \<times> u32) \<times> osfile" where
  "scan_loop f offset docSeq frameSeq docCount =
     (case ReadFrame f of
        (Inl e, f1) \<Rightarrow>
          if frame_err_is_EOF e
          then (if frameSeq \<noteq> 0 then Inl ErrScanIncomplete else Inr (offset, docSeq, docCount), f1)
          else (Inl (ErrScanFrame e), f1)
      | (Inr (hdr, payload), f1) \<Rightarrow>
          (case validateWriterScanFrame hdr docSeq frameSeq of
             Some e \<Rightarrow> (Inl e, f1)
           | None \<Rightarrow>
               if isLastFrame (Flags hdr)
               then scan_loop f1 (offset + FrameHeaderSize + length payload) (docSeq + 1) 0 (docCount + 1)
               else scan_loop f1 (offset + FrameHeaderSize + length payload) docSeq (frameSeq + 1) docCount))"
  by pat_completeness auto
termination
  by (relation "measure (\<lambda>(f, _). length (rest f))") (auto dest!: ReadFrame_progress [OF sym])

declare scan_loop.simps [simp del]

definition scanWriterState :: "osfile \<Rightarrow> (write_err + nat \<times> u32 \<times> u32) \<times> osfile" where
  "scanWriterState f =
     (case file_Seek HeaderSize f of (ok, f1) \<Rightarrow>
        if \<not> ok then (Inl ErrScanSeek, f1) else scan_loop f1 HeaderSize 0 0 0)"

text \<open>\<open>OpenWriter\<close> opens the path twice: once to verify the header and once to scan and append.\<close>

definition OpenWriter ::
  "bytes \<Rightarrow> io_outcome list \<Rightarrow> io_outcome list \<Rightarrow> u64 \<Rightarrow> u64 \<Rightarrow> write_err + Writer" where
  "OpenWriter content sched1 sched2 shardID blockID =
     (case VerifyHeader content sched1 shardID blockID of Some e \<Rightarrow> Inl (ErrVerifyHeader e)
      | None \<Rightarrow>
        (case file_Open content sched2 of (ok, f) \<Rightarrow>
           if \<not> ok then Inl ErrWriterOpen
           else case scanWriterState f of
             (Inl e, _) \<Rightarrow> Inl e
           | (Inr (offset, docSeq, docCount), f1) \<Rightarrow>
               (case file_Seek offset f1 of (ok2, f2) \<Rightarrow>
                  if \<not> ok2 then Inl ErrWriterSeek
                  else Inr \<lparr>wfile = f2, wshardID = shardID, wblockID = blockID, woffset = offset,
                            wdocSeq = docSeq, wdocCount = docCount, wclosed = False\<rparr>)))"

section \<open>Appending Documents\<close>

definition isBodyEOF :: "read_err option \<Rightarrow> bool" where
  "isBodyEOF err \<longleftrightarrow> err = Some EOF \<or> err = Some UnexpectedEOF"

text \<open>One Frame of the Document being appended, and the offset moved past it.\<close>

definition write_doc_frame :: "u32 \<Rightarrow> bool \<Rightarrow> bytes \<Rightarrow> Writer \<Rightarrow> frame_err option \<times> Writer" where
  "write_doc_frame frameSeq isLast payload w =
     (case WriteFrame \<lparr>Flags = frameFlags frameSeq isLast, DocSeq = wdocSeq w, FrameSeq = frameSeq,
                       PayloadLen = 0, PayloadCRC = 0\<rparr> payload (wfile w) of
        (Some e, f1) \<Rightarrow> (Some e, w\<lparr>wfile := f1\<rparr>)
      | (None, f1) \<Rightarrow> (None, w\<lparr>wfile := f1, woffset := woffset w + FrameHeaderSize + length payload\<rparr>))"

text \<open>
  The loop of \<open>writeDocFrames\<close>, one Frame ahead of what it writes: \<open>cur\<close> and \<open>curErr\<close> are the
  buffer and the error of the last read; \<open>hashed\<close> are the bytes the hasher has consumed.
\<close>

function doc_frames_loop ::
  "bytes \<Rightarrow> read_err option \<Rightarrow> osfile \<Rightarrow> u32 \<Rightarrow> int \<Rightarrow> bytes \<Rightarrow> Writer
   \<Rightarrow> (write_err + u32 \<times> int \<times> bytes) \<times> Writer" where
  "doc_frames_loop cur curErr body frameSeq totalSize hashed w =
     (if curErr \<noteq> None \<and> \<not> isBodyEOF curErr then (Inl (ErrReadBody (the curErr)), w)
      else if length cur = 0 then (Inr (frameSeq, totalSize, hashed), w)
      else case (if curErr = None then io_ReadFull MaxFramePayload body else (([], None), body)) of
        ((nxt, nextErr), body1) \<Rightarrow>
          (case write_doc_frame frameSeq (isBodyEOF curErr \<or> length nxt = 0) cur w of
             (Some e, w1) \<Rightarrow> (Inl (ErrWriteFrame e), w1)
           | (None, w1) \<Rightarrow>
               doc_frames_loop nxt nextErr body1 (frameSeq + 1) (totalSize + int (length cur)) (hashed @ cur) w1))"
  by pat_completeness auto
termination
  by (relation "measure (\<lambda>(cur, _, body, _). length cur + length (rest body))")
    (auto split: if_splits dest!: io_ReadFull_rest [OF sym])

declare doc_frames_loop.simps [simp del]

definition writeDocFrames :: "osfile \<Rightarrow> Writer \<Rightarrow> (write_err + u32 \<times> int \<times> bytes) \<times> Writer" where
  "writeDocFrames body w =
     (case io_ReadFull MaxFramePayload body of
        ((cur, curErr), body1) \<Rightarrow> doc_frames_loop cur curErr body1 0 0 [] w)"

text \<open>The end of a successful append: the file is synced and the counters move on.\<close>

definition finish_document :: "Writer \<Rightarrow> write_err option \<times> Writer" where
  "finish_document w =
     (case file_Sync (wfile w) of (ok, f1) \<Rightarrow>
        if \<not> ok then (Some ErrFsyncDocument, w\<lparr>wfile := f1\<rparr>)
        else (None, w\<lparr>wfile := f1, wdocSeq := wdocSeq w + 1, wdocCount := wdocCount w + 1\<rparr>))"

definition AppendDocument :: "osfile \<Rightarrow> Writer \<Rightarrow> (write_err + AppendResult) \<times> Writer" where
  "AppendDocument body w =
     (if wclosed w then (Inl ErrWriterClosed, w)
      else case writeDocFrames body w of
        (Inl e, w1) \<Rightarrow> (Inl e, w1)
      | (Inr (frameSeq, totalSize, hashed), w1) \<Rightarrow>
          if frameSeq = 0 then (Inl ErrEmptyBody, w1)
          else case finish_document w1 of
            (Some e, w2) \<Rightarrow> (Inl e, w2)
          | (None, w2) \<Rightarrow> (Inr \<lparr>resSHA256 = sha256 hashed, resSize = totalSize, resFrameCount = frameSeq,
                               resFirstFrameOffset = woffset w\<rparr>, w2))"

primrec prepared_frames_loop :: "bytes list \<Rightarrow> u32 \<Rightarrow> Writer \<Rightarrow> write_err option \<times> Writer" where
  "prepared_frames_loop [] frameSeq w = (None, w)"
| "prepared_frames_loop (p # ps) frameSeq w =
     (case write_doc_frame frameSeq (ps = []) p w of
        (Some e, w1) \<Rightarrow> (Some (ErrWriteFrame e), w1)
      | (None, w1) \<Rightarrow> prepared_frames_loop ps (frameSeq + 1) w1)"

definition AppendDocumentFrames :: "DocumentFrames \<Rightarrow> Writer \<Rightarrow> (write_err + AppendResult) \<times> Writer" where
  "AppendDocumentFrames frames w =
     (if wclosed w then (Inl ErrWriterClosed, w)
      else if dfSize frames < 0 then (Inl ErrNegativeSize, w)
      else if length (dfPayloads frames) = 0 then (Inl ErrNoFrames, w)
      else case prepared_frames_loop (dfPayloads frames) 0 w of
        (Some e, w1) \<Rightarrow> (Inl e, w1)
      | (None, w1) \<Rightarrow>
          (case finish_document w1 of
             (Some e, w2) \<Rightarrow> (Inl e, w2)
           | (None, w2) \<Rightarrow> (Inr \<lparr>resSHA256 = dfSHA256 frames, resSize = dfSize frames,
                                resFrameCount = of_nat (length (dfPayloads frames)),
                                resFirstFrameOffset = woffset w\<rparr>, w2)))"

text \<open>
  \<open>AppendDocumentFrameSource\<close>: the values the callback \<open>next\<close> returns, in order, are a list;
  a list that ends before a last Frame or an error stands for a callback that then reports
  \<open>io.EOF\<close>.
\<close>

fun frame_source_loop ::
  "(src_err + bytes \<times> bool) list \<Rightarrow> u32 \<Rightarrow> Writer \<Rightarrow> (write_err + u32) \<times> Writer" where
  "frame_source_loop [] frameSeq w = (Inl (if frameSeq = 0 then ErrNoFrames else ErrFrameSource SrcEOF), w)"
| "frame_source_loop (Inl e # src) frameSeq w =
     (Inl (if e = SrcEOF \<and> frameSeq = 0 then ErrNoFrames else ErrFrameSource e), w)"
| "frame_source_loop (Inr (payload, isLast) # src) frameSeq w =
     (case write_doc_frame frameSeq isLast payload w of
        (Some e, w1) \<Rightarrow> (Inl (ErrWriteFrame e), w1)
      | (None, w1) \<Rightarrow>
          if isLast then (Inr (frameSeq + 1), w1) else frame_source_loop src (frameSeq + 1) w1)"

definition AppendDocumentFrameSource ::
  "(src_err + bytes \<times> bool) list \<Rightarrow> Writer \<Rightarrow> (write_err + nat \<times> u32) \<times> Writer" where
  "AppendDocumentFrameSource src w =
     (if wclosed w then (Inl ErrWriterClosed, w)
      else case frame_source_loop src 0 w of
        (Inl e, w1) \<Rightarrow> (Inl e, w1)
      | (Inr frameSeq, w1) \<Rightarrow>
          (case finish_document w1 of
             (Some e, w2) \<Rightarrow> (Inl e, w2)
           | (None, w2) \<Rightarrow> (Inr (woffset w, frameSeq), w2)))"

section \<open>Truncating and closing\<close>

definition Writer_Truncate :: "int \<Rightarrow> Writer \<Rightarrow> write_err option \<times> Writer" where
  "Writer_Truncate offset w =
     (if offset < int HeaderSize then (Some ErrTruncateBeforeHeader, w)
      else if offset > int (woffset w) then (Some ErrTruncateBeyondEnd, w)
      else case file_Truncate (nat offset) (wfile w) of (ok1, f1) \<Rightarrow>
        if \<not> ok1 then (Some ErrTruncate, w\<lparr>wfile := f1\<rparr>)
        else case file_Sync f1 of (ok2, f2) \<Rightarrow>
          if \<not> ok2 then (Some ErrFsyncTruncate, w\<lparr>wfile := f2\<rparr>)
          else case scanWriterState f2 of
            (Inl e, f3) \<Rightarrow> (Some e, w\<lparr>wfile := f3\<rparr>)
          | (Inr (newOffset, docSeq, docCount), f3) \<Rightarrow>
              (case file_Seek newOffset f3 of (ok4, f4) \<Rightarrow>
                 if \<not> ok4 then (Some ErrWriterSeek, w\<lparr>wfile := f4\<rparr>)
                 else (None, w\<lparr>wfile := f4, woffset := newOffset, wdocSeq := docSeq, wdocCount := docCount\<rparr>)))"

definition Writer_Close :: "Writer \<Rightarrow> write_err option \<times> Writer" where
  "Writer_Close w =
     (if wclosed w then (None, w)
      else case file_Sync (wfile w) of (ok1, f1) \<Rightarrow>
        if \<not> ok1 then (Some ErrFinalFsync, w\<lparr>wfile := f1, wclosed := True\<rparr>)
        else case file_Sync f1 of (ok2, f2) \<Rightarrow>
          (if ok2 then None else Some ErrCloseFile, w\<lparr>wfile := f2, wclosed := True\<rparr>))"

end
