(* ===== verification/Block_Document.thy ===== *)
theory Block_Document
  imports Block_Writer
begin

text \<open>
  The abstract content of a Block: the list of its Documents, each the list of its Frame payloads,
  and the bytes such a list is stored as. The three append operations of the writer refine
  appending one Document to that list, \<open>Truncate\<close> after a failed append restores it, and
  \<open>OpenWriter\<close> recovers the writer from it.
\<close>

section \<open>Blocks as lists of Documents\<close>

type_synonym document = "bytes list"

function chunks :: "bytes \<Rightarrow> document" where
  "chunks bs = (if bs = [] then [] else take MaxFramePayload bs # chunks (drop MaxFramePayload bs))"
  by pat_completeness auto
termination by (relation "measure length") (auto simp: MaxFramePayload_def)

declare chunks.simps [simp del]

definition frame_hdr :: "u32 \<Rightarrow> u32 \<Rightarrow> bool \<Rightarrow> FrameHeader" where
  "frame_hdr docSeq frameSeq isLast =
     \<lparr>Flags = frameFlags frameSeq isLast, DocSeq = docSeq, FrameSeq = frameSeq, PayloadLen = 0, PayloadCRC = 0\<rparr>"

primrec frames_from :: "u32 \<Rightarrow> u32 \<Rightarrow> document \<Rightarrow> bytes" where
  "frames_from d q [] = []"
| "frames_from d q (p # ps) = frame_bytes (frame_hdr d q (ps = [])) p @ frames_from d (q + 1) ps"

primrec docs_from :: "u32 \<Rightarrow> document list \<Rightarrow> bytes" where
  "docs_from d [] = []"
| "docs_from d (x # xs) = frames_from d 0 x @ docs_from (d + 1) xs"

definition block_bytes :: "u64 \<Rightarrow> u64 \<Rightarrow> u64 \<Rightarrow> document list \<Rightarrow> bytes" where
  "block_bytes shardID blockID created ds = block_header_bytes shardID blockID created @ docs_from 0 ds"

definition doc_ok :: "document \<Rightarrow> bool" where
  "doc_ok ps \<longleftrightarrow> ps \<noteq> [] \<and> (\<forall>p\<in>set ps. length p \<le> MaxFramePayload) \<and> length ps < 2 ^ 32"

text \<open>A writer positioned at the end of a Block that holds exactly the Documents \<open>ds\<close>.\<close>

definition writer_holds :: "u64 \<Rightarrow> Writer \<Rightarrow> document list \<Rightarrow> bool" where
  "writer_holds created w ds \<longleftrightarrow>
     fdata (wfile w) = block_bytes (wshardID w) (wblockID w) created ds \<and> at_end (wfile w) \<and>
     woffset w = length (fdata (wfile w)) \<and> wdocSeq w = of_nat (length ds) \<and>
     wdocCount w = of_nat (length ds) \<and> \<not> wclosed w \<and> (\<forall>d\<in>set ds. doc_ok d)"

lemma length_block_header [simp]: "length (block_header_bytes s b t) = 40"
  by (simp add: block_header_bytes_def block_header_prefix_def blockMagic_def Let_def)

lemma docs_from_append: "docs_from d (xs @ ys) = docs_from d xs @ docs_from (d + of_nat (length xs)) ys"
  by (induction xs arbitrary: d) (simp_all add: algebra_simps)

lemma concat_chunks: "concat (chunks bs) = bs"
  by (induction bs rule: chunks.induct) (subst chunks.simps, simp)

lemma chunks_Nil_iff [simp]: "chunks bs = [] \<longleftrightarrow> bs = []"
  by (subst chunks.simps) simp

lemma chunks_Nil [simp]: "chunks [] = []"
  by simp

lemma chunks_Cons: "bs \<noteq> [] \<Longrightarrow> chunks bs = take MaxFramePayload bs # chunks (drop MaxFramePayload bs)"
  by (subst chunks.simps) simp

lemma chunks_bound: "p \<in> set (chunks bs) \<Longrightarrow> length p \<le> MaxFramePayload"
  by (induction bs rule: chunks.induct) (subst (asm) chunks.simps, auto split: if_splits)

lemma length_chunks: "MaxFramePayload * length (chunks bs) < length bs + MaxFramePayload"
proof (induction bs rule: chunks.induct)
  case (1 bs)
  show ?case
  proof (cases "bs = []")
    case False
    then have "MaxFramePayload * length (chunks (drop MaxFramePayload bs))
        < length (drop MaxFramePayload bs) + MaxFramePayload" using 1 by simp
    moreover have "length (chunks bs) = Suc (length (chunks (drop MaxFramePayload bs)))"
      using False by (simp add: chunks_Cons)
    ultimately show ?thesis using False
      by (cases "length bs \<le> MaxFramePayload") (auto simp: chunks.simps [of "[]"] MaxFramePayload_def)
  qed (simp add: chunks.simps MaxFramePayload_def)
qed

lemma chunks_doc_ok:
  assumes "bs \<noteq> []" and "length bs \<le> 2 ^ 48 - 2 ^ 16"
  shows "doc_ok (chunks bs)"
proof -
  have "length (chunks bs) < 2 ^ 32"
    using length_chunks [of bs] assms(2) by (simp add: MaxFramePayload_def)
  then show ?thesis using assms(1) chunks_bound by (simp add: doc_ok_def)
qed

section \<open>Writing Frames\<close>

definition synced :: "Writer \<Rightarrow> bool" where
  "synced w \<longleftrightarrow> at_end (wfile w) \<and> woffset w = length (fdata (wfile w))"

text \<open>\<open>base\<close> is still the beginning of the file and the writer's offset is not before its end.\<close>

definition grown :: "bytes \<Rightarrow> Writer \<Rightarrow> bool" where
  "grown base w \<longleftrightarrow> (\<exists>part. fdata (wfile w) = base @ part) \<and> at_end (wfile w) \<and> length base \<le> woffset w"

definition same_ids :: "Writer \<Rightarrow> Writer \<Rightarrow> bool" where
  "same_ids w w' \<longleftrightarrow> wshardID w' = wshardID w \<and> wblockID w' = wblockID w \<and> wclosed w' = wclosed w
     \<and> wdocSeq w' = wdocSeq w \<and> wdocCount w' = wdocCount w"

lemma same_ids_refl [simp]: "same_ids w w"
  by (simp add: same_ids_def)

lemma same_ids_trans: "same_ids w w1 \<Longrightarrow> same_ids w1 w2 \<Longrightarrow> same_ids w w2"
  by (simp add: same_ids_def)

lemma write_doc_frame_grown:
  assumes "write_doc_frame q l p w = (r, w')" and "grown base w"
  shows "grown base w' \<and> same_ids w w'"
proof -
  let ?h = "\<lparr>Flags = frameFlags q l, DocSeq = wdocSeq w, FrameSeq = q, PayloadLen = 0, PayloadCRC = 0\<rparr>"
  obtain err f1 where wf: "WriteFrame ?h p (wfile w) = (err, f1)" by (cases "WriteFrame ?h p (wfile w)")
  then obtain part where "fdata f1 = fdata (wfile w) @ part" "at_end f1"
    using WriteFrame_extends [OF wf] assms(2) by (auto simp: grown_def)
  then show ?thesis
    using assms wf by (cases err) (auto simp: write_doc_frame_def grown_def same_ids_def)
qed

lemma write_doc_frame_ok:
  assumes "write_doc_frame q l p w = (None, w')" and "synced w"
  shows "fdata (wfile w') = fdata (wfile w) @ frame_bytes (frame_hdr (wdocSeq w) q l) p
    \<and> synced w' \<and> same_ids w w' \<and> length p \<le> MaxFramePayload"
proof -
  obtain f1 where wf: "WriteFrame (frame_hdr (wdocSeq w) q l) p (wfile w) = (None, f1)"
    and w': "w' = w\<lparr>wfile := f1, woffset := woffset w + FrameHeaderSize + length p\<rparr>"
    using assms(1) by (auto simp: write_doc_frame_def frame_hdr_def split: prod.splits option.splits)
  have "fdata f1 = fdata (wfile w) @ frame_bytes (frame_hdr (wdocSeq w) q l) p" "at_end f1"
    "length p \<le> MaxFramePayload"
    using WriteFrame_extends [OF wf] assms(2) by (auto simp: synced_def)
  then show ?thesis using assms(2) w'
    by (simp add: synced_def same_ids_def length_frame_bytes FrameHeaderSize_def)
qed

lemma synced_grown: "synced w \<Longrightarrow> grown (fdata (wfile w)) w"
  by (simp add: synced_def grown_def)

lemma finish_document_grown:
  "finish_document w = (Some e, w') \<Longrightarrow> grown base w \<Longrightarrow> grown base w' \<and> same_ids w w'"
  by (auto simp: finish_document_def grown_def same_ids_def at_end_def
      split: prod.splits if_splits dest: file_Sync_keeps)

lemma finish_document_ok:
  "finish_document w = (None, w') \<Longrightarrow> synced w \<Longrightarrow>
   fdata (wfile w') = fdata (wfile w) \<and> synced w' \<and> wdocSeq w' = wdocSeq w + 1
   \<and> wdocCount w' = wdocCount w + 1 \<and> wshardID w' = wshardID w \<and> wblockID w' = wblockID w
   \<and> wclosed w' = wclosed w"
  by (auto simp: finish_document_def synced_def at_end_def split: prod.splits if_splits dest: file_Sync_keeps)

text \<open>Finishing a Document whose Frames are all on disk appends it to the abstract Block.\<close>

lemma finish_document_holds:
  assumes "writer_holds t w ds" and "doc_ok d" and "same_ids w w1" and "synced w1"
    and "fdata (wfile w1) = fdata (wfile w) @ frames_from (wdocSeq w) 0 d"
    and "finish_document w1 = (None, w2)"
  shows "writer_holds t w2 (ds @ [d])"
  using assms finish_document_ok [OF assms(6,4)]
  by (auto simp: writer_holds_def synced_def same_ids_def block_bytes_def docs_from_append)

subsection \<open>The streaming append\<close>

lemma doc_frames_loop_grown:
  "doc_frames_loop cur curErr body q sz hashed w = (r, w') \<Longrightarrow> grown base w \<Longrightarrow>
   grown base w' \<and> same_ids w w'"
proof (induction cur curErr body q sz hashed w arbitrary: r w' rule: doc_frames_loop.induct)
  case (1 cur curErr body q sz hashed w)
  show ?case
  proof (cases "(curErr \<noteq> None \<and> \<not> isBodyEOF curErr) \<or> cur = []")
    case True
    then show ?thesis using 1(2,3) by (subst (asm) doc_frames_loop.simps) (auto split: if_splits)
  next
    case False
    obtain nxt nextErr body1 where
      n: "(if curErr = None then io_ReadFull MaxFramePayload body else (([], None), body)) = ((nxt, nextErr), body1)"
      by (metis surj_pair)
    obtain err w1 where wf: "write_doc_frame q (isBodyEOF curErr \<or> length nxt = 0) cur w = (err, w1)"
      by (cases "write_doc_frame q (isBodyEOF curErr \<or> length nxt = 0) cur w")
    note g = write_doc_frame_grown [OF wf 1(3)]
    show ?thesis
    proof (cases err)
      case None
      then have "doc_frames_loop nxt nextErr body1 (q + 1) (sz + int (length cur)) (hashed @ cur) w1 = (r, w')"
        using 1(2) False n wf by (subst (asm) doc_frames_loop.simps) auto
      then show ?thesis
        using 1(1) [OF _ _ n [symmetric] refl wf [symmetric] None] False g same_ids_trans by blast
    next
      case (Some e)
      then have "w' = w1" using 1(2) False n wf by (subst (asm) doc_frames_loop.simps) auto
      then show ?thesis using g by simp
    qed
  qed
qed

text \<open>What the last read says about the rest of the body.\<close>

definition read_state :: "bytes \<Rightarrow> read_err option \<Rightarrow> osfile \<Rightarrow> bool" where
  "read_state cur curErr body \<longleftrightarrow> length cur \<le> MaxFramePayload \<and>
     (case curErr of None \<Rightarrow> length cur = MaxFramePayload \<or> cur = [] \<and> rest body = []
      | Some e \<Rightarrow> e \<noteq> IOError \<longrightarrow> rest body = [])"

lemma read_state_ReadFull:
  assumes "io_ReadFull MaxFramePayload body = ((cur, err), body1)"
  shows "read_state cur err body1"
proof (cases err)
  case None
  then show ?thesis using assms io_ReadFull_None_length by (auto simp: read_state_def)
next
  case (Some e)
  have "length cur \<le> MaxFramePayload"
    using assms by (auto simp: io_ReadFull_def Let_def split: if_splits prod.splits io_outcome.splits)
  then show ?thesis using assms Some io_ReadFull_EOF_rest by (auto simp: read_state_def)
qed

lemma doc_frames_loop_ok:
  "doc_frames_loop cur curErr body q sz hashed w = (Inr (q', sz', hashed'), w') \<Longrightarrow>
   synced w \<Longrightarrow> read_state cur curErr body \<Longrightarrow>
   hashed' = hashed @ cur @ rest body \<and> sz' = sz + int (length (cur @ rest body)) \<and>
   q' = q + of_nat (length (chunks (cur @ rest body))) \<and>
   fdata (wfile w') = fdata (wfile w) @ frames_from (wdocSeq w) q (chunks (cur @ rest body)) \<and>
   synced w' \<and> same_ids w w'"
proof (induction cur curErr body q sz hashed w arbitrary: q' sz' hashed' w' rule: doc_frames_loop.induct)
  case (1 cur curErr body q sz hashed w)
  have ne: "\<not> (curErr \<noteq> None \<and> \<not> isBodyEOF curErr)"
    using 1(2) by (subst (asm) doc_frames_loop.simps) (auto split: if_splits)
  then have eofs: "curErr \<noteq> None \<Longrightarrow> isBodyEOF curErr \<and> rest body = []"
    using 1(4) by (auto simp: read_state_def isBodyEOF_def)
  show ?case
  proof (cases "cur = []")
    case True
    then have "rest body = []"
      using 1(4) ne by (auto simp: read_state_def isBodyEOF_def MaxFramePayload_def split: option.splits)
    then show ?thesis using 1(2-3) ne True
      by (subst (asm) doc_frames_loop.simps) (auto simp: chunks.simps)
  next
    case False
    obtain nxt nextErr body1 where
      n: "(if curErr = None then io_ReadFull MaxFramePayload body else (([], None), body)) = ((nxt, nextErr), body1)"
      by (metis surj_pair)
    obtain w1 where wf: "write_doc_frame q (isBodyEOF curErr \<or> length nxt = 0) cur w = (None, w1)"
      and rec: "doc_frames_loop nxt nextErr body1 (q + 1) (sz + int (length cur)) (hashed @ cur) w1
        = (Inr (q', sz', hashed'), w')"
      using 1(2) ne False n by (subst (asm) doc_frames_loop.simps) (auto split: prod.splits option.splits)
    have rs: "read_state nxt nextErr body1"
      using n eofs read_state_ReadFull by (auto simp: read_state_def split: if_splits)
    have nb: "rest body = nxt @ rest body1"
      using n io_ReadFull_rest eofs by (auto split: if_splits)
    note ok = write_doc_frame_ok [OF wf 1(3)]
    note IH = 1(1) [OF ne _ n [symmetric] refl wf [symmetric] refl rec] ok rs False
    have ch: "chunks (cur @ rest body) = cur # chunks (rest body)"
    proof (cases curErr)
      case None
      then have "length cur = MaxFramePayload" using 1(4) False by (simp add: read_state_def)
      then show ?thesis using False by (subst chunks_Cons) auto
    next
      case (Some e)
      then have "rest body = []" "length cur \<le> MaxFramePayload" using eofs 1(4) by (auto simp: read_state_def)
      then show ?thesis using False by (subst chunks_Cons) (auto simp: chunks.simps)
    qed
    have last: "(isBodyEOF curErr \<or> length nxt = 0) = (chunks (rest body) = [])"
    proof (cases curErr)
      case None
      have "nextErr \<noteq> Some IOError"
        using rec by (subst (asm) doc_frames_loop.simps) (auto simp: isBodyEOF_def split: if_splits)
      then have "nxt = [] \<Longrightarrow> rest body1 = []"
        using rs by (auto simp: read_state_def MaxFramePayload_def split: option.splits)
      then show ?thesis using None nb by (auto simp: isBodyEOF_def)
    qed (use eofs in auto)
    show ?thesis
      using IH ch last nb same_ids_trans by (auto simp: same_ids_def)
  qed
qed


lemma writer_holds_synced: "writer_holds t w ds \<Longrightarrow> synced w"
  by (simp add: writer_holds_def synced_def)

lemma AppendDocument_holds:
  assumes "AppendDocument body w = (Inr res, w')" and "writer_holds t w ds"
    and "length (rest body) \<le> 2 ^ 48 - 2 ^ 16"
  shows "writer_holds t w' (ds @ [chunks (rest body)]) \<and> rest body \<noteq> [] \<and>
    res = \<lparr>resSHA256 = sha256 (rest body), resSize = int (length (rest body)),
           resFrameCount = of_nat (length (chunks (rest body))), resFirstFrameOffset = woffset w\<rparr>"
proof -
  obtain cur err body1 where r: "io_ReadFull MaxFramePayload body = ((cur, err), body1)"
    by (cases "io_ReadFull MaxFramePayload body") auto
  obtain q sz hashed w1 where l: "doc_frames_loop cur err body1 0 0 [] w = (Inr (q, sz, hashed), w1)"
    and q: "q \<noteq> 0" and fin: "finish_document w1 = (None, w')"
    and res: "res = \<lparr>resSHA256 = sha256 hashed, resSize = sz, resFrameCount = q, resFirstFrameOffset = woffset w\<rparr>"
    using assms(1) r
    by (auto simp: AppendDocument_def writeDocFrames_def split: if_splits prod.splits sum.splits option.splits)
  have b: "cur @ rest body1 = rest body" using io_ReadFull_rest [OF r] by simp
  note ok = doc_frames_loop_ok [OF l writer_holds_synced [OF assms(2)] read_state_ReadFull [OF r], unfolded b]
  have ne: "rest body \<noteq> []" using ok q by auto
  from finish_document_holds [OF assms(2) chunks_doc_ok [OF ne assms(3)] _ _ _ fin] ok
  show ?thesis using ne res by simp
qed

lemma doc_frames_loop_ids:
  "doc_frames_loop cur curErr body q sz hashed w = (r, w') \<Longrightarrow> wshardID w' = wshardID w \<and> wblockID w' = wblockID w"
proof (induction cur curErr body q sz hashed w rule: doc_frames_loop.induct)
  case (1 cur curErr body q sz hashed w)
  have wf: "write_doc_frame q' l p w1 = (err, w2) \<Longrightarrow> wshardID w2 = wshardID w1 \<and> wblockID w2 = wblockID w1"
    for q' l p w1 err w2
    by (auto simp: write_doc_frame_def split: prod.splits option.splits)
  show ?case
    using 1(2) 1(1)
    by (subst (asm) doc_frames_loop.simps) (auto split: if_splits prod.splits option.splits dest!: wf)
qed

lemma AppendDocument_ids:
  "AppendDocument body w = (r, w') \<Longrightarrow> wshardID w' = wshardID w \<and> wblockID w' = wblockID w"
  by (auto simp: AppendDocument_def writeDocFrames_def finish_document_def
      split: if_splits prod.splits sum.splits option.splits dest!: doc_frames_loop_ids)

lemma AppendDocument_grown:
  assumes "AppendDocument body w = (Inl e, w')" and "grown base w"
  shows "grown base w' \<and> same_ids w w'"
proof (cases "wclosed w")
  case False
  obtain cur err body1 where r: "io_ReadFull MaxFramePayload body = ((cur, err), body1)"
    by (cases "io_ReadFull MaxFramePayload body") auto
  obtain res w1 where l: "doc_frames_loop cur err body1 0 0 [] w = (res, w1)"
    by (cases "doc_frames_loop cur err body1 0 0 [] w")
  note g = doc_frames_loop_grown [OF l assms(2)]
  show ?thesis
    using assms(1) False r l g
    by (auto simp: AppendDocument_def writeDocFrames_def
        split: if_splits sum.splits prod.splits option.splits dest!: finish_document_grown
        intro: same_ids_trans)
qed (use assms in \<open>auto simp: AppendDocument_def\<close>)

subsection \<open>The prepared appends\<close>

lemma prepared_frames_loop_grown:
  "prepared_frames_loop ps q w = (r, w') \<Longrightarrow> grown base w \<Longrightarrow> grown base w' \<and> same_ids w w'"
proof (induction ps arbitrary: q w)
  case (Cons p ps)
  obtain err w1 where wf: "write_doc_frame q (ps = []) p w = (err, w1)"
    by (cases "write_doc_frame q (ps = []) p w")
  note g = write_doc_frame_grown [OF wf Cons.prems(2)]
  show ?case using Cons.prems(1) wf g Cons.IH [of "q + 1" w1] same_ids_trans
    by (cases err) auto
qed simp

lemma prepared_frames_loop_ok:
  "prepared_frames_loop ps q w = (None, w') \<Longrightarrow> synced w \<Longrightarrow>
   fdata (wfile w') = fdata (wfile w) @ frames_from (wdocSeq w) q ps \<and> synced w' \<and> same_ids w w'
   \<and> (\<forall>p\<in>set ps. length p \<le> MaxFramePayload)"
proof (induction ps arbitrary: q w)
  case (Cons p ps)
  obtain w1 where wf: "write_doc_frame q (ps = []) p w = (None, w1)"
    and rec: "prepared_frames_loop ps (q + 1) w1 = (None, w')"
    using Cons.prems(1) by (auto split: prod.splits option.splits)
  note ok = write_doc_frame_ok [OF wf Cons.prems(2)]
  show ?case using Cons.IH [OF rec] ok by (auto simp: same_ids_def)
qed simp

lemma AppendDocumentFrames_holds:
  assumes "AppendDocumentFrames frames w = (Inr res, w')" and "writer_holds t w ds"
    and "length (dfPayloads frames) < 2 ^ 32"
  shows "writer_holds t w' (ds @ [dfPayloads frames]) \<and>
    res = \<lparr>resSHA256 = dfSHA256 frames, resSize = dfSize frames,
           resFrameCount = of_nat (length (dfPayloads frames)), resFirstFrameOffset = woffset w\<rparr>"
proof -
  obtain w1 where l: "prepared_frames_loop (dfPayloads frames) 0 w = (None, w1)"
    and fin: "finish_document w1 = (None, w')" and ne: "dfPayloads frames \<noteq> []"
    and res: "res = \<lparr>resSHA256 = dfSHA256 frames, resSize = dfSize frames,
           resFrameCount = of_nat (length (dfPayloads frames)), resFirstFrameOffset = woffset w\<rparr>"
    using assms(1) by (auto simp: AppendDocumentFrames_def split: if_splits prod.splits option.splits)
  note ok = prepared_frames_loop_ok [OF l writer_holds_synced [OF assms(2)]]
  have "doc_ok (dfPayloads frames)" using ok ne assms(3) by (simp add: doc_ok_def)
  from finish_document_holds [OF assms(2) this _ _ _ fin] ok res show ?thesis by simp
qed

lemma AppendDocumentFrames_grown:
  assumes "AppendDocumentFrames frames w = (Inl e, w')" and "grown base w"
  shows "grown base w' \<and> same_ids w w'"
proof -
  obtain r w1 where l: "prepared_frames_loop (dfPayloads frames) 0 w = (r, w1)"
    by (cases "prepared_frames_loop (dfPayloads frames) 0 w")
  show ?thesis
    using assms l prepared_frames_loop_grown [OF l assms(2)]
    by (auto simp: AppendDocumentFrames_def split: if_splits prod.splits option.splits
        dest!: finish_document_grown intro: same_ids_trans)
qed

text \<open>The payloads a frame source delivers, up to and including its last Frame.\<close>

fun source_payloads :: "(src_err + bytes \<times> bool) list \<Rightarrow> document" where
  "source_payloads (Inr (p, isLast) # src) = p # (if isLast then [] else source_payloads src)"
| "source_payloads _ = []"

lemma frame_source_loop_grown:
  "frame_source_loop src q w = (r, w') \<Longrightarrow> grown base w \<Longrightarrow> grown base w' \<and> same_ids w w'"
proof (induction src q w rule: frame_source_loop.induct)
  case (3 p l src q w)
  obtain err w1 where wf: "write_doc_frame q l p w = (err, w1)" by (cases "write_doc_frame q l p w")
  note g = write_doc_frame_grown [OF wf 3(3)]
  show ?case using 3(2) wf g 3(1) [OF wf [symmetric]] same_ids_trans
    by (cases err) (auto split: if_splits)
qed auto

lemma frame_source_loop_ok:
  "frame_source_loop src q w = (Inr q', w') \<Longrightarrow> synced w \<Longrightarrow>
   fdata (wfile w') = fdata (wfile w) @ frames_from (wdocSeq w) q (source_payloads src) \<and> synced w' \<and> same_ids w w'
   \<and> q' = q + of_nat (length (source_payloads src)) \<and> source_payloads src \<noteq> []
   \<and> (\<forall>p\<in>set (source_payloads src). length p \<le> MaxFramePayload)"
proof (induction src q w rule: frame_source_loop.induct)
  case (3 p l src q w)
  obtain w1 where wf: "write_doc_frame q l p w = (None, w1)"
    and rec: "(if l then (Inr (q + 1), w1) else frame_source_loop src (q + 1) w1) = (Inr q', w')"
    using 3(2) by (auto split: prod.splits option.splits)
  note ok = write_doc_frame_ok [OF wf 3(3)]
  show ?case
  proof (cases l)
    case False
    with rec have rec': "frame_source_loop src (q + 1) w1 = (Inr q', w')" by simp
    then have ne: "source_payloads src \<noteq> []"
      using 3(1) [OF wf [symmetric] refl False rec'] ok by blast
    then show ?thesis using 3(1) [OF wf [symmetric] refl False rec'] ok False
      by (auto simp: same_ids_def)
  qed (use ok rec in auto)
qed auto

lemma length_source_payloads: "length (source_payloads src) \<le> length src"
  by (induction src rule: source_payloads.induct) auto

lemma AppendDocumentFrameSource_holds:
  assumes "AppendDocumentFrameSource src w = (Inr (off, n), w')" and "writer_holds t w ds"
    and "length src < 2 ^ 32"
  shows "writer_holds t w' (ds @ [source_payloads src]) \<and> off = woffset w
    \<and> n = of_nat (length (source_payloads src))"
proof -
  obtain w1 where l: "frame_source_loop src 0 w = (Inr n, w1)"
    and fin: "finish_document w1 = (None, w')" and off: "off = woffset w"
    using assms(1)
    by (auto simp: AppendDocumentFrameSource_def split: if_splits prod.splits option.splits sum.splits)
  note ok = frame_source_loop_ok [OF l writer_holds_synced [OF assms(2)]]
  have "doc_ok (source_payloads src)"
    using ok assms(3) length_source_payloads [of src] by (simp add: doc_ok_def)
  from finish_document_holds [OF assms(2) this _ _ _ fin] ok off show ?thesis by simp
qed

lemma AppendDocumentFrameSource_grown:
  assumes "AppendDocumentFrameSource src w = (Inl e, w')" and "grown base w"
  shows "grown base w' \<and> same_ids w w'"
proof -
  obtain r w1 where l: "frame_source_loop src 0 w = (r, w1)" by (cases "frame_source_loop src 0 w")
  show ?thesis
    using assms l frame_source_loop_grown [OF l assms(2)]
    by (auto simp: AppendDocumentFrameSource_def split: if_splits prod.splits option.splits sum.splits
        dest!: finish_document_grown intro: same_ids_trans)
qed

section \<open>Scanning\<close>

lemma isLastFrame_frameFlags [simp]: "isLastFrame (frameFlags q l) = l"
  by (simp add: isLastFrame_def frameFlags_def FlagSingleFrame_def FlagFirstFrame_def FlagLastFrame_def)

lemma validate_frame_hdr [simp]:
  "validateWriterScanFrame (sealed_header (frame_hdr d q l) p) d q = None"
  by (simp add: validateWriterScanFrame_def validateWriterScanFrameFlags_def frame_hdr_def)

lemma scan_loop_frame:
  assumes "fsched f = []" and "rest f = frame_bytes (frame_hdr d q l) p @ tail" and "length p \<le> MaxFramePayload"
  shows "scan_loop f off d q c =
    (let f1 = f\<lparr>fpos := fpos f + length (frame_bytes (frame_hdr d q l) p)\<rparr>;
         off1 = off + length (frame_bytes (frame_hdr d q l) p)
     in if l then scan_loop f1 off1 (d + 1) 0 (c + 1) else scan_loop f1 off1 d (q + 1) c)"
  by (subst scan_loop.simps)
    (simp add: ReadFrame_frame_bytes [OF assms] Let_def frame_hdr_def [THEN arg_cong, of Flags]
      length_frame_bytes FrameHeaderSize_def add.assoc)

lemma scan_loop_document:
  assumes "fsched f = []" and "rest f = frames_from d q ps @ tail" and "ps \<noteq> []"
    and "\<forall>p\<in>set ps. length p \<le> MaxFramePayload"
  shows "scan_loop f off d q c =
    scan_loop (f\<lparr>fpos := fpos f + length (frames_from d q ps)\<rparr>) (off + length (frames_from d q ps)) (d + 1) 0 (c + 1)"
  using assms
proof (induction ps arbitrary: f q off)
  case (Cons p ps)
  let ?fb = "frame_bytes (frame_hdr d q (ps = [])) p"
  let ?f1 = "f\<lparr>fpos := fpos f + length ?fb\<rparr>"
  have r: "rest f = ?fb @ (frames_from d (q + 1) ps @ tail)" using Cons.prems(2) by simp
  have s: "scan_loop f off d q c =
    (if ps = [] then scan_loop ?f1 (off + length ?fb) (d + 1) 0 (c + 1)
     else scan_loop ?f1 (off + length ?fb) d (q + 1) c)"
    using scan_loop_frame [OF Cons.prems(1) r] Cons.prems(4) by (simp add: Let_def)
  show ?case
  proof (cases "ps = []")
    case False
    have "scan_loop ?f1 (off + length ?fb) d (q + 1) c =
      scan_loop (?f1\<lparr>fpos := fpos ?f1 + length (frames_from d (q + 1) ps)\<rparr>)
        (off + length ?fb + length (frames_from d (q + 1) ps)) (d + 1) 0 (c + 1)"
      by (rule Cons.IH) (use Cons.prems rest_advance [OF r] False in simp_all)
    then show ?thesis using s False by (simp add: add.assoc)
  qed (use s in simp)
qed simp

lemma scan_loop_documents:
  assumes "fsched f = []" and "rest f = docs_from d ds @ tail" and "\<forall>x\<in>set ds. doc_ok x"
  shows "scan_loop f off d 0 c =
    scan_loop (f\<lparr>fpos := fpos f + length (docs_from d ds)\<rparr>) (off + length (docs_from d ds))
      (d + of_nat (length ds)) 0 (c + of_nat (length ds))"
  using assms
proof (induction ds arbitrary: f d off c)
  case (Cons x ds)
  let ?f1 = "f\<lparr>fpos := fpos f + length (frames_from d 0 x)\<rparr>"
  have r: "rest f = frames_from d 0 x @ (docs_from (d + 1) ds @ tail)" using Cons.prems(2) by simp
  have "scan_loop f off d 0 c = scan_loop ?f1 (off + length (frames_from d 0 x)) (d + 1) 0 (c + 1)"
    by (rule scan_loop_document [OF Cons.prems(1) r]) (use Cons.prems(3) in \<open>auto simp: doc_ok_def\<close>)
  also have "\<dots> = scan_loop (?f1\<lparr>fpos := fpos ?f1 + length (docs_from (d + 1) ds)\<rparr>)
      (off + length (frames_from d 0 x) + length (docs_from (d + 1) ds))
      (d + 1 + of_nat (length ds)) 0 (c + 1 + of_nat (length ds))"
    by (rule Cons.IH) (use Cons.prems rest_advance [OF r] in simp_all)
  finally show ?case by (simp add: algebra_simps)
qed simp

lemma scan_loop_quiet:
  "scan_loop f off d q c = (Inr r, f') \<Longrightarrow> scan_loop (quiet f) off d q c = (Inr r, quiet f')"
proof (induction f off d q c rule: scan_loop.induct)
  case (1 f off d q c)
  obtain res f1 where rf: "ReadFrame f = (res, f1)" by (cases "ReadFrame f")
  have "\<forall>e. res = Inl e \<longrightarrow> frame_err_is_EOF e"
    using 1(3) rf by (subst (asm) scan_loop.simps) (auto split: if_splits)
  note q = ReadFrame_quiet [OF rf this]
  show ?case
  proof (cases res)
    case (Inl e)
    then show ?thesis using 1(3) rf q
      by (subst scan_loop.simps, subst (asm) scan_loop.simps) (auto split: if_splits)
  next
    case (Inr b)
    obtain hdr payload where b: "b = (hdr, payload)" by (cases b)
    have v: "validateWriterScanFrame hdr d q = None"
      using 1(3) rf Inr b by (subst (asm) scan_loop.simps) (auto split: option.splits)
    show ?thesis
      using 1(1) [OF rf [symmetric] Inr b [symmetric] v] 1(2) [OF rf [symmetric] Inr b [symmetric] v] 1(3) rf q Inr b v
      by (subst scan_loop.simps, subst (asm) (3) scan_loop.simps) (auto split: if_splits)
  qed
qed

lemma scan_loop_end:
  assumes "fsched f = []" and "rest f = []"
  shows "scan_loop f off d 0 c = (Inr (off, d, c), f)"
proof -
  have "ReadFrame f = (Inl (ErrReadHeader EOF), f)"
    using assms by (simp add: ReadFrame_def io_ReadFull_eof FrameHeaderSize_def)
  then show ?thesis by (subst scan_loop.simps) simp
qed

section \<open>Reopening and truncating\<close>

lemma verify_header_fields_ok:
  "verify_header_fields (block_header_bytes s b t) s b = None"
proof -
  let ?p = "block_header_prefix s b t"
  have "slice 0 4 ?p = blockMagic" "get_u16 (slice 4 6 ?p) = 1" "get_u16 (slice 6 8 ?p) = of_nat HeaderSize"
    "get_u64 (slice 8 16 ?p) = s" "get_u64 (slice 16 24 ?p) = b"
    by (simp_all add: block_header_prefix_def blockMagic_def)
  moreover have "length ?p = 36" by (simp add: block_header_prefix_def blockMagic_def)
  ultimately show ?thesis
    by (simp add: verify_header_fields_def block_header_bytes_def Let_def)
qed

lemma VerifyHeader_block:
  "VerifyHeader (block_header_bytes s b t @ tail) [] s b = None"
proof -
  let ?f = "\<lparr>fdata = block_header_bytes s b t @ tail, fpos = 0, fsched = []\<rparr>"
  have "io_ReadFull HeaderSize ?f = ((block_header_bytes s b t, None), ?f\<lparr>fpos := 40\<rparr>)"
    using io_ReadFull_full [of ?f "block_header_bytes s b t" tail 40] by (simp add: rest_def HeaderSize_def)
  then show ?thesis by (simp add: VerifyHeader_def file_Open_def verify_header_fields_ok)
qed

lemma scanWriterState_documents:
  assumes "fsched f = []" and "fdata f = block_bytes s b t ds @ tail" and "\<forall>x\<in>set ds. doc_ok x"
  shows "scanWriterState f =
    scan_loop (f\<lparr>fpos := length (block_bytes s b t ds)\<rparr>) (length (block_bytes s b t ds))
      (of_nat (length ds)) 0 (of_nat (length ds))"
proof -
  have r: "rest (f\<lparr>fpos := 40\<rparr>) = docs_from 0 ds @ tail" by (simp add: rest_def assms(2) block_bytes_def)
  show ?thesis
    using scan_loop_documents [OF _ r assms(3), of 40 0] assms(1)
    by (simp add: scanWriterState_def HeaderSize_def block_bytes_def)
qed

lemma scanWriterState_block:
  assumes "fsched f = []" and "fdata f = block_bytes s b t ds" and "\<forall>x\<in>set ds. doc_ok x"
  shows "scanWriterState f =
    (Inr (length (block_bytes s b t ds), of_nat (length ds), of_nat (length ds)),
     f\<lparr>fpos := length (block_bytes s b t ds)\<rparr>)"
proof -
  have "rest (f\<lparr>fpos := length (block_bytes s b t ds)\<rparr>) = []" by (simp add: rest_def assms(2))
  then show ?thesis
    using scanWriterState_documents [OF assms(1) _ assms(3), of s b t "[]"] assms(1,2)
    by (simp add: scan_loop_end)
qed

lemma scanWriterState_quiet:
  assumes "scanWriterState f = (Inr r, f')"
  shows "scanWriterState (quiet f) = (Inr r, quiet f')"
proof -
  obtain f1 where s: "file_Seek HeaderSize f = (True, f1)" and l: "scan_loop f1 HeaderSize 0 0 0 = (Inr r, f')"
    using assms by (auto simp: scanWriterState_def split: prod.splits if_splits)
  show ?thesis
    using file_Seek_quiet [OF s] scan_loop_quiet [OF l] by (simp add: scanWriterState_def)
qed

text \<open>A scan that succeeds on any device finds exactly the Documents of the Block.\<close>

lemma scanWriterState_any:
  assumes "scanWriterState f = (Inr r, f')" and "fdata f = block_bytes s b t ds" and "\<forall>x\<in>set ds. doc_ok x"
  shows "r = (length (block_bytes s b t ds), of_nat (length ds), of_nat (length ds)) \<and> fdata f' = fdata f"
proof -
  have "scanWriterState (quiet f) =
    (Inr (length (block_bytes s b t ds), of_nat (length ds), of_nat (length ds)),
     (quiet f)\<lparr>fpos := length (block_bytes s b t ds)\<rparr>)"
    using assms(2,3) by (intro scanWriterState_block) simp_all
  with scanWriterState_quiet [OF assms(1)] have
    "r = (length (block_bytes s b t ds), of_nat (length ds), of_nat (length ds))"
    "quiet f' = (quiet f)\<lparr>fpos := length (block_bytes s b t ds)\<rparr>" by simp_all
  then show ?thesis using quiet_sel(1) [of f'] by simp
qed

lemma Writer_Truncate_restores:
  assumes "Writer_Truncate (int (length base)) w = (None, w')" and "grown base w" and "\<not> wclosed w"
    and "base = block_bytes (wshardID w) (wblockID w) t ds" and "\<forall>x\<in>set ds. doc_ok x"
  shows "writer_holds t w' ds"
proof -
  obtain f1 f2 off dseq dcnt f3 f4 where
    tr: "file_Truncate (length base) (wfile w) = (True, f1)" and sy: "file_Sync f1 = (True, f2)" and
    sc: "scanWriterState f2 = (Inr (off, dseq, dcnt), f3)" and se: "file_Seek off f3 = (True, f4)" and
    w': "w' = w\<lparr>wfile := f4, woffset := off, wdocSeq := dseq, wdocCount := dcnt\<rparr>"
    using assms(1) by (auto simp: Writer_Truncate_def split: if_splits prod.splits sum.splits)
  obtain part where "fdata (wfile w) = base @ part" using assms(2) by (auto simp: grown_def)
  then have "fdata f1 = base"
    using tr by (auto simp: file_Truncate_def split: prod.splits if_splits dest!: next_outcome_data)
  then have "fdata f2 = base" using file_Sync_keeps [OF sy] by simp
  with scanWriterState_any [OF sc _ assms(5)] assms(4) have
    "off = length base" "dseq = of_nat (length ds)" "dcnt = of_nat (length ds)" "fdata f3 = base" by auto
  then show ?thesis
    using file_Seek_quiet [OF se] assms(3-5) w' by (simp add: writer_holds_def at_end_def)
qed

lemma OpenWriter_any:
  assumes "OpenWriter (block_bytes s b t ds) sched1 sched2 s b = Inr w" and "\<forall>x\<in>set ds. doc_ok x"
  shows "writer_holds t w ds"
proof -
  obtain f off dseq dcnt f1 f2 where o1: "file_Open (block_bytes s b t ds) sched2 = (True, f)" and
    sc: "scanWriterState f = (Inr (off, dseq, dcnt), f1)" and se: "file_Seek off f1 = (True, f2)" and
    w: "w = \<lparr>wfile = f2, wshardID = s, wblockID = b, woffset = off, wdocSeq = dseq, wdocCount = dcnt, wclosed = False\<rparr>"
    using assms(1) by (auto simp: OpenWriter_def split: if_splits prod.splits sum.splits option.splits)
  have "fdata f = block_bytes s b t ds" using file_Open_quiet [OF o1] by simp
  with scanWriterState_any [OF sc this assms(2)] show ?thesis
    using file_Seek_quiet [OF se] w assms(2) by (simp add: writer_holds_def at_end_def)
qed

lemma OpenWriter_quiet_ok:
  assumes "\<forall>x\<in>set ds. doc_ok x"
  shows "\<exists>w. OpenWriter (block_bytes s b t ds) [] [] s b = Inr w"
proof -
  let ?f = "\<lparr>fdata = block_bytes s b t ds, fpos = 0, fsched = []\<rparr>"
  have "VerifyHeader (block_bytes s b t ds) [] s b = None" by (simp add: block_bytes_def VerifyHeader_block)
  moreover have "scanWriterState ?f =
     (Inr (length (block_bytes s b t ds), of_nat (length ds), of_nat (length ds)),
      ?f\<lparr>fpos := length (block_bytes s b t ds)\<rparr>)"
    using assms by (intro scanWriterState_block) simp_all
  ultimately show ?thesis by (simp add: OpenWriter_def file_Open_def)
qed

subsection \<open>Blocks with a torn last Document\<close>

lemma word_Suc_nonzero:
  assumes "unat (q :: u32) + 1 < 2 ^ 32"
  shows "q + 1 \<noteq> 0"
proof
  assume "q + 1 = 0"
  then have "q = - 1" by (simp add: eq_neg_iff_add_eq_0)
  then show False using assms by (simp add: unsigned_minus_1_eq_mask mask_eq_exp_minus_1)
qed

lemma unat_Suc_u32:
  assumes "unat (q :: u32) + 1 < 2 ^ 32"
  shows "unat (q + 1) = unat q + 1"
  using word_Suc_nonzero [OF assms] by (metis Suc_eq_plus1 add.commute unatSuc)

lemma ReadFrame_torn:
  assumes "fsched f = []" and "rest f = take c (frame_bytes (frame_hdr d q l) p)"
    and "length p \<le> MaxFramePayload" and "c < length (frame_bytes (frame_hdr d q l) p)"
  shows "scan_loop f off d q n =
    (if c = 0 \<or> c = 32 then if q \<noteq> 0 then Inl ErrScanIncomplete else Inr (off, d, n)
     else Inl (ErrScanFrame ErrTruncated), snd (ReadFrame f))"
  using ReadFrame_prefix [OF assms]
  by (subst scan_loop.simps) (auto split: prod.splits sum.splits if_splits)

lemma scan_loop_torn_later:
  assumes "fsched f = []" and "rest f = take c (frames_from d q ps)" and "c < length (frames_from d q ps)"
    and "\<forall>p\<in>set ps. length p \<le> MaxFramePayload" and "q \<noteq> 0" and "unat q + length ps < 2 ^ 32"
  shows "\<exists>e f'. scan_loop f off d q n = (Inl e, f')"
  using assms
proof (induction ps arbitrary: f c q off)
  case (Cons p ps)
  let ?fb = "frame_bytes (frame_hdr d q (ps = [])) p"
  show ?case
  proof (cases "c < length ?fb")
    case True
    then have "rest f = take c ?fb" using Cons.prems(2) by simp
    from ReadFrame_torn [OF Cons.prems(1) this] show ?thesis
      using True Cons.prems(4,5) by (auto split: if_splits)
  next
    case False
    then have ps: "ps \<noteq> []" and c: "c - length ?fb < length (frames_from d (q + 1) ps)"
      using Cons.prems(3) by auto
    have r: "rest f = ?fb @ take (c - length ?fb) (frames_from d (q + 1) ps)"
      using Cons.prems(2) False by simp
    let ?f1 = "f\<lparr>fpos := fpos f + length ?fb\<rparr>"
    have "scan_loop f off d q n = scan_loop ?f1 (off + length ?fb) d (q + 1) n"
      using scan_loop_frame [OF Cons.prems(1) r] Cons.prems(4) ps by (simp add: Let_def)
    moreover have q: "unat q + 1 < 2 ^ 32" using Cons.prems(6) ps by (cases ps) auto
    ultimately show ?thesis
      using Cons.IH [of ?f1 "c - length ?fb" "q + 1"] Cons.prems rest_advance [OF r] c
        word_Suc_nonzero [OF q] unat_Suc_u32 [OF q] by simp
  qed
qed simp

lemma scan_loop_torn:
  assumes "fsched f = []" and "rest f = take c (frames_from d 0 ps)" and "c < length (frames_from d 0 ps)"
    and "doc_ok ps"
  shows "\<exists>f'. if c = 0 \<or> c = 32 \<and> hd ps \<noteq> [] then scan_loop f off d 0 n = (Inr (off, d, n), f')
    else \<exists>e. scan_loop f off d 0 n = (Inl e, f')"
proof -
  obtain p ps' where ps: "ps = p # ps'" using assms(4) by (cases ps) (auto simp: doc_ok_def)
  let ?fb = "frame_bytes (frame_hdr d 0 (ps' = [])) p"
  have p: "length p \<le> MaxFramePayload" using assms(4) ps by (simp add: doc_ok_def)
  show ?thesis
  proof (cases "c < length ?fb")
    case True
    then have "rest f = take c ?fb" using assms(2) ps by simp
    from ReadFrame_torn [OF assms(1) this p True] show ?thesis
      using True ps by (auto simp: length_frame_bytes)
  next
    case False
    then have ps': "ps' \<noteq> []" and c: "c - length ?fb < length (frames_from d 1 ps')"
      using assms(3) ps by auto
    have r: "rest f = ?fb @ take (c - length ?fb) (frames_from d 1 ps')" using assms(2) False ps by simp
    let ?f1 = "f\<lparr>fpos := fpos f + length ?fb\<rparr>"
    have "scan_loop f off d 0 n = scan_loop ?f1 (off + length ?fb) d 1 n"
      using scan_loop_frame [OF assms(1) r p] ps' by (simp add: Let_def)
    moreover have "\<exists>e f'. scan_loop ?f1 (off + length ?fb) d 1 n = (Inl e, f')"
      by (rule scan_loop_torn_later [of _ "c - length ?fb" _ _ ps'])
        (use assms(1,4) ps c rest_advance [OF r] in \<open>auto simp: doc_ok_def\<close>)
    ultimately show ?thesis using False ps by (auto simp: length_frame_bytes)
  qed
qed

section \<open>The contract the append operations share\<close>

text \<open>
  A session of append attempts: each failed one is rolled back; the result is the list of the
  attempts that succeeded, or nothing when a rollback failed.
\<close>

fun append_session ::
  "('a \<Rightarrow> 'w \<Rightarrow> ('e + 'r) \<times> 'w) \<Rightarrow> ('w \<Rightarrow> nat) \<Rightarrow> (int \<Rightarrow> 'w \<Rightarrow> 'f option \<times> 'w) \<Rightarrow>
   'a list \<Rightarrow> 'w \<Rightarrow> ('a list \<times> 'w) option" where
  "append_session app offset rollback [] w = Some ([], w)"
| "append_session app offset rollback (a # as) w =
     (case app a w of
        (Inr r, w') \<Rightarrow> map_option (\<lambda>(oks, w''). (a # oks, w'')) (append_session app offset rollback as w')
      | (Inl e, w') \<Rightarrow> (case rollback (int (offset w)) w' of (None, w'') \<Rightarrow> append_session app offset rollback as w'' | (Some _, _) \<Rightarrow> None))"

text \<open>
  A log of Documents: an append that reports success adds the Document it was given, and after one
  that reports a failure a rollback to the offset the log had before restores its contents.
\<close>

locale append_log =
  fixes holds :: "'w \<Rightarrow> 'd list \<Rightarrow> bool"
    and admissible :: "'a \<Rightarrow> bool"
    and document :: "'a \<Rightarrow> 'd"
    and app :: "'a \<Rightarrow> 'w \<Rightarrow> ('e + 'r) \<times> 'w"
    and offset :: "'w \<Rightarrow> nat"
    and rollback :: "int \<Rightarrow> 'w \<Rightarrow> 'f option \<times> 'w"
  assumes append_success: "holds w ds \<Longrightarrow> admissible a \<Longrightarrow> app a w = (Inr r, w') \<Longrightarrow> holds w' (ds @ [document a])"
    and append_failure: "holds w ds \<Longrightarrow> app a w = (Inl e, w') \<Longrightarrow>
      rollback (int (offset w)) w' = (None, w'') \<Longrightarrow> holds w'' ds"
begin

lemma session_holds:
  "append_session app offset rollback as w = Some (oks, w') \<Longrightarrow> holds w ds \<Longrightarrow> \<forall>a\<in>set as. admissible a \<Longrightarrow>
   holds w' (ds @ map document oks)"
proof (induction as arbitrary: w oks ds)
  case (Cons a as)
  obtain res w1 where a: "app a w = (res, w1)" by (cases "app a w")
  show ?case
  proof (cases res)
    case (Inr r)
    then obtain oks' where s: "append_session app offset rollback as w1 = Some (oks', w')" "oks = a # oks'"
      using Cons.prems(1) a by auto
    have "holds w1 (ds @ [document a])" using append_success a Inr Cons.prems by auto
    from Cons.IH [OF s(1) this] show ?thesis using Cons.prems(3) s(2) by simp
  next
    case (Inl e)
    then obtain w2 where r: "rollback (int (offset w)) w1 = (None, w2)" and s: "append_session app offset rollback as w2 = Some (oks, w')"
      using Cons.prems(1) a by (auto split: prod.splits option.splits)
    have "holds w2 ds" using append_failure a Inl r Cons.prems(2) by blast
    then show ?thesis using Cons.IH [OF s] Cons.prems(3) by simp
  qed
qed simp

end

lemma rollback_holds:
  assumes "writer_holds t w ds" and "grown (fdata (wfile w)) w' \<and> same_ids w w'"
    and "Writer_Truncate (int (woffset w)) w' = (None, w'')"
  shows "writer_holds t w'' ds"
  using Writer_Truncate_restores [of "fdata (wfile w)" w' w'' t ds] assms
  by (auto simp: writer_holds_def same_ids_def)

lemma holds_grown: "writer_holds t w ds \<Longrightarrow> grown (fdata (wfile w)) w"
  by (simp add: synced_grown writer_holds_synced)

definition body_admissible :: "osfile \<Rightarrow> bool" where
  "body_admissible body \<longleftrightarrow> length (rest body) \<le> 2 ^ 48 - 2 ^ 16"

interpretation stream_log: append_log "writer_holds t" body_admissible "\<lambda>body. chunks (rest body)"
  AppendDocument woffset Writer_Truncate
proof
  show "writer_holds t w' (ds @ [chunks (rest body)])"
    if "writer_holds t w ds" "body_admissible body" "AppendDocument body w = (Inr r, w')" for w ds body r w'
    using that AppendDocument_holds by (auto simp: body_admissible_def)
  show "writer_holds t w'' ds"
    if "writer_holds t w ds" "AppendDocument body w = (Inl e, w')"
      "Writer_Truncate (int (woffset w)) w' = (None, w'')" for w ds body e w' w''
    using that by (metis rollback_holds AppendDocument_grown holds_grown)
qed

interpretation prepared_log: append_log "writer_holds t" "\<lambda>fr. length (dfPayloads fr) < 2 ^ 32" dfPayloads
  AppendDocumentFrames woffset Writer_Truncate
proof
  show "writer_holds t w' (ds @ [dfPayloads fr])"
    if "writer_holds t w ds" "length (dfPayloads fr) < 2 ^ 32" "AppendDocumentFrames fr w = (Inr r, w')"
    for w ds fr r w'
    using that AppendDocumentFrames_holds by blast
  show "writer_holds t w'' ds"
    if "writer_holds t w ds" "AppendDocumentFrames fr w = (Inl e, w')"
      "Writer_Truncate (int (woffset w)) w' = (None, w'')" for w ds fr e w' w''
    using that by (metis rollback_holds AppendDocumentFrames_grown holds_grown)
qed

interpretation source_log: append_log "writer_holds t" "\<lambda>src. length src < 2 ^ 32" source_payloads
  AppendDocumentFrameSource woffset Writer_Truncate
proof
  show "writer_holds t w' (ds @ [source_payloads src])"
    if "writer_holds t w ds" "length src < 2 ^ 32" "AppendDocumentFrameSource src w = (Inr r, w')"
    for w ds src r w'
    using that AppendDocumentFrameSource_holds by (cases r) blast
  show "writer_holds t w'' ds"
    if "writer_holds t w ds" "AppendDocumentFrameSource src w = (Inl e, w')"
      "Writer_Truncate (int (woffset w)) w' = (None, w'')" for w ds src e w' w''
    using that by (metis rollback_holds AppendDocumentFrameSource_grown holds_grown)
qed


section \<open>Appends on a device without faults\<close>

lemma write_doc_frame_quiet:
  assumes "fsched (wfile w) = []" and "length p \<le> MaxFramePayload"
  shows "\<exists>w'. write_doc_frame q l p w = (None, w') \<and> fsched (wfile w') = []"
  using assms by (auto simp: write_doc_frame_def WriteFrame_def)

lemma io_ReadFull_fsched: "fsched f = [] \<Longrightarrow> io_ReadFull n f = ((got, err), f') \<Longrightarrow> fsched f' = [] \<and> err \<noteq> Some IOError"
  by (auto simp: io_ReadFull_def Let_def split: if_splits)

lemma doc_frames_loop_total:
  assumes "fsched (wfile w) = []" and "fsched body = []" and "read_state cur curErr body" and "curErr \<noteq> Some IOError"
  shows "\<exists>r w'. doc_frames_loop cur curErr body q sz hashed w = (Inr r, w') \<and> fsched (wfile w') = []"
  using assms
proof (induction cur curErr body q sz hashed w rule: doc_frames_loop.induct)
  case (1 cur curErr body q sz hashed w)
  have ne: "\<not> (curErr \<noteq> None \<and> \<not> isBodyEOF curErr)"
    using 1(5) by (auto simp: isBodyEOF_def) (metis read_err.exhaust)
  show ?case
  proof (cases "cur = []")
    case True
    then show ?thesis using ne 1(2) by (subst doc_frames_loop.simps) auto
  next
    case False
    obtain nxt nextErr body1 where
      n: "(if curErr = None then io_ReadFull MaxFramePayload body else (([], None), body)) = ((nxt, nextErr), body1)"
      by (metis surj_pair)
    have st: "read_state nxt nextErr body1" "fsched body1 = []" "nextErr \<noteq> Some IOError"
      using n 1(3,4,5) read_state_ReadFull io_ReadFull_fsched
      by (auto simp: read_state_def split: if_splits option.splits)
    obtain w1 where wf: "write_doc_frame q (isBodyEOF curErr \<or> length nxt = 0) cur w = (None, w1)"
      and w1: "fsched (wfile w1) = []"
      using write_doc_frame_quiet [OF 1(2), of cur q "isBodyEOF curErr \<or> length nxt = 0"] 1(4)
      by (auto simp: read_state_def)
    have "doc_frames_loop cur curErr body q sz hashed w =
      doc_frames_loop nxt nextErr body1 (q + 1) (sz + int (length cur)) (hashed @ cur) w1"
      using ne False n wf by (subst doc_frames_loop.simps) auto
    then show ?thesis
      using 1(1) [OF ne _ n [symmetric] refl wf [symmetric] refl w1] False st by simp
  qed
qed

lemma of_nat_u32_nonzero: "0 < n \<Longrightarrow> n < 2 ^ 32 \<Longrightarrow> (of_nat n :: u32) \<noteq> 0"
  by (auto simp: word_of_nat_eq_0_iff dest: dvd_imp_le)


lemma AppendDocument_total:
  assumes "writer_holds t w ds" and "fsched (wfile w) = []" and "fsched body = []"
    and "rest body \<noteq> []" and "length (rest body) \<le> 2 ^ 48 - 2 ^ 16"
  shows "\<exists>res w'. AppendDocument body w = (Inr res, w') \<and> fsched (wfile w') = []"
proof -
  obtain cur err body1 where r: "io_ReadFull MaxFramePayload body = ((cur, err), body1)"
    by (cases "io_ReadFull MaxFramePayload body") auto
  obtain q sz hashed w1 where l: "doc_frames_loop cur err body1 0 0 [] w = (Inr (q, sz, hashed), w1)"
    and w1: "fsched (wfile w1) = []"
    using doc_frames_loop_total [OF assms(2) _ read_state_ReadFull [OF r]] io_ReadFull_fsched [OF assms(3) r] by fastforce
  have b: "cur @ rest body1 = rest body" using io_ReadFull_rest [OF r] by simp
  have "q = of_nat (length (chunks (rest body)))"
    using doc_frames_loop_ok [OF l writer_holds_synced [OF assms(1)] read_state_ReadFull [OF r], unfolded b] by simp
  moreover have "0 < length (chunks (rest body))" "length (chunks (rest body)) < 2 ^ 32"
    using chunks_doc_ok [OF assms(4,5)] by (simp_all add: doc_ok_def)
  ultimately have "q \<noteq> 0" using of_nat_u32_nonzero by simp
  then show ?thesis
    using assms(1) r l w1
    by (simp add: AppendDocument_def writeDocFrames_def writer_holds_def finish_document_def)
qed

section \<open>Properties\<close>

text \<open>
  C1: \<open>AppendDocument\<close> refines appending to the list of Documents. Whenever it reports success, on a
  device and from a body reader with any fault schedules, the Block holds exactly the old
  Documents and then the body cut into Frames of at most 64 KiB, and the result carries the
  SHA-256, the size, the number of Frames and the offset of the body that was stored.
\<close>

theorem append_document_refines:
  assumes "writer_holds t w ds" and "body_admissible body" and "AppendDocument body w = (Inr res, w')"
  shows "writer_holds t w' (ds @ [chunks (rest body)]) \<and> concat (chunks (rest body)) = rest body \<and>
    res = \<lparr>resSHA256 = sha256 (rest body), resSize = int (length (rest body)),
           resFrameCount = of_nat (length (chunks (rest body))),
           resFirstFrameOffset = length (block_bytes (wshardID w) (wblockID w) t ds)\<rparr>"
  using AppendDocument_holds [OF assms(3,1)] assms(1,2)
  by (auto simp: body_admissible_def concat_chunks writer_holds_def)

definition sample_writer :: Writer where
  "sample_writer = \<lparr>wfile = \<lparr>fdata = block_bytes 7 9 0 [], fpos = 40, fsched = []\<rparr>, wshardID = 7, wblockID = 9,
     woffset = 40, wdocSeq = 0, wdocCount = 0, wclosed = False\<rparr>"

definition body_reader :: "bytes \<Rightarrow> osfile" where
  "body_reader bs = \<lparr>fdata = bs, fpos = 0, fsched = []\<rparr>"

lemma sample_writer_holds: "writer_holds 0 sample_writer []"
  by (simp add: writer_holds_def sample_writer_def block_bytes_def at_end_def)

lemma body_reader_simps [simp]: "rest (body_reader bs) = bs" "fsched (body_reader bs) = []"
  by (simp_all add: body_reader_def rest_def)

theorem append_document_refines_witness:
  "\<exists>res w'. AppendDocument (body_reader [1, 2, 3]) sample_writer = (Inr res, w') \<and>
     writer_holds 0 w' ([] @ [chunks [1, 2, 3]]) \<and> resSize res = 3"
proof -
  obtain res w' where a: "AppendDocument (body_reader [1, 2, 3]) sample_writer = (Inr res, w')"
    using AppendDocument_total [OF sample_writer_holds, of "body_reader [1, 2, 3]"]
    by (auto simp: sample_writer_def)
  from append_document_refines [OF sample_writer_holds _ this] a show ?thesis
    by (simp add: body_admissible_def)
qed

text \<open>
  C36: on a device and a body reader without faults, \<open>AppendDocument\<close> of any non-empty body succeeds,
  however its length relates to the Frame size: the read-ahead loop ends and its last Frame is
  the one that is flagged.
\<close>

theorem append_document_total:
  assumes "writer_holds t w ds" and "fsched (wfile w) = []"
    and "bs \<noteq> []" and "length bs \<le> 2 ^ 48 - 2 ^ 16"
  shows "\<exists>res w'. AppendDocument (body_reader bs) w = (Inr res, w') \<and> writer_holds t w' (ds @ [chunks bs])"
proof -
  obtain res w' where a: "AppendDocument (body_reader bs) w = (Inr res, w')"
    using AppendDocument_total [OF assms(1,2), of "body_reader bs"] assms(3,4) by auto
  then show ?thesis using AppendDocument_holds [OF a assms(1)] assms(4) by auto
qed

theorem append_document_total_witness:
  "\<exists>res w'. AppendDocument (body_reader [5]) sample_writer = (Inr res, w') \<and> writer_holds 0 w' ([] @ [chunks [5]])"
  using append_document_total [OF sample_writer_holds, of "[5]"] by (simp add: sample_writer_def)

text \<open>
  C11: a session of appends with rollbacks. Each append may fail at any I/O call, after any number of
  bytes; after a failed one \<open>Truncate\<close> goes back to the offset the writer had before. As long as the
  truncations succeed, the Block ends up with exactly the Documents whose append reported success,
  in order, and the writer's offset and counters agree with it.
\<close>

theorem append_rollback_session:
  assumes "writer_holds t w ds" and "\<forall>body\<in>set bodies. body_admissible body"
    and "append_session AppendDocument woffset Writer_Truncate bodies w = Some (oks, w')"
  shows "writer_holds t w' (ds @ map (\<lambda>body. chunks (rest body)) oks)"
  by (rule stream_log.session_holds [OF assms(3,1,2)])

theorem append_rollback_session_witness:
  "\<exists>oks w'. append_session AppendDocument woffset Writer_Truncate [body_reader []] sample_writer = Some (oks, w')
     \<and> writer_holds 0 w' ([] @ map (\<lambda>body. chunks (rest body)) oks)"
proof -
  have "AppendDocument (body_reader []) sample_writer = (Inl ErrEmptyBody, sample_writer)"
    by (simp add: AppendDocument_def writeDocFrames_def io_ReadFull_eof MaxFramePayload_def sample_writer_def
        doc_frames_loop.simps [of "[]"] isBodyEOF_def)
  moreover obtain w' where "Writer_Truncate (int (woffset sample_writer)) sample_writer = (None, w')"
    using scanWriterState_block [of _ 7 9 0 "[]"]
    by (auto simp: Writer_Truncate_def sample_writer_def HeaderSize_def block_bytes_def)
  ultimately have "append_session AppendDocument woffset Writer_Truncate [body_reader []] sample_writer = Some ([], w')"
    by simp
  from append_rollback_session [OF sample_writer_holds _ this] this show ?thesis
    by (auto simp: body_admissible_def)
qed

text \<open>
  C27: \<open>OpenWriter\<close> on a Block file succeeds on a device without faults, and whenever it succeeds, on any
  device, the writer it returns is positioned at the end of the file with the sequence number and
  count of the Documents in it, so that appending can continue.
\<close>

theorem open_writer_recovers:
  assumes "\<forall>d\<in>set ds. doc_ok d"
  shows "(\<exists>w. OpenWriter (block_bytes s b t ds) [] [] s b = Inr w) \<and>
    (\<forall>sched1 sched2 w. OpenWriter (block_bytes s b t ds) sched1 sched2 s b = Inr w \<longrightarrow> writer_holds t w ds)"
  using OpenWriter_quiet_ok [OF assms] OpenWriter_any [OF _ assms] by blast

theorem open_writer_recovers_witness:
  "\<exists>w. OpenWriter (block_bytes 7 9 0 [[[1, 2], [3]]]) [] [] 7 9 = Inr w \<and> writer_holds 0 w [[[1, 2], [3]]]"
proof -
  have "\<forall>d\<in>set [[[1, 2], [3]]]. doc_ok d" by (simp add: doc_ok_def MaxFramePayload_def)
  from open_writer_recovers [OF this, of 7 9 0] show ?thesis by blast
qed

text \<open>
  C31: a Block whose last Document was torn at any byte. \<open>OpenWriter\<close> never counts the partial Document:
  it fails, except when the cut left nothing of the Document or exactly its first Frame header,
  in which case the writer is positioned at the end of the complete Documents.
\<close>

theorem open_writer_torn:
  assumes "\<forall>x\<in>set ds. doc_ok x" and "doc_ok d" and "c < length (frames_from (of_nat (length ds)) 0 d)"
  shows "case OpenWriter (block_bytes s b t ds @ take c (frames_from (of_nat (length ds)) 0 d)) [] [] s b of
      Inl e \<Rightarrow> \<not> (c = 0 \<or> c = 32 \<and> hd d \<noteq> [])
    | Inr w \<Rightarrow> (c = 0 \<or> c = 32 \<and> hd d \<noteq> []) \<and> woffset w = length (block_bytes s b t ds) \<and>
        wdocSeq w = of_nat (length ds) \<and> wdocCount w = of_nat (length ds)"
proof -
  let ?tail = "take c (frames_from (of_nat (length ds)) 0 d)"
  let ?f = "\<lparr>fdata = block_bytes s b t ds @ ?tail, fpos = 0, fsched = []\<rparr>"
  have v: "VerifyHeader (block_bytes s b t ds @ ?tail) [] s b = None"
    by (simp add: block_bytes_def VerifyHeader_block)
  let ?f1 = "?f\<lparr>fpos := length (block_bytes s b t ds)\<rparr>"
  have sc: "scanWriterState ?f = scan_loop ?f1 (length (block_bytes s b t ds)) (of_nat (length ds)) 0 (of_nat (length ds))"
    by (rule scanWriterState_documents [OF _ _ assms(1), of _ s b t ?tail]) simp_all
  have "fsched ?f1 = []" "rest ?f1 = ?tail" by (simp_all add: rest_def)
  from scan_loop_torn [OF this assms(3,2), of "length (block_bytes s b t ds)" "of_nat (length ds)", folded sc]
  obtain f' where f': "if c = 0 \<or> c = 32 \<and> hd d \<noteq> []
    then scanWriterState ?f = (Inr (length (block_bytes s b t ds), of_nat (length ds), of_nat (length ds)), f')
    else \<exists>e. scanWriterState ?f = (Inl e, f')" by blast
  show ?thesis
  proof (cases "c = 0 \<or> c = 32 \<and> hd d \<noteq> []")
    case True
    then have s: "scanWriterState ?f = (Inr (length (block_bytes s b t ds), of_nat (length ds), of_nat (length ds)), f')"
      using f' by simp
    have "fsched f' = []" using scanWriterState_quiet [OF s] s by (simp add: quiet_def) (metis osfile.select_convs(3) osfile.simps(8) quiet_def quiet_sel(3))
    then show ?thesis using True v s by (simp add: OpenWriter_def file_Open_def)
  next
    case False
    then show ?thesis using f' v by (auto simp: OpenWriter_def file_Open_def)
  qed
qed

theorem open_writer_torn_witness:
  "\<exists>w. OpenWriter (block_bytes 7 9 0 [] @ take 32 (frames_from 0 0 [[1, 2, 3]])) [] [] 7 9 = Inr w \<and> woffset w = 40"
  using open_writer_torn [of "[]" "[[1, 2, 3]]" 32 7 9 0]
  by (auto simp: doc_ok_def MaxFramePayload_def length_frame_bytes block_bytes_def split: sum.splits)

end
