(* ===== verification/Block_Reader.thy ===== *)
theory Block_Reader
  imports Block_Document
begin

text \<open>
  \<open>internal/block/reader.go\<close>: reading one Document of a Block through its index entry, either as a
  verified plaintext or as its stored Frame payloads.
\<close>

section \<open>Operations\<close>

datatype reader_err =
    ErrEncryptedEntry
  | ErrReaderHeader hdr_err
  | ErrReaderOpen
  | ErrReaderSeek
  | ErrReaderFrame nat frame_err
  | ErrFrameSequence nat
  | ErrSHA256Mismatch
  | ErrReaderEOF
  | MakeSlicePanic

definition validateReadFrameSequence :: "FrameHeader \<Rightarrow> u32 \<Rightarrow> bool" where
  "validateReadFrameSequence hdr frameSeq \<longleftrightarrow> FrameSeq hdr = frameSeq"

definition isZeroSHA256 :: "bytes \<Rightarrow> bool" where
  "isZeroSHA256 digest \<longleftrightarrow> digest = replicate 32 0"

text \<open>\<open>f.Seek(off, io.SeekStart)\<close> with a signed offset: a negative one is refused by the system.\<close>

definition seek_start :: "int \<Rightarrow> osfile \<Rightarrow> bool \<times> osfile" where
  "seek_start off f = (if off < 0 then (False, f) else file_Seek (nat off) f)"

text \<open>The loop both Document readers share: \<open>n\<close> more Frames, the next one number \<open>i\<close>.\<close>

primrec read_doc_frames :: "nat \<Rightarrow> nat \<Rightarrow> osfile \<Rightarrow> reader_err + document" where
  "read_doc_frames 0 i f = Inr []"
| "read_doc_frames (Suc n) i f =
     (case ReadFrame f of
        (Inl e, _) \<Rightarrow> Inl (ErrReaderFrame i e)
      | (Inr (hdr, payload), f1) \<Rightarrow>
          if \<not> validateReadFrameSequence hdr (of_nat i) then Inl (ErrFrameSequence i)
          else (case read_doc_frames n (i + 1) f1 of Inl e \<Rightarrow> Inl e | Inr ps \<Rightarrow> Inr (payload # ps)))"

definition ReadDocumentFrames :: "bytes \<Rightarrow> io_outcome list \<Rightarrow> IndexEntry \<Rightarrow> reader_err + document" where
  "ReadDocumentFrames content sched entry =
     (case file_Open content sched of (ok, f) \<Rightarrow>
        if \<not> ok then Inl ErrReaderOpen
        else case seek_start (FirstFrameOff entry) f of (ok1, f1) \<Rightarrow>
          if \<not> ok1 then Inl ErrReaderSeek
          else read_doc_frames (unat (FrameCount entry)) 0 f1)"

text \<open>
  \<open>verifyAndSpool\<close>. The capacity of the spool is the entry's size field; the allocation panics when
  it is negative or beyond the address space.
\<close>

definition makeslice_ok :: "int \<Rightarrow> bool" where
  "makeslice_ok n \<longleftrightarrow> 0 \<le> n \<and> n \<le> 2 ^ 48"

definition verifyAndSpool :: "bytes \<Rightarrow> io_outcome list \<Rightarrow> IndexEntry \<Rightarrow> reader_err + bytes" where
  "verifyAndSpool content sched entry =
     (case file_Open content sched of (ok, f) \<Rightarrow>
        if \<not> ok then Inl ErrReaderOpen
        else case seek_start (FirstFrameOff entry) f of (ok1, f1) \<Rightarrow>
          if \<not> ok1 then Inl ErrReaderSeek
          else if isZeroSHA256 (SHA256 entry) then Inl ErrSHA256Mismatch
          else if \<not> makeslice_ok (TotalBytes entry) then Inl MakeSlicePanic
          else case read_doc_frames (unat (FrameCount entry)) 0 f1 of
            Inl e \<Rightarrow> Inl e
          | Inr ps \<Rightarrow> (let spool = concat ps in
              if sha256 spool \<noteq> SHA256 entry then Inl ErrSHA256Mismatch else Inr spool))"

definition ReadDocumentTwoPass :: "bytes \<Rightarrow> io_outcome list \<Rightarrow> IndexEntry \<Rightarrow> reader_err + bytes" where
  "ReadDocumentTwoPass content sched entry =
     (if length (EncryptionEnvelope entry) > 0 then Inl ErrEncryptedEntry else verifyAndSpool content sched entry)"

definition ReadDocument :: "bytes \<Rightarrow> io_outcome list \<Rightarrow> IndexEntry \<Rightarrow> reader_err + bytes" where
  "ReadDocument = ReadDocumentTwoPass"

definition ReadDocumentFromBlock ::
  "bytes \<Rightarrow> io_outcome list \<Rightarrow> io_outcome list \<Rightarrow> u64 \<Rightarrow> u64 \<Rightarrow> IndexEntry \<Rightarrow> reader_err + bytes" where
  "ReadDocumentFromBlock content sched1 sched2 shardID blockID entry =
     (case VerifyHeader content sched1 shardID blockID of
        Some e \<Rightarrow> Inl (ErrReaderHeader e)
      | None \<Rightarrow> ReadDocumentTwoPass content sched2 entry)"

definition ReadDocumentFramesFromBlock ::
  "bytes \<Rightarrow> io_outcome list \<Rightarrow> io_outcome list \<Rightarrow> u64 \<Rightarrow> u64 \<Rightarrow> IndexEntry \<Rightarrow> reader_err + document" where
  "ReadDocumentFramesFromBlock content sched1 sched2 shardID blockID entry =
     (case VerifyHeader content sched1 shardID blockID of
        Some e \<Rightarrow> Inl (ErrReaderHeader e)
      | None \<Rightarrow> ReadDocumentFrames content sched2 entry)"

record StoredFrameSource =
  sfFile :: osfile
  sfEntry :: IndexEntry
  sfFrameIdx :: u32

definition OpenDocumentFrameSource ::
  "bytes \<Rightarrow> io_outcome list \<Rightarrow> io_outcome list \<Rightarrow> u64 \<Rightarrow> u64 \<Rightarrow> IndexEntry \<Rightarrow> reader_err + StoredFrameSource" where
  "OpenDocumentFrameSource content sched1 sched2 shardID blockID entry =
     (case VerifyHeader content sched1 shardID blockID of
        Some e \<Rightarrow> Inl (ErrReaderHeader e)
      | None \<Rightarrow>
          (case file_Open content sched2 of (ok, f) \<Rightarrow>
             if \<not> ok then Inl ErrReaderOpen
             else case seek_start (FirstFrameOff entry) f of (ok1, f1) \<Rightarrow>
               if \<not> ok1 then Inl ErrReaderSeek
               else Inr \<lparr>sfFile = f1, sfEntry = entry, sfFrameIdx = 0\<rparr>))"

definition NextFrame :: "StoredFrameSource \<Rightarrow> (reader_err + bytes) \<times> StoredFrameSource" where
  "NextFrame s =
     (if sfFrameIdx s = FrameCount (sfEntry s) then (Inl ErrReaderEOF, s)
      else case ReadFrame (sfFile s) of
        (Inl e, f1) \<Rightarrow> (Inl (ErrReaderFrame (unat (sfFrameIdx s)) e), s\<lparr>sfFile := f1\<rparr>)
      | (Inr (hdr, payload), f1) \<Rightarrow>
          if \<not> validateReadFrameSequence hdr (sfFrameIdx s)
          then (Inl (ErrFrameSequence (unat (sfFrameIdx s))), s\<lparr>sfFile := f1\<rparr>)
          else (Inr payload, s\<lparr>sfFile := f1, sfFrameIdx := sfFrameIdx s + 1\<rparr>))"

text \<open>Calling \<open>NextFrame\<close> until it reports the end of the Document; \<open>fuel\<close> bounds the calls.\<close>

primrec drain_frames :: "nat \<Rightarrow> StoredFrameSource \<Rightarrow> reader_err + document" where
  "drain_frames 0 s = Inr []"
| "drain_frames (Suc fuel) s =
     (case NextFrame s of
        (Inl e, _) \<Rightarrow> if e = ErrReaderEOF then Inr [] else Inl e
      | (Inr p, s1) \<Rightarrow> (case drain_frames fuel s1 of Inl e \<Rightarrow> Inl e | Inr ps \<Rightarrow> Inr (p # ps)))"

section \<open>Reading what was written\<close>

lemma read_doc_frames_document:
  assumes "fsched f = []" and "rest f = frames_from d (of_nat i) ps @ tail"
    and "\<forall>p\<in>set ps. length p \<le> MaxFramePayload"
  shows "read_doc_frames (length ps) i f = Inr ps"
  using assms
proof (induction ps arbitrary: i f)
  case (Cons p ps)
  let ?h = "frame_hdr d (of_nat i) (ps = [])"
  have r: "rest f = frame_bytes ?h p @ (frames_from d (of_nat (i + 1)) ps @ tail)"
    using Cons.prems(2) by (simp add: add.commute)
  let ?f1 = "f\<lparr>fpos := fpos f + length (frame_bytes ?h p)\<rparr>"
  have rf: "ReadFrame f = (Inr (sealed_header ?h p, p), ?f1)"
    using ReadFrame_frame_bytes [OF Cons.prems(1) r] Cons.prems(3) by simp
  have "read_doc_frames (length ps) (i + 1) ?f1 = Inr ps"
    by (rule Cons.IH) (use Cons.prems rest_advance [OF r] in simp_all)
  then show ?case by (simp add: rf validateReadFrameSequence_def frame_hdr_def)
qed simp

text \<open>The offset at which the Document number \<open>k\<close> of a Block starts.\<close>

definition doc_offset :: "u64 \<Rightarrow> u64 \<Rightarrow> u64 \<Rightarrow> document list \<Rightarrow> nat \<Rightarrow> nat" where
  "doc_offset s b t ds k = length (block_bytes s b t (take k ds))"

lemma block_bytes_split:
  assumes "k < length ds"
  shows "drop (doc_offset s b t ds k) (block_bytes s b t ds) =
    frames_from (of_nat k) 0 (ds ! k) @ docs_from (of_nat k + 1) (drop (Suc k) ds)"
proof -
  have ds: "ds = take k ds @ ds ! k # drop (Suc k) ds" by (rule id_take_nth_drop [OF assms])
  have "block_bytes s b t ds = block_bytes s b t (take k ds) @
      frames_from (of_nat k) 0 (ds ! k) @ docs_from (of_nat k + 1) (drop (Suc k) ds)"
    by (subst ds) (use assms in \<open>simp add: block_bytes_def docs_from_append min_def\<close>)
  then show ?thesis by (simp add: doc_offset_def)
qed

text \<open>An index entry that describes the Document number \<open>k\<close> of a Block.\<close>

definition entry_locates :: "u64 \<Rightarrow> u64 \<Rightarrow> u64 \<Rightarrow> document list \<Rightarrow> nat \<Rightarrow> IndexEntry \<Rightarrow> bool" where
  "entry_locates s b t ds k e \<longleftrightarrow> k < length ds \<and> FirstFrameOff e = int (doc_offset s b t ds k)
     \<and> FrameCount e = of_nat (length (ds ! k))"

lemma read_located:
  assumes "\<forall>x\<in>set ds. doc_ok x" and "entry_locates s b t ds k e" and "fsched f = []"
    and "rest f = frames_from (of_nat k) 0 (ds ! k) @ tail"
  shows "read_doc_frames (unat (FrameCount e)) 0 f = Inr (ds ! k)"
proof -
  have ok: "doc_ok (ds ! k)" using assms(1,2) by (auto simp: entry_locates_def)
  then have "unat (FrameCount e) = length (ds ! k)"
    using assms(2) by (simp add: entry_locates_def doc_ok_def unat_of_nat)
  then show ?thesis
    using read_doc_frames_document [of f "of_nat k" 0 "ds ! k" tail] assms(3,4) ok
    by (simp add: doc_ok_def)
qed

lemma located_position:
  assumes "entry_locates s b t ds k e"
  shows "\<exists>f tail. seek_start (FirstFrameOff e) \<lparr>fdata = block_bytes s b t ds @ later, fpos = 0, fsched = []\<rparr> = (True, f)
    \<and> fsched f = [] \<and> rest f = frames_from (of_nat k) 0 (ds ! k) @ tail"
proof -
  have "doc_offset s b t ds k \<le> length (block_bytes s b t ds)"
    using assms by (simp add: doc_offset_def block_bytes_def entry_locates_def)
      (metis append_take_drop_id docs_from_append le_add1 length_append)
  then show ?thesis
    using assms block_bytes_split [of k ds s b t]
    by (simp add: seek_start_def entry_locates_def rest_def)
qed

lemma verifyAndSpool_located:
  assumes "\<forall>x\<in>set ds. doc_ok x" and "entry_locates s b t ds k e"
    and "SHA256 e = sha256 (concat (ds ! k))" and "makeslice_ok (TotalBytes e)"
  shows "verifyAndSpool (block_bytes s b t ds @ later) [] e =
    (if isZeroSHA256 (SHA256 e) then Inl ErrSHA256Mismatch else Inr (concat (ds ! k)))"
proof -
  obtain f tail where f: "seek_start (FirstFrameOff e) \<lparr>fdata = block_bytes s b t ds @ later, fpos = 0, fsched = []\<rparr> = (True, f)"
    "fsched f = []" "rest f = frames_from (of_nat k) 0 (ds ! k) @ tail"
    using located_position [OF assms(2)] by blast
  show ?thesis
    using f read_located [OF assms(1,2) f(2,3)] assms(3,4)
    by (simp add: verifyAndSpool_def file_Open_def Let_def)
qed

lemma ReadDocumentFrames_located:
  assumes "\<forall>x\<in>set ds. doc_ok x" and "entry_locates s b t ds k e"
  shows "ReadDocumentFrames (block_bytes s b t ds @ later) [] e = Inr (ds ! k)"
proof -
  obtain f tail where f: "seek_start (FirstFrameOff e) \<lparr>fdata = block_bytes s b t ds @ later, fpos = 0, fsched = []\<rparr> = (True, f)"
    "fsched f = []" "rest f = frames_from (of_nat k) 0 (ds ! k) @ tail"
    using located_position [OF assms(2)] by blast
  then show ?thesis
    using read_located [OF assms f(2,3)] by (simp add: ReadDocumentFrames_def file_Open_def)
qed

text \<open>The streaming reader delivers the same Frames as the one that reads them all.\<close>

lemma drain_read_doc_frames:
  assumes "unat (FrameCount (sfEntry s)) = i + n" and "sfFrameIdx s = of_nat i"
  shows "drain_frames (Suc n) s = read_doc_frames n i (sfFile s)"
  using assms
proof (induction n arbitrary: i s)
  case 0
  have "FrameCount (sfEntry s) = of_nat (unat (FrameCount (sfEntry s)))" by simp
  then have "sfFrameIdx s = FrameCount (sfEntry s)" using 0 by simp
  then show ?case by (simp add: NextFrame_def)
next
  case (Suc n)
  have lt: "unat (FrameCount (sfEntry s)) < 2 ^ 32" using unsigned_less [of "FrameCount (sfEntry s)"] by simp
  then have i: "unat (of_nat i :: u32) = i" using Suc.prems(1) by (simp add: unat_of_nat)
  then have ne: "sfFrameIdx s \<noteq> FrameCount (sfEntry s)" using Suc.prems by auto
  show ?case
  proof (cases "ReadFrame (sfFile s)")
    case (Pair res f1)
    have IH: "drain_frames (Suc n) (s\<lparr>sfFile := f1, sfFrameIdx := of_nat i + 1\<rparr>) = read_doc_frames n (i + 1) f1"
      using Suc.IH [of "s\<lparr>sfFile := f1, sfFrameIdx := of_nat i + 1\<rparr>" "i + 1"] Suc.prems(1)
      by (simp add: add.commute)
    show ?thesis
      using Pair ne i Suc.prems(2) IH
      by (cases res) (auto simp: NextFrame_def simp del: drain_frames.simps(2) simp add: drain_frames.simps(2) [of "Suc n" s])
  qed
qed


section \<open>Reading damaged Frames\<close>

lemma read_doc_frames_damaged:
  assumes "fsched f = []" and "rest f = (frames_from d (of_nat i) ps)[j := v] @ tail"
    and "\<forall>p\<in>set ps. length p \<le> MaxFramePayload"
    and "j < length (frames_from d (of_nat i) ps)" and "v \<noteq> frames_from d (of_nat i) ps ! j"
  shows "\<exists>n e. read_doc_frames (length ps) i f = Inl (ErrReaderFrame n e) \<and> e \<in> {ErrHeaderCRC, ErrCRCMismatch}"
  using assms
proof (induction ps arbitrary: i f j)
  case (Cons p ps)
  let ?h = "frame_hdr d (of_nat i) (ps = [])"
  let ?fb = "frame_bytes ?h p" and ?fr = "frames_from d (of_nat (i + 1)) ps"
  have fr: "frames_from d (of_nat i) (p # ps) = ?fb @ ?fr" by (simp add: add.commute)
  show ?case
  proof (cases "j < length ?fb")
    case True
    then have r: "rest f = ?fb[j := v] @ (?fr @ tail)"
      using Cons.prems(2) unfolding fr by (simp add: list_update_append)
    have "fst (ReadFrame f) = Inl (if j < 32 then ErrHeaderCRC else ErrCRCMismatch)"
      by (rule ReadFrame_damaged [OF Cons.prems(1) r])
        (use True Cons.prems(3,5) in \<open>auto simp: nth_append\<close>)
    then show ?thesis by (cases "ReadFrame f") auto
  next
    case False
    then have r: "rest f = ?fb @ (?fr[j - length ?fb := v] @ tail)"
      using Cons.prems(2) unfolding fr by (simp add: list_update_append)
    let ?f1 = "f\<lparr>fpos := fpos f + length ?fb\<rparr>"
    have rf: "ReadFrame f = (Inr (sealed_header ?h p, p), ?f1)"
      using ReadFrame_frame_bytes [OF Cons.prems(1) r] Cons.prems(3) by simp
    have lt: "j - length ?fb < length ?fr" and ne: "v \<noteq> ?fr ! (j - length ?fb)"
      using Cons.prems(4,5) False unfolding fr by (auto simp: nth_append)
    have "\<exists>n e. read_doc_frames (length ps) (i + 1) ?f1 = Inl (ErrReaderFrame n e) \<and> e \<in> {ErrHeaderCRC, ErrCRCMismatch}"
      by (rule Cons.IH [of ?f1 "i + 1" "j - length ?fb"])
        (use Cons.prems(1,3) rest_advance [OF r] lt ne in simp_all)
    then show ?thesis by (auto simp: rf validateReadFrameSequence_def frame_hdr_def)
  qed
qed simp

section \<open>Properties\<close>

text \<open>
  C7: reading back. A Document appended by \<open>AppendDocument\<close>, on a device and from a body with any fault
  schedules, is returned byte for byte by \<open>ReadDocumentFromBlock\<close> through an index entry with the
  offset, Frame count, size and digest of the append's result, also after later appends. The
  one exception is a body whose SHA-256 is all zeros, which the reader takes for a missing digest.
\<close>

theorem append_then_read:
  assumes "writer_holds t w ds" and "body_admissible body" and "AppendDocument body w = (Inr res, w')"
    and "FirstFrameOff e = int (resFirstFrameOffset res)" and "FrameCount e = resFrameCount res"
    and "TotalBytes e = resSize res" and "SHA256 e = resSHA256 res" and "EncryptionEnvelope e = []"
  shows "ReadDocumentFromBlock (fdata (wfile w') @ later) [] [] (wshardID w') (wblockID w') e =
    (if isZeroSHA256 (sha256 (rest body)) then Inl ErrSHA256Mismatch else Inr (rest body))"
proof -
  let ?s = "wshardID w'" and ?b = "wblockID w'" and ?ds = "ds @ [chunks (rest body)]"
  have h: "writer_holds t w' ?ds" and len: "length (rest body) \<le> 2 ^ 48 - 2 ^ 16"
    and res: "res = \<lparr>resSHA256 = sha256 (rest body), resSize = int (length (rest body)),
           resFrameCount = of_nat (length (chunks (rest body))), resFirstFrameOffset = woffset w\<rparr>"
    using AppendDocument_holds [OF assms(3,1)] assms(2) by (auto simp: body_admissible_def)
  have fd: "fdata (wfile w') = block_bytes ?s ?b t ?ds" using h by (simp add: writer_holds_def)
  have ids: "wshardID w' = wshardID w \<and> wblockID w' = wblockID w"
    by (rule AppendDocument_ids [OF assms(3)])
  have loc: "entry_locates ?s ?b t ?ds (length ds) e"
    using assms(1,4,5) res ids by (simp add: entry_locates_def doc_offset_def writer_holds_def)
  have "verifyAndSpool (block_bytes ?s ?b t ?ds @ later) [] e =
      (if isZeroSHA256 (SHA256 e) then Inl ErrSHA256Mismatch else Inr (concat (?ds ! length ds)))"
    by (rule verifyAndSpool_located [OF _ loc])
      (use h assms(6,7) res len in \<open>auto simp: writer_holds_def concat_chunks makeslice_ok_def\<close>)
  then show ?thesis
    using assms(7,8) res
    by (simp add: ReadDocumentFromBlock_def ReadDocumentTwoPass_def fd concat_chunks VerifyHeader_block
        block_bytes_def)
qed

definition result_entry :: "AppendResult \<Rightarrow> IndexEntry" where
  "result_entry res = \<lparr>TransactionID = lit ''tx'', DocName = lit ''doc'', ContentType = [], CreatedAt = 0,
     FirstFrameOff = int (resFirstFrameOffset res), FrameCount = resFrameCount res, TotalBytes = resSize res,
     SHA256 = resSHA256 res, EncryptionEnvelope = []\<rparr>"

theorem append_then_read_witness:
  "\<exists>res w'. AppendDocument (body_reader [1, 2, 3]) sample_writer = (Inr res, w') \<and>
     ReadDocumentFromBlock (fdata (wfile w') @ [4]) [] [] (wshardID w') (wblockID w') (result_entry res) =
       (if isZeroSHA256 (sha256 [1, 2, 3]) then Inl ErrSHA256Mismatch else Inr [1, 2, 3])"
proof -
  obtain res w' where a: "AppendDocument (body_reader [1, 2, 3]) sample_writer = (Inr res, w')"
    using AppendDocument_total [OF sample_writer_holds, of "body_reader [1, 2, 3]"]
    by (auto simp: sample_writer_def)
  from append_then_read [OF sample_writer_holds _ a, of "result_entry res" "[4]"] a show ?thesis
    by (simp add: body_admissible_def result_entry_def)
qed





text \<open>
  The streaming reader agrees with the one that collects all Frames, on any file and any device:
  opening a frame source and calling \<open>NextFrame\<close> until it reports the end yields the same payloads or
  the same error, within one call more than the entry's Frame count.
\<close>

theorem frame_source_agrees:
  "(case OpenDocumentFrameSource content sched1 sched2 shardID blockID e of
      Inl err \<Rightarrow> Inl err
    | Inr src \<Rightarrow> drain_frames (Suc (unat (FrameCount e))) src) =
   ReadDocumentFramesFromBlock content sched1 sched2 shardID blockID e"
  by (simp add: OpenDocumentFrameSource_def ReadDocumentFramesFromBlock_def ReadDocumentFrames_def
      drain_read_doc_frames [where i = 0] split: option.splits prod.splits del: drain_frames.simps)

end
