(* ===== verification/Block_Verify.thy ===== *)
theory Block_Verify
  imports Block_Reader
begin

text \<open>
  \<open>internal/block/verify.go\<close>: the deep verification of a Block against its index, with the single
  bounded re-read of a Frame whose read failed at the I/O layer. The two fields of an encryption
  envelope the verifier decodes with \<open>encoding/json\<close> are a parameter of the model.
\<close>

section \<open>Reading Frames with a retry\<close>

datatype CorruptionType =
    CorruptionHeader
  | CorruptionFrameCRC
  | CorruptionDocSHA256
  | CorruptionDocCiphertextLength
  | CorruptionMissing

type_synonym CorruptFrame = "nat \<times> CorruptionType"

record VerifyResult =
  CorruptFrames :: "CorruptFrame list"
  FramesVerified :: u64
  TransientReadRetries :: u64

text \<open>The errors of \<open>readFrameRaw\<close>: end of file, an I/O fault (\<open>ErrVerifyRead\<close>), or a bad Frame.\<close>

datatype verify_err = VerifyEOF | ErrVerifyRead | VerifyBad frame_err

definition parseRawFrameHeader :: "bytes \<Rightarrow> verify_err + FrameHeader" where
  "parseRawFrameHeader buf =
     (if crc32c (slice 0 28 buf) \<noteq> get_u32 (slice 28 32 buf) then Inl (VerifyBad ErrHeaderCRC)
      else if get_u16 (slice 0 2 buf) \<noteq> frameMagic then Inl (VerifyBad ErrBadMagic)
      else if buf ! 2 \<noteq> frameVersion then Inl (VerifyBad ErrBadVersion)
      else if unat (get_u32 (slice 16 20 buf)) > MaxFramePayload then Inl (VerifyBad ErrPayloadLimit)
      else Inr \<lparr>Flags = buf ! 3, DocSeq = get_u32 (slice 8 12 buf), FrameSeq = get_u32 (slice 12 16 buf),
                PayloadLen = get_u32 (slice 16 20 buf), PayloadCRC = get_u32 (slice 20 24 buf)\<rparr>)"

definition readRawFramePayload :: "osfile \<Rightarrow> u32 \<Rightarrow> (verify_err + bytes) \<times> osfile" where
  "readRawFramePayload r payloadLen =
     (case io_ReadFull (unat payloadLen) r of ((payload, err), r1) \<Rightarrow>
        (case err of
           None \<Rightarrow> (Inr payload, r1)
         | Some e \<Rightarrow> (Inl (if e = EOF \<or> e = UnexpectedEOF then VerifyBad ErrTruncated else ErrVerifyRead), r1)))"

definition readFrameRaw :: "osfile \<Rightarrow> (verify_err + FrameHeader \<times> bytes) \<times> osfile" where
  "readFrameRaw r =
     (case io_ReadFull FrameHeaderSize r of ((buf, err), r1) \<Rightarrow>
        (case err of
           Some e \<Rightarrow> (Inl (if e = EOF \<or> e = UnexpectedEOF then VerifyEOF else ErrVerifyRead), r1)
         | None \<Rightarrow>
             (case parseRawFrameHeader buf of
                Inl e \<Rightarrow> (Inl e, r1)
              | Inr hdr \<Rightarrow>
                  (case readRawFramePayload r1 (PayloadLen hdr) of
                     (Inl e, r2) \<Rightarrow> (Inl e, r2)
                   | (Inr payload, r2) \<Rightarrow>
                       if crc32c payload \<noteq> PayloadCRC hdr then (Inl (VerifyBad ErrCRCMismatch), r2)
                       else (Inr (hdr, payload), r2)))))"

definition readFrameWithRetry :: "osfile \<Rightarrow> nat \<Rightarrow> u64 \<Rightarrow> (verify_err + FrameHeader \<times> bytes) \<times> osfile \<times> u64" where
  "readFrameWithRetry f offset retries =
     (case readFrameRaw f of (res, f1) \<Rightarrow>
        if res \<noteq> Inl ErrVerifyRead then (res, f1, retries)
        else case file_Seek offset f1 of (ok, f2) \<Rightarrow>
          if \<not> ok then (res, f2, retries)
          else case readFrameRaw f2 of (res2, f3) \<Rightarrow>
            (res2, f3, case res2 of Inr _ \<Rightarrow> retries + 1 | Inl _ \<Rightarrow> retries))"

lemma next_outcome_fsched: "next_outcome f = (oc, f') \<Longrightarrow> length (fsched f') \<le> length (fsched f)"
  by (auto simp: next_outcome_def split: list.splits)

lemma io_ReadFull_fsched_le:
  "io_ReadFull n f = ((got, err), f') \<Longrightarrow>
   length (fsched f') \<le> length (fsched f) \<and> (err = Some IOError \<longrightarrow> length (fsched f') < length (fsched f))"
  by (auto simp: io_ReadFull_def next_outcome_def Let_def
      split: if_splits list.splits io_outcome.splits prod.splits)

lemma file_Seek_fsched_le: "file_Seek p f = (ok, f') \<Longrightarrow> length (fsched f') \<le> length (fsched f)"
  by (auto simp: file_Seek_def split: prod.splits if_splits dest!: next_outcome_fsched)

lemma readFrameRaw_measure:
  assumes "readFrameRaw f = (res, f')"
  shows "length (fsched f') \<le> length (fsched f) \<and>
    (res = Inl ErrVerifyRead \<longrightarrow> length (fsched f') < length (fsched f)) \<and>
    (\<forall>x. res = Inr x \<longrightarrow> length (rest f') < length (rest f))"
proof -
  obtain buf err f1 where h: "io_ReadFull FrameHeaderSize f = ((buf, err), f1)"
    by (cases "io_ReadFull FrameHeaderSize f") auto
  note hl = io_ReadFull_fsched_le [OF h]
  show ?thesis
  proof (cases err)
    case (Some e)
    then show ?thesis using assms h hl by (cases e) (auto simp: readFrameRaw_def)
  next
    case None
    have lb: "length (rest f1) < length (rest f)"
      using io_ReadFull_rest [OF h] io_ReadFull_None_length [OF h [unfolded None]] by (simp add: FrameHeaderSize_def)
    show ?thesis
    proof (cases "parseRawFrameHeader buf")
      case (Inl e)
      then have "e \<noteq> ErrVerifyRead" by (auto simp: parseRawFrameHeader_def split: if_splits)
      then show ?thesis using assms h None Inl hl by (auto simp: readFrameRaw_def)
    next
      case (Inr hdr)
      obtain payload perr f2 where p: "io_ReadFull (unat (PayloadLen hdr)) f1 = ((payload, perr), f2)"
        by (cases "io_ReadFull (unat (PayloadLen hdr)) f1") auto
      note pl = io_ReadFull_fsched_le [OF p] and pr = io_ReadFull_rest [OF p]
      show ?thesis
      proof (cases perr)
        case None': None
        have "length (rest f2) < length (rest f)" using pr lb by simp
        moreover have "f' = f2" "res \<noteq> Inl ErrVerifyRead"
          using assms h None Inr p None' by (auto simp: readFrameRaw_def readRawFramePayload_def split: if_splits)
        ultimately show ?thesis using hl pl by auto
      next
        case (Some e)
        then have "f' = f2" "res = Inl (if e = EOF \<or> e = UnexpectedEOF then VerifyBad ErrTruncated else ErrVerifyRead)"
          using assms h None Inr p by (simp_all add: readFrameRaw_def readRawFramePayload_def)
        then show ?thesis using hl pl Some by (cases e) auto
      qed
    qed
  qed
qed

lemma readFrameWithRetry_measure:
  assumes "readFrameWithRetry f offset retries = (Inr x, f', retries')"
  shows "length (fsched f') < length (fsched f) \<or>
    length (fsched f') = length (fsched f) \<and> length (rest f') < length (rest f)"
proof -
  obtain res f1 where r: "readFrameRaw f = (res, f1)" by (cases "readFrameRaw f")
  note m = readFrameRaw_measure [OF r]
  show ?thesis
  proof (cases "res = Inl ErrVerifyRead")
    case True
    obtain f2 where s: "file_Seek offset f1 = (True, f2)" and r2: "readFrameRaw f2 = (Inr x, f')"
      using assms r True by (auto simp: readFrameWithRetry_def split: prod.splits if_splits)
    then show ?thesis
      using m True file_Seek_fsched_le [OF s] readFrameRaw_measure [OF r2] by simp
  next
    case False
    then show ?thesis using assms r m by (auto simp: readFrameWithRetry_def)
  qed
qed

section \<open>Verifying the Documents\<close>

record docAccumulator =
  accHashed :: bytes
  accPayloadBytes :: int

definition accumulateDoc ::
  "(u32 \<rightharpoonup> docAccumulator) \<Rightarrow> u32 \<Rightarrow> bytes \<Rightarrow> docAccumulator \<times> (u32 \<rightharpoonup> docAccumulator)" where
  "accumulateDoc accum docSeq payload =
     (let acc = (case accum docSeq of Some a \<Rightarrow> a | None \<Rightarrow> \<lparr>accHashed = [], accPayloadBytes = 0\<rparr>);
          acc1 = \<lparr>accHashed = accHashed acc @ payload, accPayloadBytes = accPayloadBytes acc + int (length payload)\<rparr>
      in (acc1, accum(docSeq \<mapsto> acc1)))"

text \<open>
  What \<open>json.Unmarshal\<close> yields for the two anonymous structs the verifier decodes an envelope into;
  \<open>None\<close> is an error of the decoder.
\<close>

record envelope_json =
  jsonPlaintextSHA256 :: "bytes \<Rightarrow> bytes option"
  jsonCiphertextLength :: "bytes \<Rightarrow> int option option"

datatype meta_err = JsonError | MetaCorrupt

definition encryptedEnvelopePlaintextSHA256 :: "envelope_json \<Rightarrow> bytes \<Rightarrow> meta_err + bytes" where
  "encryptedEnvelopePlaintextSHA256 J envelope =
     (case jsonPlaintextSHA256 J envelope of
        None \<Rightarrow> Inl JsonError
      | Some digest \<Rightarrow> if length digest \<noteq> 32 then Inl MetaCorrupt else Inr digest)"

definition encryptedEnvelopeCiphertextLength :: "envelope_json \<Rightarrow> bytes \<Rightarrow> meta_err + int" where
  "encryptedEnvelopeCiphertextLength J envelope =
     (case jsonCiphertextLength J envelope of
        None \<Rightarrow> Inl JsonError
      | Some None \<Rightarrow> Inl MetaCorrupt
      | Some (Some n) \<Rightarrow> if n < 0 then Inl MetaCorrupt else Inr n)"

definition add_corrupt :: "nat \<Rightarrow> CorruptionType \<Rightarrow> VerifyResult \<Rightarrow> VerifyResult" where
  "add_corrupt offset ty result = result\<lparr>CorruptFrames := CorruptFrames result @ [(offset, ty)]\<rparr>"

definition checkEncryptedDocSHAMetadata :: "envelope_json \<Rightarrow> IndexEntry \<Rightarrow> nat \<Rightarrow> VerifyResult \<Rightarrow> VerifyResult" where
  "checkEncryptedDocSHAMetadata J idx offset result =
     (case encryptedEnvelopePlaintextSHA256 J (EncryptionEnvelope idx) of
        Inl MetaCorrupt \<Rightarrow> add_corrupt offset CorruptionDocSHA256 result
      | Inl JsonError \<Rightarrow> result
      | Inr envelopeSHA \<Rightarrow>
          if isZeroSHA256 (SHA256 idx) \<or> SHA256 idx \<noteq> envelopeSHA
          then add_corrupt offset CorruptionDocSHA256 result else result)"

definition checkDocSHA :: "bytes \<Rightarrow> bytes \<Rightarrow> nat \<Rightarrow> VerifyResult \<Rightarrow> VerifyResult" where
  "checkDocSHA hashed expected offset result =
     (if isZeroSHA256 expected \<or> sha256 hashed \<noteq> expected
      then add_corrupt offset CorruptionDocSHA256 result else result)"

definition checkEncryptedDocPayloadLength ::
  "envelope_json \<Rightarrow> int \<Rightarrow> bytes \<Rightarrow> nat \<Rightarrow> VerifyResult \<Rightarrow> VerifyResult" where
  "checkEncryptedDocPayloadLength J payloadBytes envelope offset result =
     (case encryptedEnvelopeCiphertextLength J envelope of
        Inl _ \<Rightarrow> add_corrupt offset CorruptionDocCiphertextLength result
      | Inr n \<Rightarrow> if payloadBytes \<noteq> n then add_corrupt offset CorruptionDocCiphertextLength result else result)"

definition findIdxEntryByDocSeq :: "IndexEntry list \<Rightarrow> u32 \<Rightarrow> IndexEntry option" where
  "findIdxEntryByDocSeq entries docSeq =
     (if unat docSeq < length entries then Some (entries ! unat docSeq) else None)"

definition checkDocIntegrity ::
  "envelope_json \<Rightarrow> docAccumulator \<Rightarrow> u32 \<Rightarrow> IndexEntry list \<Rightarrow> nat \<Rightarrow> VerifyResult \<Rightarrow> VerifyResult" where
  "checkDocIntegrity J acc docSeq entries offset result =
     (case findIdxEntryByDocSeq entries docSeq of
        None \<Rightarrow> result
      | Some idx \<Rightarrow>
          if length (EncryptionEnvelope idx) > 0
          then checkEncryptedDocSHAMetadata J idx offset
                 (checkEncryptedDocPayloadLength J (accPayloadBytes acc) (EncryptionEnvelope idx) offset result)
          else checkDocSHA (accHashed acc) (SHA256 idx) offset result)"

text \<open>\<open>recordMissingIndexedFrames\<close> for the entries from position \<open>seq\<close> on.\<close>

primrec recordMissingIndexedFrames ::
  "IndexEntry list \<Rightarrow> nat \<Rightarrow> (u32 \<Rightarrow> u32) \<Rightarrow> (u32 \<Rightarrow> bool) \<Rightarrow> nat \<Rightarrow> VerifyResult \<Rightarrow> VerifyResult" where
  "recordMissingIndexedFrames [] seq framesBy completed offset result = result"
| "recordMissingIndexedFrames (e # es) seq framesBy completed offset result =
     recordMissingIndexedFrames es (seq + 1) framesBy completed offset
       (if FrameCount e = 0 \<or> framesBy (of_nat seq) < FrameCount e \<or> \<not> completed (of_nat seq)
        then add_corrupt offset CorruptionMissing result else result)"

text \<open>The maps of \<open>verifyFrames\<close>; a missing key of a Go map reads as zero or false.\<close>

record verify_maps =
  docBySeq :: "u32 \<rightharpoonup> docAccumulator"
  framesByDocSeq :: "u32 \<Rightarrow> u32"
  completedDocSeq :: "u32 \<Rightarrow> bool"

text \<open>The body of the loop for one Frame that was read.\<close>

definition verify_frame ::
  "envelope_json \<Rightarrow> IndexEntry list \<Rightarrow> nat \<Rightarrow> FrameHeader \<Rightarrow> bytes \<Rightarrow> verify_maps \<times> VerifyResult
   \<Rightarrow> verify_maps \<times> VerifyResult" where
  "verify_frame J entries offset hdr payload mr =
     (case mr of (m, result) \<Rightarrow>
        let result1 = result\<lparr>FramesVerified := FramesVerified result + 1\<rparr>;
            framesBy = (framesByDocSeq m)(DocSeq hdr := framesByDocSeq m (DocSeq hdr) + 1);
            (acc, accum) = accumulateDoc (docBySeq m) (DocSeq hdr) payload;
            m1 = m\<lparr>docBySeq := accum, framesByDocSeq := framesBy\<rparr>
        in if isLastFrame (Flags hdr)
           then (m1\<lparr>docBySeq := accum(DocSeq hdr := None),
                    completedDocSeq := (completedDocSeq m)(DocSeq hdr := True)\<rparr>,
                 checkDocIntegrity J acc (DocSeq hdr) entries offset result1)
           else (m1, result1))"

function verify_loop ::
  "envelope_json \<Rightarrow> IndexEntry list \<Rightarrow> osfile \<Rightarrow> nat \<Rightarrow> verify_maps \<Rightarrow> VerifyResult \<Rightarrow> VerifyResult" where
  "verify_loop J entries f offset m result =
     (case readFrameWithRetry f offset (TransientReadRetries result) of
        (Inl e, f1, retries) \<Rightarrow>
          (let result1 = result\<lparr>TransientReadRetries := retries\<rparr> in
           if e = VerifyEOF
           then recordMissingIndexedFrames entries 0 (framesByDocSeq m) (completedDocSeq m) offset result1
           else add_corrupt offset CorruptionFrameCRC result1)
      | (Inr (hdr, payload), f1, retries) \<Rightarrow>
          (case verify_frame J entries offset hdr payload (m, result\<lparr>TransientReadRetries := retries\<rparr>) of
             (m1, result1) \<Rightarrow>
               verify_loop J entries f1 (offset + FrameHeaderSize + unat (PayloadLen hdr)) m1 result1))"
  by pat_completeness auto
termination
  by (relation "measures [\<lambda>(J, entries, f, _). length (fsched f), \<lambda>(J, entries, f, _). length (rest f)]")
    (auto dest!: readFrameWithRetry_measure [OF sym])

declare verify_loop.simps [simp del]

definition verifyFrames :: "envelope_json \<Rightarrow> osfile \<Rightarrow> IndexEntry list \<Rightarrow> VerifyResult" where
  "verifyFrames J f entries =
     verify_loop J entries f HeaderSize
       \<lparr>docBySeq = Map.empty, framesByDocSeq = (\<lambda>_. 0), completedDocSeq = (\<lambda>_. False)\<rparr>
       \<lparr>CorruptFrames = [], FramesVerified = 0, TransientReadRetries = 0\<rparr>"

section \<open>Verifying a Block\<close>

text \<open>\<open>readHeaderStructure\<close>: corrupt, and whether the read itself failed.\<close>

definition readHeaderStructure :: "osfile \<Rightarrow> (bool \<times> bool) \<times> osfile" where
  "readHeaderStructure f =
     (case io_ReadFull HeaderSize f of ((hdr, err), f1) \<Rightarrow>
        ((case err of
            Some e \<Rightarrow> if e = EOF \<or> e = UnexpectedEOF then (True, False) else (True, True)
          | None \<Rightarrow> if slice 0 4 hdr \<noteq> blockMagic then (True, False)
                    else (crc32c (slice 0 36 hdr) \<noteq> get_u32 (slice 36 40 hdr), False)), f1))"

definition verifyHeaderStructure :: "osfile \<Rightarrow> (bool \<times> u64) \<times> osfile" where
  "verifyHeaderStructure f =
     (case readHeaderStructure f of ((corrupt, ioFault), f1) \<Rightarrow>
        if \<not> ioFault then ((corrupt, 0), f1)
        else case file_Seek 0 f1 of (ok, f2) \<Rightarrow>
          if \<not> ok then ((True, 0), f2)
          else case readHeaderStructure f2 of ((corrupt2, ioFault2), f3) \<Rightarrow>
            if ioFault2 then ((True, 0), f3) else ((corrupt2, 1), f3))"

datatype block_verify_err = VerifyLoadIdx idx_err | VerifyOpen | VerifySeek

definition VerifyBlock ::
  "envelope_json \<Rightarrow> bytes \<Rightarrow> io_outcome list \<Rightarrow> bytes \<Rightarrow> io_outcome list \<Rightarrow> block_verify_err + VerifyResult" where
  "VerifyBlock J blk blkSched idx idxSched =
     (case OpenIndexReader idx idxSched of Inl e \<Rightarrow> Inl (VerifyLoadIdx e) | Inr entries \<Rightarrow>
        (case file_Open blk blkSched of (ok, f) \<Rightarrow>
           if \<not> ok then Inl VerifyOpen
           else case verifyHeaderStructure f of ((headerCorrupt, headerRetries), f1) \<Rightarrow>
             (case file_Seek HeaderSize f1 of (ok2, f2) \<Rightarrow>
                if \<not> ok2 then Inl VerifySeek
                else let result = verifyFrames J f2 entries;
                         result1 = result\<lparr>TransientReadRetries := TransientReadRetries result + headerRetries\<rparr>
                     in Inr (if headerCorrupt
                             then result1\<lparr>CorruptFrames := (0, CorruptionHeader) # CorruptFrames result1\<rparr>
                             else result1))))"

end
