(* ===== verification/Block_Verify_Sound.thy ===== *)
theory Block_Verify_Sound
  imports Block_Verify Block_Index_File
begin

text \<open>
  What a verification of a Block means: it finds nothing in a Block that agrees with its index, and
  it finds every single changed byte and every truncation of such a Block.
\<close>

section \<open>Reading raw Frames\<close>

lemma parseRawFrameHeader_eq:
  "parseRawFrameHeader buf = (case parse_frame_header buf of Inl e \<Rightarrow> Inl (VerifyBad e) | Inr h \<Rightarrow> Inr h)"
  by (simp add: parseRawFrameHeader_def parse_frame_header_def)

text \<open>The verifier's reader accepts exactly the Frames \<open>ReadFrame\<close> accepts.\<close>

lemma readFrameRaw_eq:
  "readFrameRaw f = (Inr x, f') \<longleftrightarrow> ReadFrame f = (Inr x, f')"
  by (auto simp: readFrameRaw_def ReadFrame_def readRawFramePayload_def parseRawFrameHeader_eq
      split: prod.splits option.splits sum.splits if_splits)

lemma readFrameRaw_bad:
  "fst (ReadFrame f) = Inl e \<Longrightarrow> e \<in> {ErrHeaderCRC, ErrCRCMismatch} \<Longrightarrow> fst (readFrameRaw f) = Inl (VerifyBad e)"
  by (auto simp: readFrameRaw_def ReadFrame_def readRawFramePayload_def parseRawFrameHeader_eq
      split: prod.splits option.splits sum.splits if_splits)

lemma readFrameRaw_ok:
  assumes "fsched f = []" and "rest f = frame_bytes h p @ tail" and "length p \<le> MaxFramePayload"
  shows "readFrameRaw f = (Inr (sealed_header h p, p), f\<lparr>fpos := fpos f + length (frame_bytes h p)\<rparr>)"
  using ReadFrame_frame_bytes [OF assms] by (simp add: readFrameRaw_eq)

lemma readFrameRaw_torn:
  assumes "fsched f = []" and "rest f = take c (frame_bytes h p)" and "length p \<le> MaxFramePayload"
    and "c < length (frame_bytes h p)"
  shows "fst (readFrameRaw f) = Inl (if c < 32 then VerifyEOF else VerifyBad ErrTruncated)"
proof (cases "c < 32")
  case True
  then have "length (rest f) < FrameHeaderSize" using assms(2) by (simp add: FrameHeaderSize_def)
  then obtain got e f1 where "io_ReadFull FrameHeaderSize f = ((got, Some e), f1)" "e = EOF \<or> e = UnexpectedEOF"
    using io_ReadFull_eof [OF assms(1)] io_ReadFull_short [OF assms(1)]
    by (cases "rest f = []") (auto simp: FrameHeaderSize_def)
  then show ?thesis using True by (auto simp: readFrameRaw_def)
next
  case False
  let ?f1 = "f\<lparr>fpos := fpos f + 32\<rparr>"
  have r: "rest f = frame_header_bytes h p @ take (c - 32) p" using assms(2) False by (simp add: frame_bytes_def)
  have h: "io_ReadFull FrameHeaderSize f = ((frame_header_bytes h p, None), ?f1)"
    using io_ReadFull_full [OF assms(1) r] by (simp add: FrameHeaderSize_def)
  have r1: "rest ?f1 = take (c - 32) p" using rest_advance [OF r] by simp
  have lt: "length (rest ?f1) < length p" using assms(4) False by (simp add: r1 length_frame_bytes)
  obtain got e f2 where p: "io_ReadFull (length p) ?f1 = ((got, Some e), f2)" "e = EOF \<or> e = UnexpectedEOF"
    using io_ReadFull_eof [of ?f1 "length p"] io_ReadFull_short [of ?f1 "length p"] assms(1) lt
    by (cases "rest ?f1 = []") (auto simp del: length_greater_0_conv)
  show ?thesis
    using False h p parse_frame_header_prefix [OF assms(3)]
    by (auto simp: readFrameRaw_def readRawFramePayload_def parseRawFrameHeader_eq unat_payload_len assms(3))
qed

section \<open>A Block as a list of Frames\<close>

type_synonym stored_frame = "FrameHeader \<times> bytes"

primrec doc_frame_list :: "u32 \<Rightarrow> u32 \<Rightarrow> document \<Rightarrow> stored_frame list" where
  "doc_frame_list d q [] = []"
| "doc_frame_list d q (p # ps) = (frame_hdr d q (ps = []), p) # doc_frame_list d (q + 1) ps"

primrec docs_frame_list :: "u32 \<Rightarrow> document list \<Rightarrow> stored_frame list" where
  "docs_frame_list d [] = []"
| "docs_frame_list d (x # xs) = doc_frame_list d 0 x @ docs_frame_list (d + 1) xs"

abbreviation stored_frames :: "stored_frame list \<Rightarrow> bytes" where
  "stored_frames frs \<equiv> concat (map (\<lambda>(h, p). frame_bytes h p) frs)"

lemma frames_from_list: "frames_from d q ps = stored_frames (doc_frame_list d q ps)"
  by (induction ps arbitrary: q) simp_all

lemma docs_from_list: "docs_from d ds = stored_frames (docs_frame_list d ds)"
  by (induction ds arbitrary: d) (simp_all add: frames_from_list)

definition frames_ok :: "stored_frame list \<Rightarrow> bool" where
  "frames_ok frs \<longleftrightarrow> (\<forall>(h, p)\<in>set frs. length p \<le> MaxFramePayload)"

lemma doc_frame_list_payloads [simp]: "map snd (doc_frame_list d q ps) = ps"
  by (induction ps arbitrary: q) simp_all

lemma frames_ok_doc: "doc_ok ps \<Longrightarrow> frames_ok (doc_frame_list d q ps)"
proof -
  assume "doc_ok ps"
  moreover have "snd ` set (doc_frame_list d q ps) = set ps" by (metis doc_frame_list_payloads set_map)
  ultimately show ?thesis by (auto simp: doc_ok_def frames_ok_def) (metis image_eqI snd_conv)
qed

lemma frames_ok_docs: "\<forall>x\<in>set ds. doc_ok x \<Longrightarrow> frames_ok (docs_frame_list d ds)"
  by (induction ds arbitrary: d) (auto simp: frames_ok_def dest: frames_ok_doc [unfolded frames_ok_def])

section \<open>Running the loop over good Frames\<close>

text \<open>The state after the Frames \<open>frs\<close>, starting at \<open>offset\<close>.\<close>

primrec verify_frames_fold ::
  "envelope_json \<Rightarrow> IndexEntry list \<Rightarrow> nat \<Rightarrow> stored_frame list \<Rightarrow> verify_maps \<times> VerifyResult \<Rightarrow> verify_maps \<times> VerifyResult" where
  "verify_frames_fold J es off [] mr = mr"
| "verify_frames_fold J es off (fr # frs) mr =
     verify_frames_fold J es (off + length (frame_bytes (fst fr) (snd fr))) frs
       (verify_frame J es off (sealed_header (fst fr) (snd fr)) (snd fr) mr)"

lemma readFrameWithRetry_quiet:
  assumes "readFrameRaw f = (res, f1)" and "res \<noteq> Inl ErrVerifyRead"
  shows "readFrameWithRetry f off n = (res, f1, n)"
  using assms by (simp add: readFrameWithRetry_def)

lemma verify_loop_frames:
  assumes "fsched f = []" and "rest f = stored_frames frs @ tail" and "frames_ok frs"
  shows "\<exists>f'. fsched f' = [] \<and> rest f' = tail \<and>
    verify_loop J es f off m result =
      (case verify_frames_fold J es off frs (m, result) of (m', result') \<Rightarrow>
         verify_loop J es f' (off + length (stored_frames frs)) m' result')"
  using assms
proof (induction frs arbitrary: f off m result)
  case Nil
  then show ?case by auto
next
  case (Cons fr frs)
  obtain h p where fr: "fr = (h, p)" by (cases fr)
  have r: "rest f = frame_bytes h p @ (stored_frames frs @ tail)" using Cons.prems(2) fr by simp
  have p: "length p \<le> MaxFramePayload" using Cons.prems(3) fr by (simp add: frames_ok_def)
  let ?f1 = "f\<lparr>fpos := fpos f + length (frame_bytes h p)\<rparr>"
  obtain m1 result1 where v: "verify_frame J es off (sealed_header h p) p (m, result) = (m1, result1)"
    by (cases "verify_frame J es off (sealed_header h p) p (m, result)")
  have step: "verify_loop J es f off m result = verify_loop J es ?f1 (off + length (frame_bytes h p)) m1 result1"
    using readFrameWithRetry_quiet [OF readFrameRaw_ok [OF Cons.prems(1) r p]] v p
    by (subst verify_loop.simps) (simp add: length_frame_bytes FrameHeaderSize_def unat_payload_len add.assoc)
  have "\<exists>f'. fsched f' = [] \<and> rest f' = tail \<and> verify_loop J es ?f1 (off + length (frame_bytes h p)) m1 result1 =
      (case verify_frames_fold J es (off + length (frame_bytes h p)) frs (m1, result1) of (m', result') \<Rightarrow>
         verify_loop J es f' (off + length (frame_bytes h p) + length (stored_frames frs)) m' result')"
    by (rule Cons.IH) (use Cons.prems rest_advance [OF r] in \<open>auto simp: frames_ok_def\<close>)
  then show ?case using step v fr by (simp add: add.assoc)
qed

lemma verify_loop_eof:
  assumes "fst (readFrameRaw f) = Inl VerifyEOF"
  shows "verify_loop J es f off m result =
    recordMissingIndexedFrames es 0 (framesByDocSeq m) (completedDocSeq m) off result"
proof -
  obtain f1 where "readFrameRaw f = (Inl VerifyEOF, f1)" using assms by (cases "readFrameRaw f") auto
  from readFrameWithRetry_quiet [OF this] show ?thesis by (subst verify_loop.simps) simp
qed

lemma verify_loop_bad:
  assumes "fst (readFrameRaw f) = Inl (VerifyBad e)"
  shows "verify_loop J es f off m result = add_corrupt off CorruptionFrameCRC result"
proof -
  obtain f1 where "readFrameRaw f = (Inl (VerifyBad e), f1)" using assms by (cases "readFrameRaw f") auto
  from readFrameWithRetry_quiet [OF this] show ?thesis by (subst verify_loop.simps) simp
qed

lemma fold_append:
  "verify_frames_fold J es off (xs @ ys) mr =
   verify_frames_fold J es (off + length (stored_frames xs)) ys (verify_frames_fold J es off xs mr)"
  by (induction xs arbitrary: off mr) (auto simp: add.assoc split: prod.splits)

section \<open>The effect of one Document\<close>

definition acc_of :: "verify_maps \<Rightarrow> u32 \<Rightarrow> docAccumulator" where
  "acc_of m d = (case docBySeq m d of Some a \<Rightarrow> a | None \<Rightarrow> \<lparr>accHashed = [], accPayloadBytes = 0\<rparr>)"

definition started_maps :: "verify_maps \<Rightarrow> u32 \<Rightarrow> bytes \<Rightarrow> verify_maps" where
  "started_maps m d p =
     m\<lparr>docBySeq := (docBySeq m)(d \<mapsto> \<lparr>accHashed = accHashed (acc_of m d) @ p,
          accPayloadBytes = accPayloadBytes (acc_of m d) + int (length p)\<rparr>),
       framesByDocSeq := (framesByDocSeq m)(d := framesByDocSeq m d + 1)\<rparr>"

definition finished_maps :: "verify_maps \<Rightarrow> u32 \<Rightarrow> nat \<Rightarrow> verify_maps" where
  "finished_maps m d n =
     m\<lparr>docBySeq := (docBySeq m)(d := None),
       framesByDocSeq := (framesByDocSeq m)(d := framesByDocSeq m d + of_nat n),
       completedDocSeq := (completedDocSeq m)(d := True)\<rparr>"

lemma finished_maps_sel [simp]:
  "docBySeq (finished_maps m d n) x = (if x = d then None else docBySeq m x)"
  "framesByDocSeq (finished_maps m d n) x = (if x = d then framesByDocSeq m d + of_nat n else framesByDocSeq m x)"
  "completedDocSeq (finished_maps m d n) x = (x = d \<or> completedDocSeq m x)"
  by (simp_all add: finished_maps_def)

lemma finished_started [simp]: "finished_maps (started_maps m d p) d n = finished_maps m d (Suc n)"
  by (cases m) (auto simp: finished_maps_def started_maps_def fun_eq_iff add.assoc)

lemma acc_of_started [simp]:
  "acc_of (started_maps m d p) d = \<lparr>accHashed = accHashed (acc_of m d) @ p,
     accPayloadBytes = accPayloadBytes (acc_of m d) + int (length p)\<rparr>"
  by (simp add: acc_of_def started_maps_def)

definition doc_acc :: "verify_maps \<Rightarrow> u32 \<Rightarrow> bytes \<Rightarrow> docAccumulator" where
  "doc_acc m d bs = \<lparr>accHashed = accHashed (acc_of m d) @ bs, accPayloadBytes = accPayloadBytes (acc_of m d) + int (length bs)\<rparr>"

lemma doc_acc_started [simp]: "doc_acc (started_maps m d p) d bs = doc_acc m d (p @ bs)"
  by (simp add: doc_acc_def)

lemma verify_frame_inner:
  "verify_frame J es off (sealed_header (frame_hdr d q False) p) p (m, result) =
   (started_maps m d p, result\<lparr>FramesVerified := FramesVerified result + 1\<rparr>)"
proof -
  have "DocSeq (frame_hdr d q False) = d" "Flags (frame_hdr d q False) = frameFlags q False"
    by (simp_all add: frame_hdr_def)
  then show ?thesis by (simp add: verify_frame_def accumulateDoc_def Let_def acc_of_def started_maps_def)
qed

lemma verify_frame_last:
  "verify_frame J es off (sealed_header (frame_hdr d q True) p) p (m, result) =
   (finished_maps m d 1,
    checkDocIntegrity J (doc_acc m d p) d es off (result\<lparr>FramesVerified := FramesVerified result + 1\<rparr>))"
proof -
  have "DocSeq (frame_hdr d q True) = d" "Flags (frame_hdr d q True) = frameFlags q True"
    by (simp_all add: frame_hdr_def)
  then show ?thesis
    by (cases m) (simp add: verify_frame_def accumulateDoc_def Let_def acc_of_def finished_maps_def doc_acc_def)
qed

lemma verify_document:
  assumes "ps \<noteq> []"
  shows "\<exists>off'. verify_frames_fold J es off (doc_frame_list d q ps) (m, result) =
   (finished_maps m d (length ps),
    checkDocIntegrity J (doc_acc m d (concat ps)) d es off'
      (result\<lparr>FramesVerified := FramesVerified result + of_nat (length ps)\<rparr>))"
  using assms
proof (induction ps arbitrary: q off m result)
  case (Cons p ps)
  show ?case
  proof (cases "ps = []")
    case True
    then show ?thesis by (intro exI [of _ off]) (simp add: verify_frame_last)
  next
    case False
    from Cons.IH [OF False, of "off + length (frame_bytes (frame_hdr d q False) p)" "q + 1" "started_maps m d p"
        "result\<lparr>FramesVerified := FramesVerified result + 1\<rparr>"]
    show ?thesis using False by (simp add: verify_frame_inner add.assoc)
  qed
qed simp

section \<open>Blocks that agree with their index\<close>

text \<open>
  An entry that agrees with the Document \<open>ps\<close>: a plaintext Document by its digest, an encrypted one by
  the length and the digest its envelope records.
\<close>

definition entry_agrees :: "envelope_json \<Rightarrow> document \<Rightarrow> IndexEntry \<Rightarrow> bool" where
  "entry_agrees J ps e \<longleftrightarrow> FrameCount e = of_nat (length ps) \<and> \<not> isZeroSHA256 (SHA256 e) \<and> length (SHA256 e) = 32 \<and>
     (if EncryptionEnvelope e = [] then SHA256 e = sha256 (concat ps)
      else jsonCiphertextLength J (EncryptionEnvelope e) = Some (Some (int (length (concat ps)))) \<and>
           jsonPlaintextSHA256 J (EncryptionEnvelope e) = Some (SHA256 e))"

definition index_agrees :: "envelope_json \<Rightarrow> document list \<Rightarrow> IndexEntry list \<Rightarrow> bool" where
  "index_agrees J ds es \<longleftrightarrow> length es = length ds \<and> length ds < 2 ^ 32 \<and>
     (\<forall>k<length ds. doc_ok (ds ! k) \<and> entry_agrees J (ds ! k) (es ! k))"

lemma checkDocIntegrity_agrees:
  assumes "entry_agrees J ps (es ! unat d)" and "unat d < length es"
  shows "checkDocIntegrity J \<lparr>accHashed = concat ps, accPayloadBytes = int (length (concat ps))\<rparr> d es off result = result"
  using assms
  by (auto simp: checkDocIntegrity_def findIdxEntryByDocSeq_def entry_agrees_def checkDocSHA_def
      checkEncryptedDocSHAMetadata_def checkEncryptedDocPayloadLength_def encryptedEnvelopePlaintextSHA256_def
      encryptedEnvelopeCiphertextLength_def split: if_splits)

lemma word_of_nat_inj32:
  "i < 2 ^ 32 \<Longrightarrow> j < 2 ^ 32 \<Longrightarrow> ((of_nat i :: u32) = of_nat j) = (i = j)"
  by (simp add: word_of_nat_eq_iff take_bit_nat_eq_self)


text \<open>The maps and counters after the Documents from number \<open>k\<close> on, when each agrees with its entry.\<close>

lemma verify_documents:
  assumes "\<forall>i<length ds. doc_ok (ds ! i) \<and> entry_agrees J (ds ! i) (es ! (k + i))"
    and "k + length ds \<le> length es" and "length es < 2 ^ 32"
    and "\<forall>i<length ds. docBySeq m (of_nat (k + i)) = None"
  shows "\<exists>m' result'. verify_frames_fold J es off (docs_frame_list (of_nat k) ds) (m, result) = (m', result') \<and>
    CorruptFrames result' = CorruptFrames result \<and> TransientReadRetries result' = TransientReadRetries result \<and>
    FramesVerified result' = FramesVerified result + of_nat (sum_list (map length ds)) \<and>
    (\<forall>i<length ds. framesByDocSeq m' (of_nat (k + i)) = framesByDocSeq m (of_nat (k + i)) + of_nat (length (ds ! i))
       \<and> completedDocSeq m' (of_nat (k + i))) \<and>
    (\<forall>i<k. framesByDocSeq m' (of_nat i) = framesByDocSeq m (of_nat i) \<and>
       completedDocSeq m' (of_nat i) = completedDocSeq m (of_nat i))"
  using assms
proof (induction ds arbitrary: k m result off)
  case (Cons x ds)
  have x: "doc_ok x" "entry_agrees J x (es ! k)" using Cons.prems(1) by (auto dest: spec [of _ 0])
  have k: "k < length es" using Cons.prems(2) by simp
  then have u: "unat (of_nat k :: u32) = k" using Cons.prems(3) by (simp add: unat_of_nat)
  have acc: "acc_of m (of_nat k) = \<lparr>accHashed = [], accPayloadBytes = 0\<rparr>"
    using Cons.prems(4) by (auto simp: acc_of_def dest: spec [of _ 0])
  let ?m1 = "finished_maps m (of_nat k) (length x)"
  let ?r1 = "result\<lparr>FramesVerified := FramesVerified result + of_nat (length x)\<rparr>"
  obtain off' where step: "verify_frames_fold J es off (doc_frame_list (of_nat k) 0 x) (m, result) =
      (?m1, checkDocIntegrity J \<lparr>accHashed = concat x, accPayloadBytes = int (length (concat x))\<rparr> (of_nat k) es off' ?r1)"
    using verify_document [of x J es off "of_nat k" 0 m result] x(1) by (auto simp: doc_ok_def doc_acc_def acc)
  have chk: "checkDocIntegrity J \<lparr>accHashed = concat x, accPayloadBytes = int (length (concat x))\<rparr> (of_nat k) es off' ?r1 = ?r1"
    using checkDocIntegrity_agrees [of J x es "of_nat k"] x(2) k u by simp
  have lt: "Suc k + i < 2 ^ 32" if "i < length ds" for i using that Cons.prems(2,3) by simp
  have ne: "(of_nat (Suc k + i) :: u32) \<noteq> of_nat k" if "i < length ds" for i
    using word_of_nat_inj32 [OF lt [OF that], of k] k Cons.prems(3) by simp
  have ne': "(of_nat i :: u32) \<noteq> of_nat k" if "i < k" for i
    using word_of_nat_inj32 [of i k] that k Cons.prems(3) by simp
  have fold: "verify_frames_fold J es off (docs_frame_list (of_nat k) (x # ds)) (m, result) =
      verify_frames_fold J es (off + length (frames_from (of_nat k) 0 x)) (docs_frame_list (of_nat (Suc k)) ds) (?m1, ?r1)"
    by (simp add: fold_append step chk frames_from_list add.commute)
  have "\<exists>m' result'. verify_frames_fold J es (off + length (frames_from (of_nat k) 0 x)) (docs_frame_list (of_nat (Suc k)) ds) (?m1, ?r1) = (m', result') \<and>
    CorruptFrames result' = CorruptFrames ?r1 \<and> TransientReadRetries result' = TransientReadRetries ?r1 \<and>
    FramesVerified result' = FramesVerified ?r1 + of_nat (sum_list (map length ds)) \<and>
    (\<forall>i<length ds. framesByDocSeq m' (of_nat (Suc k + i)) = framesByDocSeq ?m1 (of_nat (Suc k + i)) + of_nat (length (ds ! i))
       \<and> completedDocSeq m' (of_nat (Suc k + i))) \<and>
    (\<forall>i<Suc k. framesByDocSeq m' (of_nat i) = framesByDocSeq ?m1 (of_nat i) \<and>
       completedDocSeq m' (of_nat i) = completedDocSeq ?m1 (of_nat i))"
  proof (rule Cons.IH)
    show "\<forall>i<length ds. doc_ok (ds ! i) \<and> entry_agrees J (ds ! i) (es ! (Suc k + i))"
      using Cons.prems(1) by (auto dest: spec [of _ "Suc _"])
    show "\<forall>i<length ds. docBySeq ?m1 (of_nat (Suc k + i)) = None"
      by (intro allI impI, drule Suc_less_eq [THEN iffD2], drule Cons.prems(4) [rule_format, unfolded length_Cons])
        (simp add: ac_simps)
  qed (use Cons.prems(2,3) in simp_all)
  then obtain m' result' where IH: "verify_frames_fold J es off (docs_frame_list (of_nat k) (x # ds)) (m, result) = (m', result')"
    "CorruptFrames result' = CorruptFrames result" "TransientReadRetries result' = TransientReadRetries result"
    "FramesVerified result' = FramesVerified result + of_nat (length x) + of_nat (sum_list (map length ds))"
    "\<forall>i<length ds. framesByDocSeq m' (of_nat (Suc k + i)) = framesByDocSeq ?m1 (of_nat (Suc k + i)) + of_nat (length (ds ! i))
       \<and> completedDocSeq m' (of_nat (Suc k + i))"
    "\<forall>i<Suc k. framesByDocSeq m' (of_nat i) = framesByDocSeq ?m1 (of_nat i) \<and>
       completedDocSeq m' (of_nat i) = completedDocSeq ?m1 (of_nat i)"
    unfolding fold by auto
  have "framesByDocSeq m' (of_nat (k + i)) = framesByDocSeq m (of_nat (k + i)) + of_nat (length ((x # ds) ! i))
       \<and> completedDocSeq m' (of_nat (k + i))" if "i < length (x # ds)" for i
  proof (cases i)
    case 0
    then show ?thesis using IH(6) by (auto dest: spec [of _ k])
  next
    case (Suc j)
    then show ?thesis using IH(5) ne [of j] that by simp
  qed
  moreover have "framesByDocSeq m' (of_nat i) = framesByDocSeq m (of_nat i) \<and>
       completedDocSeq m' (of_nat i) = completedDocSeq m (of_nat i)" if "i < k" for i
    using IH(6) ne' [OF that] that by simp
  ultimately show ?case using IH(1-4) by (intro exI [of _ m'] exI [of _ result']) (simp add: add.assoc)
qed auto

lemma recordMissing_none:
  assumes "\<forall>i<length es. FrameCount (es ! i) \<noteq> 0 \<and> framesBy (of_nat (seq + i)) \<ge> FrameCount (es ! i) \<and> completed (of_nat (seq + i))"
  shows "recordMissingIndexedFrames es seq framesBy completed off result = result"
  using assms
proof (induction es arbitrary: seq)
  case (Cons e es)
  have "\<forall>i<length es. FrameCount (es ! i) \<noteq> 0 \<and> framesBy (of_nat (seq + 1 + i)) \<ge> FrameCount (es ! i) \<and> completed (of_nat (seq + 1 + i))"
    by (intro allI impI, drule Suc_less_eq [THEN iffD2], drule Cons.prems [rule_format, unfolded length_Cons])
      (simp add: ac_simps)
  then show ?case using Cons.IH [of "seq + 1"] Cons.prems [THEN spec, of 0]
    by (simp add: not_less [symmetric] del: not_less)
qed simp

section \<open>Locating a byte\<close>

lemma stored_frames_split:
  "n < length frs \<Longrightarrow>
   stored_frames frs = stored_frames (take n frs) @ frame_bytes (fst (frs ! n)) (snd (frs ! n)) @ stored_frames (drop (Suc n) frs)"
  by (subst id_take_nth_drop [of n frs]) (auto split: prod.splits)

lemma stored_frames_locate:
  "j < length (stored_frames frs) \<Longrightarrow>
   \<exists>n k. n < length frs \<and> k < length (frame_bytes (fst (frs ! n)) (snd (frs ! n))) \<and>
     j = length (stored_frames (take n frs)) + k"
proof (induction frs arbitrary: j)
  case (Cons fr frs)
  obtain h p where fr: "fr = (h, p)" by (cases fr)
  show ?case
  proof (cases "j < length (frame_bytes h p)")
    case True
    then show ?thesis using fr by (intro exI [of _ 0] exI [of _ j]) simp
  next
    case False
    then have "j - length (frame_bytes h p) < length (stored_frames frs)" using Cons.prems fr by simp
    from Cons.IH [OF this] obtain n k where "n < length frs" "k < length (frame_bytes (fst (frs ! n)) (snd (frs ! n)))"
      "j - length (frame_bytes h p) = length (stored_frames (take n frs)) + k" by blast
    then show ?thesis using fr False by (intro exI [of _ "Suc n"] exI [of _ k]) simp
  qed
qed simp

lemma frames_ok_take: "frames_ok frs \<Longrightarrow> frames_ok (take n frs)"
  by (auto simp: frames_ok_def dest: in_set_takeD)

lemma frames_ok_nth: "frames_ok frs \<Longrightarrow> n < length frs \<Longrightarrow> length (snd (frs ! n)) \<le> MaxFramePayload"
  by (metis frames_ok_def nth_mem case_prodD prod.collapse)

text \<open>A damaged Frame after any good ones is recorded.\<close>

lemma verify_loop_damaged:
  assumes "fsched f = []" and "rest f = (stored_frames frs)[j := v]" and "frames_ok frs"
    and "j < length (stored_frames frs)" and "v \<noteq> stored_frames frs ! j"
  shows "\<exists>off' result'. verify_loop J es f off m result = add_corrupt off' CorruptionFrameCRC result'"
proof -
  obtain n k where n: "n < length frs" and k: "k < length (frame_bytes (fst (frs ! n)) (snd (frs ! n)))"
    and j: "j = length (stored_frames (take n frs)) + k"
    using stored_frames_locate [OF assms(4)] by blast
  let ?fb = "frame_bytes (fst (frs ! n)) (snd (frs ! n))"
  note sp = stored_frames_split [OF n]
  have r: "rest f = stored_frames (take n frs) @ (?fb[k := v] @ stored_frames (drop (Suc n) frs))"
    using assms(2) k unfolding sp j by (simp add: list_update_append)
  have ne: "v \<noteq> ?fb ! k" using assms(5) k unfolding sp j by (simp add: nth_append)
  obtain f' where f': "fsched f' = []" "rest f' = ?fb[k := v] @ stored_frames (drop (Suc n) frs)"
    and l: "verify_loop J es f off m result = (case verify_frames_fold J es off (take n frs) (m, result) of
      (m', result') \<Rightarrow> verify_loop J es f' (off + length (stored_frames (take n frs))) m' result')"
    using verify_loop_frames [OF assms(1) r frames_ok_take [OF assms(3)]] by blast
  have "fst (ReadFrame f') = Inl (if k < 32 then ErrHeaderCRC else ErrCRCMismatch)"
    by (rule ReadFrame_damaged [OF f' frames_ok_nth [OF assms(3) n] k ne])
  then obtain e where "fst (readFrameRaw f') = Inl (VerifyBad e)" using readFrameRaw_bad by fastforce
  from verify_loop_bad [OF this] l show ?thesis by (auto split: prod.splits)
qed

section \<open>Documents that are not complete\<close>

lemma verify_frame_completed:
  "verify_frame J es off hdr p (m, r) = (m', r') \<Longrightarrow>
   completedDocSeq m' x \<Longrightarrow> completedDocSeq m x \<or> (DocSeq hdr = x \<and> isLastFrame (Flags hdr))"
  by (auto simp: verify_frame_def Let_def accumulateDoc_def split: if_splits)

lemma fold_completed:
  "verify_frames_fold J es off frs (m, r) = (m', r') \<Longrightarrow> completedDocSeq m' x \<Longrightarrow>
   completedDocSeq m x \<or> (\<exists>(h, p)\<in>set frs. DocSeq h = x \<and> isLastFrame (Flags h))"
proof (induction frs arbitrary: off m r)
  case (Cons fr frs)
  obtain h p where fr: "fr = (h, p)" by (cases fr)
  obtain m1 r1 where v: "verify_frame J es off (sealed_header h p) p (m, r) = (m1, r1)"
    by (cases "verify_frame J es off (sealed_header h p) p (m, r)")
  have "completedDocSeq m1 x \<or> (\<exists>(h, p)\<in>set frs. DocSeq h = x \<and> isLastFrame (Flags h))"
    using Cons.IH Cons.prems v fr by simp
  then show ?case using verify_frame_completed [OF v] fr by auto
qed simp

lemma doc_frame_list_last:
  "(h, p) \<in> set (butlast (doc_frame_list d q ps)) \<Longrightarrow> \<not> isLastFrame (Flags h)"
  by (induction ps arbitrary: q) (auto simp: frame_hdr_def split: if_splits)

lemma doc_frame_list_seq: "(h, p) \<in> set (doc_frame_list d q ps) \<Longrightarrow> DocSeq h = d"
  by (induction ps arbitrary: q) (auto simp: frame_hdr_def)

lemma docs_frame_list_append:
  "docs_frame_list d (xs @ ys) = docs_frame_list d xs @ docs_frame_list (d + of_nat (length xs)) ys"
  by (induction xs arbitrary: d) (simp_all add: algebra_simps)

lemma docs_frame_list_seq: "(h, p) \<in> set (docs_frame_list d ds) \<Longrightarrow> \<exists>i<length ds. DocSeq h = d + of_nat i"
proof (induction ds arbitrary: d)
  case (Cons x ds)
  show ?case
  proof (cases "(h, p) \<in> set (doc_frame_list d 0 x)")
    case True
    then show ?thesis using doc_frame_list_seq [OF True] by (intro exI [of _ 0]) simp
  next
    case False
    then obtain i where "i < length ds" "DocSeq h = d + 1 + of_nat i" using Cons by auto
    then show ?thesis by (intro exI [of _ "Suc i"]) (simp add: add.assoc)
  qed
qed simp

lemma doc_frame_list_Nil_iff [simp]: "doc_frame_list d q ps = [] \<longleftrightarrow> ps = []"
  by (cases ps) simp_all

text \<open>In the Frames before the very last one the last Document is never completed.\<close>

lemma last_document_incomplete:
  assumes "length (ds @ [x]) < 2 ^ 32" and "x \<noteq> []" and "n < length (docs_frame_list 0 (ds @ [x]))"
    and "(h, p) \<in> set (take n (docs_frame_list 0 (ds @ [x])))"
  shows "\<not> (DocSeq h = of_nat (length ds) \<and> isLastFrame (Flags h))"
proof -
  let ?xs = "docs_frame_list 0 ds" and ?ys = "doc_frame_list (of_nat (length ds)) 0 x"
  have l: "docs_frame_list 0 (ds @ [x]) = ?xs @ ?ys" by (simp add: docs_frame_list_append)
  have ys: "?ys \<noteq> []" using assms(2) by simp
  have "take n zs = take n (butlast zs)" if "n < length zs" for zs :: "stored_frame list"
    using that by (cases zs rule: rev_cases) simp_all
  then have "take n (?xs @ ?ys) = take n (butlast (?xs @ ?ys))" using assms(3) l by metis
  then have "(h, p) \<in> set (butlast (?xs @ ?ys))" using assms(4) l by (metis in_set_takeD)
  then consider "(h, p) \<in> set ?xs" | "(h, p) \<in> set (butlast ?ys)" using ys by (auto simp: butlast_append)
  then show ?thesis
  proof cases
    case 1
    then obtain i where "i < length ds" "DocSeq h = of_nat i" using docs_frame_list_seq [OF 1] by auto
    then show ?thesis using word_of_nat_inj32 [of i "length ds"] assms(1) by simp
  qed (use doc_frame_list_last in blast)
qed

lemma recordMissing_keeps:
  "CorruptFrames r \<noteq> [] \<Longrightarrow> CorruptFrames (recordMissingIndexedFrames es seq fb cp off r) \<noteq> []"
  by (induction es arbitrary: seq r) (auto simp: add_corrupt_def)

lemma recordMissing_finds:
  "i < length es \<Longrightarrow> \<not> cp (of_nat (seq + i)) \<Longrightarrow> CorruptFrames (recordMissingIndexedFrames es seq fb cp off r) \<noteq> []"
proof (induction es arbitrary: seq i r)
  case (Cons e es)
  show ?case
  proof (cases i)
    case 0
    then show ?thesis using Cons.prems by (auto intro!: recordMissing_keeps simp: add_corrupt_def)
  next
    case (Suc j)
    then show ?thesis using Cons.IH [of j "seq + 1"] Cons.prems by (simp add: ac_simps)
  qed
qed simp

lemma verify_loop_truncated:
  assumes "fsched f = []" and "rest f = take c (stored_frames (docs_frame_list 0 (ds @ [x])))"
    and "c < length (stored_frames (docs_frame_list 0 (ds @ [x])))" and "\<forall>y\<in>set (ds @ [x]). doc_ok y"
    and "length (ds @ [x]) < 2 ^ 32" and "length ds < length es"
    and "\<not> completedDocSeq m (of_nat (length ds))"
  shows "CorruptFrames (verify_loop J es f off m result) \<noteq> []"
proof -
  let ?frs = "docs_frame_list 0 (ds @ [x])"
  have ok: "frames_ok ?frs" by (rule frames_ok_docs [OF assms(4)])
  obtain n k where n: "n < length ?frs" and k: "k < length (frame_bytes (fst (?frs ! n)) (snd (?frs ! n)))"
    and c: "c = length (stored_frames (take n ?frs)) + k"
    using stored_frames_locate [OF assms(3)] by blast
  let ?fb = "frame_bytes (fst (?frs ! n)) (snd (?frs ! n))"
  have r: "rest f = stored_frames (take n ?frs) @ take k ?fb"
    using assms(2) k c by (subst (asm) stored_frames_split [OF n]) simp
  obtain f' where f': "fsched f' = []" "rest f' = take k ?fb"
    and l: "verify_loop J es f off m result = (case verify_frames_fold J es off (take n ?frs) (m, result) of
      (m', result') \<Rightarrow> verify_loop J es f' (off + length (stored_frames (take n ?frs))) m' result')"
    using verify_loop_frames [OF assms(1) r frames_ok_take [OF ok]] by blast
  obtain m' result' where fo: "verify_frames_fold J es off (take n ?frs) (m, result) = (m', result')"
    by (cases "verify_frames_fold J es off (take n ?frs) (m, result)")
  have nc: "\<not> completedDocSeq m' (of_nat (0 + length ds))"
  proof
    assume "completedDocSeq m' (of_nat (0 + length ds))"
    then obtain h p where "(h, p) \<in> set (take n ?frs)" "DocSeq h = of_nat (length ds)" "isLastFrame (Flags h)"
      using fold_completed [OF fo] assms(7) by fastforce
    moreover have "x \<noteq> []" using assms(4) by (simp add: doc_ok_def)
    ultimately show False using last_document_incomplete [OF assms(5) _ n] by blast
  qed
  have "fst (readFrameRaw f') = Inl (if k < 32 then VerifyEOF else VerifyBad ErrTruncated)"
    by (rule readFrameRaw_torn [OF f' frames_ok_nth [OF ok n] k])
  then show ?thesis
    using l fo verify_loop_eof [of f'] verify_loop_bad [of f'] recordMissing_finds [of "length ds" es "completedDocSeq m'" 0] assms(6) nc
    by (cases "k < 32") (simp_all add: add_corrupt_def)
qed

section \<open>The header and the whole Block\<close>

lemma block_bytes_frames:
  "block_bytes s b t ds = block_header_bytes s b t @ stored_frames (docs_frame_list 0 ds)"
  by (simp add: block_bytes_def docs_from_list)

lemma readHeaderStructure_full:
  assumes "fsched f = []" and "rest f = hdr @ tail" and "length hdr = 40"
  shows "fst (readHeaderStructure f) = (slice 0 4 hdr \<noteq> blockMagic \<or> crc32c (slice 0 36 hdr) \<noteq> get_u32 (slice 36 40 hdr), False)"
  using io_ReadFull_full [OF assms] by (simp add: readHeaderStructure_def HeaderSize_def)

lemma block_header_crc:
  "slice 0 4 (block_header_bytes s b t) = blockMagic"
  "crc32c (slice 0 36 (block_header_bytes s b t)) = get_u32 (slice 36 40 (block_header_bytes s b t))"
proof -
  have "length (block_header_prefix s b t) = 36" by (simp add: block_header_prefix_def blockMagic_def)
  then show "slice 0 4 (block_header_bytes s b t) = blockMagic"
    "crc32c (slice 0 36 (block_header_bytes s b t)) = get_u32 (slice 36 40 (block_header_bytes s b t))"
    by (simp_all add: block_header_bytes_def Let_def) (simp add: block_header_prefix_def blockMagic_def)
qed

lemma block_header_damaged:
  assumes "i < 40" and "v \<noteq> block_header_bytes s b t ! i"
  shows "crc32c (slice 0 36 ((block_header_bytes s b t)[i := v])) \<noteq> get_u32 (slice 36 40 ((block_header_bytes s b t)[i := v]))"
proof -
  let ?h = "block_header_bytes s b t"
  note crc = block_header_crc(2) [of s b t]
  show ?thesis
  proof (cases "i < 36")
    case True
    then have "slice 0 36 (?h[i := v]) = (slice 0 36 ?h)[i := v]" "slice 36 40 (?h[i := v]) = slice 36 40 ?h"
      using slice_update_inside [of 0 i 36 ?h v] slice_update_outside [of i 36 40 ?h v] by simp_all
    moreover have "crc32c ((slice 0 36 ?h)[i := v]) \<noteq> crc32c (slice 0 36 ?h)"
      using True assms(2) by (intro crc32c_update_neq) (simp_all add: length_slice nth_slice)
    ultimately show ?thesis using crc by simp
  next
    case False
    then have "slice 0 36 (?h[i := v]) = slice 0 36 ?h" "slice 36 40 (?h[i := v]) = (slice 36 40 ?h)[i - 36 := v]"
      using slice_update_inside [of 36 i 40 ?h v] slice_update_outside [of i 0 36 ?h v] assms(1) by simp_all
    moreover have "(slice 36 40 ?h)[i - 36 := v] \<noteq> slice 36 40 ?h"
      using False assms by (intro list_update_neq) (simp_all add: length_slice nth_slice)
    then have "get_u32 ((slice 36 40 ?h)[i - 36 := v]) \<noteq> get_u32 (slice 36 40 ?h)"
      using le32.get_inject [of "(slice 36 40 ?h)[i - 36 := v]" "slice 36 40 ?h"] by (simp add: length_slice)
    ultimately show ?thesis using crc by simp
  qed
qed

definition empty_maps :: verify_maps where
  "empty_maps = \<lparr>docBySeq = Map.empty, framesByDocSeq = (\<lambda>_. 0), completedDocSeq = (\<lambda>_. False)\<rparr>"

definition empty_result :: VerifyResult where
  "empty_result = \<lparr>CorruptFrames = [], FramesVerified = 0, TransientReadRetries = 0\<rparr>"

text \<open>On a device without faults the result is that of the Frames after the header bytes.\<close>

lemma VerifyBlock_quiet:
  assumes "OpenIndexReader idx isched = Inr es"
  shows "\<exists>f. fsched f = [] \<and> rest f = drop 40 blk \<and>
    VerifyBlock J blk [] idx isched = Inr (let result = verify_loop J es f 40 empty_maps empty_result in
      if fst (fst (readHeaderStructure \<lparr>fdata = blk, fpos = 0, fsched = []\<rparr>))
      then result\<lparr>CorruptFrames := (0, CorruptionHeader) # CorruptFrames result\<rparr> else result)"
proof -
  let ?f = "\<lparr>fdata = blk, fpos = 0, fsched = []\<rparr>"
  obtain corrupt fault f1 where h: "readHeaderStructure ?f = ((corrupt, fault), f1)"
    by (metis surj_pair)
  have "\<not> fault" and f1: "fdata f1 = blk \<and> fsched f1 = []"
    using h io_ReadFull_fsched [of ?f] io_ReadFull_data [of HeaderSize ?f]
    by (auto simp: readHeaderStructure_def split: prod.splits option.splits if_splits; (metis read_err.exhaust)?)+
  then have "verifyHeaderStructure ?f = ((corrupt, 0), f1)" using h by (simp add: verifyHeaderStructure_def)
  then show ?thesis
    using assms h f1
    by (intro exI [of _ "f1\<lparr>fpos := 40\<rparr>"])
      (simp add: VerifyBlock_def file_Open_def verifyFrames_def HeaderSize_def Let_def empty_maps_def
        empty_result_def rest_def)
qed

lemma verify_loop_clean:
  assumes "index_agrees J ds es" and "fsched f = []" and "rest f = stored_frames (docs_frame_list 0 ds)"
  shows "verify_loop J es f 40 empty_maps empty_result =
    \<lparr>CorruptFrames = [], FramesVerified = of_nat (sum_list (map length ds)), TransientReadRetries = 0\<rparr>"
proof -
  let ?frs = "docs_frame_list 0 ds"
  have ag: "length es = length ds" "length ds < 2 ^ 32" "\<forall>k<length ds. doc_ok (ds ! k) \<and> entry_agrees J (ds ! k) (es ! k)"
    using assms(1) by (auto simp: index_agrees_def)
  have fok: "frames_ok ?frs" by (rule frames_ok_docs) (use ag(3) in \<open>auto simp: in_set_conv_nth\<close>)
  have "rest f = stored_frames ?frs @ []" using assms(3) by simp
  from verify_loop_frames [OF assms(2) this fok, of J es 40 empty_maps empty_result]
  obtain f' where f': "fsched f' = []" "rest f' = []" and
    l: "verify_loop J es f 40 empty_maps empty_result = (case verify_frames_fold J es 40 ?frs (empty_maps, empty_result) of
      (m', result') \<Rightarrow> verify_loop J es f' (40 + length (stored_frames ?frs)) m' result')" by blast
  obtain m' result' where fo: "verify_frames_fold J es 40 (docs_frame_list (of_nat 0) ds) (empty_maps, empty_result) = (m', result')"
    "CorruptFrames result' = CorruptFrames empty_result" "TransientReadRetries result' = TransientReadRetries empty_result"
    "FramesVerified result' = FramesVerified empty_result + of_nat (sum_list (map length ds))"
    and mp: "\<forall>i<length ds. framesByDocSeq m' (of_nat (0 + i)) = framesByDocSeq empty_maps (of_nat (0 + i)) + of_nat (length (ds ! i))
       \<and> completedDocSeq m' (of_nat (0 + i))"
    using verify_documents [of ds J es 0 empty_maps 40 empty_result] ag by (auto simp: empty_maps_def)
  have eof: "fst (readFrameRaw f') = Inl VerifyEOF"
    using io_ReadFull_eof [OF f', of FrameHeaderSize] by (simp add: readFrameRaw_def FrameHeaderSize_def)
  have "verify_loop J es f' off m' result' = result'" for off
    unfolding verify_loop_eof [OF eof]
  proof (rule recordMissing_none, intro allI impI)
    fix i assume i: "i < length es"
    then have e: "FrameCount (es ! i) = of_nat (length (ds ! i))" "doc_ok (ds ! i)"
      using ag by (auto simp: entry_agrees_def)
    then have "FrameCount (es ! i) \<noteq> 0" using of_nat_u32_nonzero [of "length (ds ! i)"] by (simp add: doc_ok_def)
    then show "FrameCount (es ! i) \<noteq> 0 \<and> FrameCount (es ! i) \<le> framesByDocSeq m' (of_nat (0 + i)) \<and> completedDocSeq m' (of_nat (0 + i))"
      using mp i ag(1) e by (simp add: empty_maps_def)
  qed
  then have "verify_loop J es f 40 empty_maps empty_result = result'" using l fo(1) by simp
  moreover have "result' = \<lparr>CorruptFrames = [], FramesVerified = of_nat (sum_list (map length ds)), TransientReadRetries = 0\<rparr>"
    using fo(2-4) by (cases result') (simp add: empty_result_def)
  ultimately show ?thesis by simp
qed

section \<open>Properties\<close>

text \<open>
  C10: no false alarm. Verifying a Block whose Documents agree with its index, on a device without
  faults, reports no corruption, counts every Frame and needs no re-read.
\<close>

theorem verify_clean_block:
  assumes "index_agrees J ds es" and "OpenIndexReader idx [] = Inr es"
  shows "VerifyBlock J (block_bytes s b t ds) [] idx [] =
    Inr \<lparr>CorruptFrames = [], FramesVerified = of_nat (sum_list (map length ds)), TransientReadRetries = 0\<rparr>"
proof -
  let ?blk = "block_bytes s b t ds"
  obtain f where f: "fsched f = []" "rest f = drop 40 ?blk"
    and v: "VerifyBlock J ?blk [] idx [] = Inr (let result = verify_loop J es f 40 empty_maps empty_result in
      if fst (fst (readHeaderStructure \<lparr>fdata = ?blk, fpos = 0, fsched = []\<rparr>))
      then result\<lparr>CorruptFrames := (0, CorruptionHeader) # CorruptFrames result\<rparr> else result)"
    using VerifyBlock_quiet [OF assms(2)] by blast
  have "\<not> fst (fst (readHeaderStructure \<lparr>fdata = ?blk, fpos = 0, fsched = []\<rparr>))"
    using readHeaderStructure_full [of "\<lparr>fdata = ?blk, fpos = 0, fsched = []\<rparr>" "block_header_bytes s b t"]
      block_header_crc [of s b t] by (simp add: rest_def block_bytes_frames)
  moreover have "rest f = stored_frames (docs_frame_list 0 ds)" using f(2) by (simp add: block_bytes_frames)
  ultimately show ?thesis using v verify_loop_clean [OF assms(1) f(1)] by (simp add: Let_def)
qed

text \<open>An encrypted Document and the decoder results that describe its envelope.\<close>

definition sample_json :: envelope_json where
  "sample_json = \<lparr>jsonPlaintextSHA256 = (\<lambda>_. Some (replicate 32 1)), jsonCiphertextLength = (\<lambda>_. Some (Some 3))\<rparr>"

definition encrypted_entry :: IndexEntry where
  "encrypted_entry = sample_entry\<lparr>EncryptionEnvelope := [123, 125]\<rparr>"

lemma encrypted_entry_storable: "entry_storable encrypted_entry"
  by (simp add: entry_storable_def encrypted_entry_def sample_entry_def entry_typed_def int64_range_def
      validateEntryFieldLens_def lit_def maxUint16_def encodeIndexEntry_def idxMaxEntryLen_def
      idxEntryVersion_def idxEntryVersionV2_def)

lemma sample_agrees: "index_agrees sample_json [[[7, 8, 9]]] (map stored_entry [encrypted_entry])"
  by (simp add: index_agrees_def doc_ok_def entry_agrees_def sample_json_def encrypted_entry_def
      sample_entry_def stored_entry_def isZeroSHA256_def MaxFramePayload_def)

lemma sample_index: "OpenIndexReader (idx_file_bytes [encrypted_entry]) [] = Inr (map stored_entry [encrypted_entry])"
  using OpenIndexReader_file encrypted_entry_storable by simp

theorem verify_clean_block_witness:
  "VerifyBlock sample_json (block_bytes 7 9 0 [[[7, 8, 9]]]) [] (idx_file_bytes [encrypted_entry]) [] =
    Inr \<lparr>CorruptFrames = [], FramesVerified = 1, TransientReadRetries = 0\<rparr>"
  using verify_clean_block [OF sample_agrees sample_index] by simp

text \<open>
  C8: every single changed byte of a Block is found. Whatever byte of the header or of any Frame is
  changed, verifying the Block reports at least one corruption.
\<close>

theorem verify_finds_damage:
  assumes "\<forall>d\<in>set ds. doc_ok d" and "OpenIndexReader idx [] = Inr es"
    and "i < length (block_bytes s b t ds)" and "v \<noteq> block_bytes s b t ds ! i"
  shows "\<exists>r. VerifyBlock J ((block_bytes s b t ds)[i := v]) [] idx [] = Inr r \<and> CorruptFrames r \<noteq> []"
proof -
  let ?h = "block_header_bytes s b t" and ?fr = "stored_frames (docs_frame_list 0 ds)"
  let ?blk = "(block_bytes s b t ds)[i := v]"
  obtain f where f: "fsched f = []" "rest f = drop 40 ?blk"
    and vb: "VerifyBlock J ?blk [] idx [] = Inr (let result = verify_loop J es f 40 empty_maps empty_result in
      if fst (fst (readHeaderStructure \<lparr>fdata = ?blk, fpos = 0, fsched = []\<rparr>))
      then result\<lparr>CorruptFrames := (0, CorruptionHeader) # CorruptFrames result\<rparr> else result)"
    using VerifyBlock_quiet [OF assms(2)] by blast
  show ?thesis
  proof (cases "i < 40")
    case True
    then have b: "?blk = ?h[i := v] @ ?fr" by (simp add: block_bytes_frames list_update_append)
    have "v \<noteq> ?h ! i" using assms(4) True by (simp add: block_bytes_frames nth_append)
    from block_header_damaged [OF True this] have
      "fst (fst (readHeaderStructure \<lparr>fdata = ?blk, fpos = 0, fsched = []\<rparr>))"
      using readHeaderStructure_full [of "\<lparr>fdata = ?blk, fpos = 0, fsched = []\<rparr>" "?h[i := v]" ?fr]
      by (simp add: rest_def b)
    then show ?thesis using vb by (simp add: Let_def)
  next
    case False
    then have "rest f = ?fr[i - 40 := v]" using f(2) by (simp add: block_bytes_frames list_update_append)
    moreover have "v \<noteq> ?fr ! (i - 40)" "i - 40 < length ?fr"
      using assms(3,4) False by (auto simp: block_bytes_frames nth_append)
    ultimately obtain off' r' where "verify_loop J es f 40 empty_maps empty_result = add_corrupt off' CorruptionFrameCRC r'"
      using verify_loop_damaged [OF f(1) _ frames_ok_docs [OF assms(1)]] by blast
    then show ?thesis using vb by (simp add: Let_def add_corrupt_def)
  qed
qed

theorem verify_finds_damage_witness:
  "\<exists>r. VerifyBlock sample_json ((block_bytes 7 9 0 [])[0 := 0]) [] (idx_file_bytes [encrypted_entry]) [] = Inr r
    \<and> CorruptFrames r \<noteq> []"
  by (rule verify_finds_damage [OF _ sample_index])
    (simp_all add: block_bytes_def block_header_bytes_def block_header_prefix_def blockMagic_def lit_def Let_def)

text \<open>
  C21: every truncation of a Block is found. If any number of bytes at the end of a Block is missing
  while its index still lists all its Documents, verifying it reports at least one corruption.
\<close>

theorem verify_finds_truncation:
  assumes "\<forall>d\<in>set ds. doc_ok d" and "ds \<noteq> []" and "length ds \<le> length es" and "length ds < 2 ^ 32"
    and "OpenIndexReader idx [] = Inr es" and "c < length (block_bytes s b t ds)"
  shows "\<exists>r. VerifyBlock J (take c (block_bytes s b t ds)) [] idx [] = Inr r \<and> CorruptFrames r \<noteq> []"
proof -
  let ?blk = "take c (block_bytes s b t ds)"
  obtain ds' x where ds: "ds = ds' @ [x]" using assms(2) by (metis rev_exhaust)
  obtain f where f: "fsched f = []" "rest f = drop 40 ?blk"
    and vb: "VerifyBlock J ?blk [] idx [] = Inr (let result = verify_loop J es f 40 empty_maps empty_result in
      if fst (fst (readHeaderStructure \<lparr>fdata = ?blk, fpos = 0, fsched = []\<rparr>))
      then result\<lparr>CorruptFrames := (0, CorruptionHeader) # CorruptFrames result\<rparr> else result)"
    using VerifyBlock_quiet [OF assms(5)] by blast
  show ?thesis
  proof (cases "c < 40")
    case True
    have "length (rest \<lparr>fdata = ?blk, fpos = 0, fsched = []\<rparr>) < HeaderSize"
      using True by (simp add: rest_def HeaderSize_def)
    then have "fst (fst (readHeaderStructure \<lparr>fdata = ?blk, fpos = 0, fsched = []\<rparr>))"
      using io_ReadFull_eof [of "\<lparr>fdata = ?blk, fpos = 0, fsched = []\<rparr>" HeaderSize]
        io_ReadFull_short [of "\<lparr>fdata = ?blk, fpos = 0, fsched = []\<rparr>" HeaderSize]
      by (cases "rest \<lparr>fdata = ?blk, fpos = 0, fsched = []\<rparr> = []") (auto simp: readHeaderStructure_def HeaderSize_def)
    then show ?thesis using vb by (simp add: Let_def)
  next
    case False
    have r: "rest f = take (c - 40) (stored_frames (docs_frame_list 0 (ds' @ [x])))"
      using f(2) False by (simp add: block_bytes_frames ds drop_take)
    have "CorruptFrames (verify_loop J es f 40 empty_maps empty_result) \<noteq> []"
      by (rule verify_loop_truncated [OF f(1) r])
        (use assms False in \<open>auto simp: ds block_bytes_frames empty_maps_def\<close>)
    then show ?thesis using vb by (simp add: Let_def)
  qed
qed

theorem verify_finds_truncation_witness:
  "\<exists>r. VerifyBlock sample_json (take 72 (block_bytes 7 9 0 [[[7, 8, 9]]])) [] (idx_file_bytes [encrypted_entry]) [] = Inr r
    \<and> CorruptFrames r \<noteq> []"
  by (rule verify_finds_truncation [OF _ _ _ _ sample_index])
    (simp_all add: doc_ok_def MaxFramePayload_def block_bytes_def length_frame_bytes)

end
