(* ===== verification/Block_Verify_Retry.thy ===== *)
theory Block_Verify_Retry
  imports Block_Verify_Sound
begin

text \<open>
  The bounded re-read of the verifier: one I/O fault anywhere in the reads of a Block never changes
  what is reported about its bytes.
\<close>

section \<open>Counting faults\<close>

definition faults :: "osfile \<Rightarrow> nat" where
  "faults f = length (filter (\<lambda>oc. oc \<noteq> Done) (fsched f))"

lemma next_outcome_faults:
  "next_outcome f = (oc, f') \<Longrightarrow> faults f = faults f' + (if oc = Done then 0 else 1)"
  by (auto simp: next_outcome_def faults_def split: list.splits)

lemma io_ReadFull_faults:
  assumes "io_ReadFull n f = ((got, err), f')"
  shows "faults f' \<le> faults f \<and> (err = Some IOError \<longrightarrow> faults f' < faults f)"
proof (cases "n = 0")
  case False
  obtain oc f1 where o1: "next_outcome f = (oc, f1)" by (cases "next_outcome f")
  have "faults f' = faults f1" "err = Some IOError \<longrightarrow> oc \<noteq> Done"
    using assms False o1
    by (auto simp: io_ReadFull_def Let_def faults_def split: io_outcome.splits if_splits)
  then show ?thesis using next_outcome_faults [OF o1] by auto
qed (use assms in auto)

lemma file_Seek_faults: "file_Seek p f = (ok, f') \<Longrightarrow> faults f' \<le> faults f \<and> (\<not> ok \<longrightarrow> faults f' < faults f)"
  by (auto simp: file_Seek_def faults_def split: prod.splits if_splits dest!: next_outcome_faults)

lemma readFrameRaw_faults:
  assumes "readFrameRaw f = (res, f')"
  shows "faults f' \<le> faults f \<and> (res = Inl ErrVerifyRead \<longrightarrow> faults f' < faults f) \<and> fdata f' = fdata f"
proof -
  obtain buf err f1 where h: "io_ReadFull FrameHeaderSize f = ((buf, err), f1)"
    by (cases "io_ReadFull FrameHeaderSize f") auto
  note hf = io_ReadFull_faults [OF h] io_ReadFull_data [OF h]
  show ?thesis
  proof (cases err)
    case (Some e)
    then show ?thesis using assms h hf by (cases e) (auto simp: readFrameRaw_def)
  next
    case None
    show ?thesis
    proof (cases "parseRawFrameHeader buf")
      case (Inl e)
      then have "e \<noteq> ErrVerifyRead" by (auto simp: parseRawFrameHeader_def split: if_splits)
      then show ?thesis using assms h None Inl hf by (auto simp: readFrameRaw_def)
    next
      case (Inr hdr)
      obtain payload perr f2 where p: "io_ReadFull (unat (PayloadLen hdr)) f1 = ((payload, perr), f2)"
        by (cases "io_ReadFull (unat (PayloadLen hdr)) f1") auto
      note pf = io_ReadFull_faults [OF p] io_ReadFull_data [OF p]
      have f': "f' = f2" and r: "res = Inl ErrVerifyRead \<longrightarrow> perr = Some IOError"
        using assms h None Inr p
        by (auto simp: readFrameRaw_def readRawFramePayload_def split: option.splits if_splits)
          (metis read_err.exhaust)+
      then show ?thesis using hf pf by auto
    qed
  qed
qed

lemma readFrameRaw_quiet:
  assumes "readFrameRaw f = (res, f')" and "res \<noteq> Inl ErrVerifyRead"
  shows "readFrameRaw (quiet f) = (res, quiet f')"
proof -
  obtain buf err f1 where h: "io_ReadFull FrameHeaderSize f = ((buf, err), f1)"
    by (cases "io_ReadFull FrameHeaderSize f") auto
  have "err \<noteq> Some IOError" using assms h by (auto simp: readFrameRaw_def)
  note hq = io_ReadFull_quiet [OF h this]
  show ?thesis
  proof (cases "\<exists>hdr. err = None \<and> parseRawFrameHeader buf = Inr hdr")
    case True
    then obtain hdr where n: "err = None" and hdr: "parseRawFrameHeader buf = Inr hdr" by blast
    obtain payload perr f2 where p: "io_ReadFull (unat (PayloadLen hdr)) f1 = ((payload, perr), f2)"
      by (cases "io_ReadFull (unat (PayloadLen hdr)) f1") auto
    have "perr \<noteq> Some IOError" using assms h n hdr p by (auto simp: readFrameRaw_def readRawFramePayload_def)
    from io_ReadFull_quiet [OF p this] hq show ?thesis
      using assms(1) h n hdr p
      by (auto simp: readFrameRaw_def readRawFramePayload_def split: option.splits if_splits)
  next
    case False
    then show ?thesis
      using assms(1) h hq
      by (cases err) (auto simp: readFrameRaw_def split: sum.splits)
  qed
qed

lemma readFrameWithRetry_one_fault:
  assumes "faults f \<le> 1" and "fpos f = off"
  shows "\<exists>res f' n'. readFrameWithRetry f off n = (res, f', n') \<and> readFrameRaw (quiet f) = (res, quiet f') \<and> faults f' \<le> 1"
proof -
  obtain res f1 where r: "readFrameRaw f = (res, f1)" by (cases "readFrameRaw f")
  note rf = readFrameRaw_faults [OF r]
  show ?thesis
  proof (cases "res = Inl ErrVerifyRead")
    case False
    then show ?thesis using r rf readFrameRaw_quiet [OF r False] assms(1) by (auto simp: readFrameWithRetry_def)
  next
    case True
    then have z: "faults f1 = 0" using rf assms(1) by simp
    obtain ok f2 where s: "file_Seek off f1 = (ok, f2)" by (cases "file_Seek off f1")
    have ok: "ok" and z2: "faults f2 = 0" using file_Seek_faults [OF s] z by auto
    have "quiet f2 = quiet f"
      using file_Seek_quiet [of off f1 f2] s ok rf assms(2) by (cases f) (simp add: quiet_def)
    moreover obtain res2 f3 where r2: "readFrameRaw f2 = (res2, f3)" by (cases "readFrameRaw f2")
    moreover have "res2 \<noteq> Inl ErrVerifyRead" using readFrameRaw_faults [OF r2] z2 by auto
    ultimately show ?thesis
      using r True s ok readFrameRaw_quiet [OF r2] readFrameRaw_faults [OF r2] z2
      by (simp add: readFrameWithRetry_def)
  qed
qed

section \<open>The loop up to the retry counter\<close>

definition same_findings :: "VerifyResult \<Rightarrow> VerifyResult \<Rightarrow> bool" where
  "same_findings r r' \<longleftrightarrow> CorruptFrames r = CorruptFrames r' \<and> FramesVerified r = FramesVerified r'"

lemma same_findings_add: "same_findings r r' \<Longrightarrow> same_findings (add_corrupt off ty r) (add_corrupt off ty r')"
  by (simp add: same_findings_def add_corrupt_def)

lemma same_findings_check:
  "same_findings r r' \<Longrightarrow> same_findings (checkDocIntegrity J acc d es off r) (checkDocIntegrity J acc d es off r')"
  by (auto simp: checkDocIntegrity_def checkDocSHA_def checkEncryptedDocSHAMetadata_def checkEncryptedDocPayloadLength_def
      intro: same_findings_add split: option.splits sum.splits meta_err.splits)

lemma same_findings_missing:
  "same_findings r r' \<Longrightarrow> same_findings (recordMissingIndexedFrames es seq fb cp off r) (recordMissingIndexedFrames es seq fb cp off r')"
  by (induction es arbitrary: seq r r') (auto simp: same_findings_add)

lemma same_findings_frame:
  assumes "same_findings r r'" and "verify_frame J es off hdr p (m, r) = (m1, r1)" and "verify_frame J es off hdr p (m, r') = (m2, r2)"
  shows "m1 = m2 \<and> same_findings r1 r2"
proof -
  have "same_findings (r\<lparr>FramesVerified := FramesVerified r + 1\<rparr>) (r'\<lparr>FramesVerified := FramesVerified r' + 1\<rparr>)"
    using assms(1) by (simp add: same_findings_def)
  then show ?thesis
    using assms(2,3) by (auto simp: verify_frame_def Let_def accumulateDoc_def intro: same_findings_check split: if_splits)
qed

lemma readFrameRaw_pos:
  assumes "readFrameRaw f = (Inr (hdr, payload), f')"
  shows "fpos f' = fpos f + FrameHeaderSize + unat (PayloadLen hdr)"
proof -
  have "ReadFrame f = (Inr (hdr, payload), f')" using assms by (simp add: readFrameRaw_eq)
  moreover from this have "length payload = unat (PayloadLen hdr)"
    by (auto simp: ReadFrame_def split: prod.splits option.splits sum.splits if_splits
        dest: io_ReadFull_None_length)
  ultimately show ?thesis using ReadFrame_progress by (simp add: FrameHeaderSize_def)
qed

lemma verify_loop_one_fault:
  "faults f \<le> 1 \<Longrightarrow> fpos f = off \<Longrightarrow> same_findings r r' \<Longrightarrow>
   same_findings (verify_loop J es f off m r) (verify_loop J es (quiet f) off m r')"
proof (induction J es f off m r arbitrary: r' rule: verify_loop.induct)
  case (1 J es f off m r)
  obtain res f1 n' where rt: "readFrameWithRetry f off (TransientReadRetries r) = (res, f1, n')"
    and q: "readFrameRaw (quiet f) = (res, quiet f1)" and flt: "faults f1 \<le> 1"
    using readFrameWithRetry_one_fault [OF "1.prems"(1,2)] by blast
  have nv: "res \<noteq> Inl ErrVerifyRead" using readFrameRaw_faults [OF q] by (auto simp: faults_def)
  note rq = readFrameWithRetry_quiet [OF q nv, of off "TransientReadRetries r'"]
  have sf: "same_findings (r\<lparr>TransientReadRetries := n'\<rparr>) r'" using "1.prems"(3) by (simp add: same_findings_def)
  show ?case
  proof (cases res)
    case (Inl e)
    then show ?thesis
      using rt rq sf
      by (subst (1 2) verify_loop.simps) (auto intro: same_findings_missing same_findings_add)
  next
    case (Inr x)
    obtain hdr payload where x: "x = (hdr, payload)" by (cases x)
    obtain m1 r1 where v: "verify_frame J es off hdr payload (m, r\<lparr>TransientReadRetries := n'\<rparr>) = (m1, r1)"
      by (cases "verify_frame J es off hdr payload (m, r\<lparr>TransientReadRetries := n'\<rparr>)")
    obtain m2 r2 where v2: "verify_frame J es off hdr payload (m, r') = (m2, r2)"
      by (cases "verify_frame J es off hdr payload (m, r')")
    have m: "m1 = m2" "same_findings r1 r2" using same_findings_frame [OF sf v v2] by auto
    have pos: "fpos f1 = off + FrameHeaderSize + unat (PayloadLen hdr)"
      using readFrameRaw_pos [of "quiet f"] q Inr x "1.prems"(2) by simp
    have "same_findings (verify_loop J es f1 (off + FrameHeaderSize + unat (PayloadLen hdr)) m1 r1)
        (verify_loop J es (quiet f1) (off + FrameHeaderSize + unat (PayloadLen hdr)) m1 r2)"
      by (rule "1.IH" [OF rt [symmetric] Inr x [symmetric] refl v [symmetric] flt pos m(2)])
    then show ?thesis
      using rt rq Inr x v v2 m(1) by (subst (1 2) verify_loop.simps) simp
  qed
qed

section \<open>The whole Block\<close>

lemma readHeaderStructure_run:
  assumes "readHeaderStructure f = ((c, io), f')"
  shows "faults f' \<le> faults f \<and> (io \<longrightarrow> faults f' < faults f) \<and> fdata f' = fdata f \<and>
    (\<not> io \<longrightarrow> readHeaderStructure (quiet f) = ((c, io), quiet f'))"
proof -
  obtain hdr err where h: "io_ReadFull HeaderSize f = ((hdr, err), f')"
    using assms by (auto simp: readHeaderStructure_def split: prod.splits)
  have io: "io = (err = Some IOError)"
    using assms h by (cases err; (cases "the err")?) (auto simp: readHeaderStructure_def split: if_splits)
  show ?thesis
    using assms h io io_ReadFull_faults [OF h] io_ReadFull_data [OF h] io_ReadFull_quiet [OF h]
    by (auto simp: readHeaderStructure_def)
qed

lemma verifyHeaderStructure_one_fault:
  assumes "faults f \<le> 1" and "fpos f = 0" and "verifyHeaderStructure f = ((c, n), f')"
  shows "c = fst (fst (readHeaderStructure (quiet f))) \<and> faults f' \<le> 1 \<and> fdata f' = fdata f"
proof -
  obtain c1 io f1 where r: "readHeaderStructure f = ((c1, io), f1)" by (metis surj_pair)
  note run = readHeaderStructure_run [OF r]
  show ?thesis
  proof (cases io)
    case False
    then show ?thesis using assms(1,3) r run by (auto simp: verifyHeaderStructure_def)
  next
    case True
    then have z: "faults f1 = 0" using run assms(1) by simp
    obtain ok f2 where s: "file_Seek 0 f1 = (ok, f2)" by (cases "file_Seek 0 f1")
    have ok: "ok" and z2: "faults f2 = 0" using file_Seek_faults [OF s] z by auto
    have q: "quiet f2 = quiet f" "fdata f2 = fdata f"
      using file_Seek_quiet [of 0 f1 f2] s ok run assms(2) by (cases f, simp add: quiet_def)+
    obtain c2 io2 f3 where r2: "readHeaderStructure f2 = ((c2, io2), f3)" by (metis surj_pair)
    note run2 = readHeaderStructure_run [OF r2]
    have "\<not> io2" using run2 z2 by auto
    then show ?thesis
      using assms(3) r True s ok r2 run2 q z2 by (auto simp: verifyHeaderStructure_def)
  qed
qed

lemma file_Open_faults: "file_Open bs sched = (ok, f) \<Longrightarrow> faults f \<le> length (filter (\<lambda>oc. oc \<noteq> Done) sched)"
  by (auto simp: file_Open_def faults_def next_outcome_def split: list.splits prod.splits)

lemma VerifyBlock_result:
  assumes "VerifyBlock J blk sched idx isched = Inr r" and "length (filter (\<lambda>oc. oc \<noteq> Done) sched) \<le> 1"
    and "OpenIndexReader idx isched = Inr es"
  shows "\<exists>f. faults f \<le> 1 \<and> fpos f = 40 \<and> fdata f = blk \<and>
    same_findings r (let result = verify_loop J es f 40 empty_maps empty_result in
      if fst (fst (readHeaderStructure \<lparr>fdata = blk, fpos = 0, fsched = []\<rparr>))
      then result\<lparr>CorruptFrames := (0, CorruptionHeader) # CorruptFrames result\<rparr> else result)"
proof -
  obtain f c n f1 f2 where o1: "file_Open blk sched = (True, f)" and h: "verifyHeaderStructure f = ((c, n), f1)"
    and s: "file_Seek HeaderSize f1 = (True, f2)"
    and r: "r = (let result = verifyFrames J f2 es; result1 = result\<lparr>TransientReadRetries := TransientReadRetries result + n\<rparr>
                 in if c then result1\<lparr>CorruptFrames := (0, CorruptionHeader) # CorruptFrames result1\<rparr> else result1)"
    using assms(1,3) by (auto simp: VerifyBlock_def Let_def split: prod.splits if_splits)
  have f: "faults f \<le> 1" "fpos f = 0" "fdata f = blk"
    using file_Open_faults [OF o1] assms(2) file_Open_quiet [OF o1] by auto
  note hs = verifyHeaderStructure_one_fault [OF f(1,2) h]
  have "quiet f = \<lparr>fdata = blk, fpos = 0, fsched = []\<rparr>" using f by (cases f) (simp add: quiet_def)
  then have c: "c = fst (fst (readHeaderStructure \<lparr>fdata = blk, fpos = 0, fsched = []\<rparr>))" using hs by simp
  have f2: "faults f2 \<le> 1" "fpos f2 = 40" "fdata f2 = blk"
    using file_Seek_faults [OF s] hs file_Seek_quiet [OF s] f(3) by (auto simp: HeaderSize_def)
  show ?thesis
    using f2 r by (intro exI [of _ f2]) (simp add: c [symmetric] same_findings_def verifyFrames_def Let_def HeaderSize_def
        empty_maps_def empty_result_def)
qed

section \<open>Properties\<close>

text \<open>
  C26: one read fault does not change the verdict. For any Block file and a device on which at most one
  call fails, a verification that returns a result reports the same corruptions and the same number
  of verified Frames as on a device without faults: the failed read is repeated once.
\<close>

theorem verify_one_fault:
  assumes "length (filter (\<lambda>oc. oc \<noteq> Done) sched) \<le> 1" and "VerifyBlock J blk sched idx [] = Inr r"
  shows "\<exists>r0. VerifyBlock J blk [] idx [] = Inr r0 \<and> CorruptFrames r = CorruptFrames r0 \<and> FramesVerified r = FramesVerified r0"
proof -
  obtain es where es: "OpenIndexReader idx [] = Inr es"
    using assms(2) by (auto simp: VerifyBlock_def split: sum.splits)
  obtain f where f: "faults f \<le> 1" "fpos f = 40" "fdata f = blk"
    and r: "same_findings r (let result = verify_loop J es f 40 empty_maps empty_result in
      if fst (fst (readHeaderStructure \<lparr>fdata = blk, fpos = 0, fsched = []\<rparr>))
      then result\<lparr>CorruptFrames := (0, CorruptionHeader) # CorruptFrames result\<rparr> else result)"
    using VerifyBlock_result [OF assms(2,1) es] by blast
  obtain r0 where v0: "VerifyBlock J blk [] idx [] = Inr r0"
    using VerifyBlock_quiet [OF es] by blast
  from VerifyBlock_result [OF v0 _ es] obtain f0 where f0: "faults f0 \<le> 1" "fpos f0 = 40" "fdata f0 = blk"
    and r0: "same_findings r0 (let result = verify_loop J es f0 40 empty_maps empty_result in
      if fst (fst (readHeaderStructure \<lparr>fdata = blk, fpos = 0, fsched = []\<rparr>))
      then result\<lparr>CorruptFrames := (0, CorruptionHeader) # CorruptFrames result\<rparr> else result)" by auto
  have q: "quiet f = quiet f0" using f(2,3) f0(2,3) by (cases f, cases f0) (simp add: quiet_def)
  have loops: "same_findings (verify_loop J es f 40 empty_maps empty_result) (verify_loop J es f0 40 empty_maps empty_result)"
    using verify_loop_one_fault [OF f(1,2), of empty_result empty_result J es empty_maps]
      verify_loop_one_fault [OF f0(1,2), of empty_result empty_result J es empty_maps] q
    by (simp add: same_findings_def)
  then show ?thesis using r r0 v0 by (auto simp: same_findings_def Let_def split: if_splits)
qed

theorem verify_one_fault_witness:
  "\<exists>r r0. VerifyBlock sample_json (block_bytes 7 9 0 []) [Done, Fault 3] (idx_file_bytes [encrypted_entry]) [] = Inr r \<and>
     VerifyBlock sample_json (block_bytes 7 9 0 []) [] (idx_file_bytes [encrypted_entry]) [] = Inr r0 \<and>
     CorruptFrames r = CorruptFrames r0"
proof -
  let ?sched = "[Done, Fault 3]"
  obtain r where r: "VerifyBlock sample_json (block_bytes 7 9 0 []) ?sched (idx_file_bytes [encrypted_entry]) [] = Inr r"
    by (cases "VerifyBlock sample_json (block_bytes 7 9 0 []) ?sched (idx_file_bytes [encrypted_entry]) []")
      (simp_all add: VerifyBlock_def sample_index file_Open_def next_outcome_def verifyHeaderStructure_def readHeaderStructure_def
        io_ReadFull_def HeaderSize_def Let_def file_Seek_def rest_def block_bytes_def split: if_splits prod.splits option.splits)
  from verify_one_fault [OF _ this] r show ?thesis by auto
qed

end
