(* ===== verification/Block_Files.thy ===== *)
theory Block_Files
  imports Scrap_Prelude
begin

text \<open>
  \<open>internal/block/listing.go\<close> and \<open>internal/block/quarantine.go\<close>: the names of the files of a Block,
  the listing of the sealed Blocks of a directory, and moving a Block in and out of quarantine. A
  directory is a map from names to contents of any type; every call that changes or inspects it takes the next
  outcome of a schedule.
\<close>

section \<open>Names\<close>

definition hex_digit :: "nat \<Rightarrow> u8" where
  "hex_digit n = (if n < 10 then of_nat (48 + n) else of_nat (87 + n))"

definition hex_value :: "u8 \<Rightarrow> nat option" where
  "hex_value c =
     (if 48 \<le> c \<and> c \<le> 57 then Some (unat c - 48)
      else if 97 \<le> c \<and> c \<le> 102 then Some (unat c - 87)
      else if 65 \<le> c \<and> c \<le> 70 then Some (unat c - 55)
      else None)"

text \<open>\<open>fmt.Sprintf("%016x", id)\<close>.\<close>

primrec hex_digits :: "nat \<Rightarrow> nat \<Rightarrow> bytes" where
  "hex_digits 0 n = []"
| "hex_digits (Suc k) n = hex_digits k (n div 16) @ [hex_digit (n mod 16)]"

definition hex16 :: "u64 \<Rightarrow> bytes" where
  "hex16 blockID = hex_digits 16 (unat blockID)"

text \<open>\<open>strconv.ParseUint(s, 16, 64)\<close>.\<close>

primrec parse_hex_loop :: "nat \<Rightarrow> bytes \<Rightarrow> nat option" where
  "parse_hex_loop acc [] = Some acc"
| "parse_hex_loop acc (c # cs) =
     (case hex_value c of
        None \<Rightarrow> None
      | Some d \<Rightarrow> if acc \<ge> 2 ^ 60 then None else parse_hex_loop (acc * 16 + d) cs)"

definition ParseUint16 :: "bytes \<Rightarrow> u64 option" where
  "ParseUint16 s = (if s = [] then None else map_option of_nat (parse_hex_loop 0 s))"

definition blkSuffix :: bytes where "blkSuffix = lit ''.blk''"
definition idxSuffix :: bytes where "idxSuffix = lit ''.idx''"
definition QuarantineSuffix :: bytes where "QuarantineSuffix = lit ''.quarantine''"

definition FilePath :: "u64 \<Rightarrow> bytes" where
  "FilePath blockID = hex16 blockID @ blkSuffix"

definition IdxFilePath :: "u64 \<Rightarrow> bytes" where
  "IdxFilePath blockID = hex16 blockID @ idxSuffix"

definition HasSuffix :: "bytes \<Rightarrow> bytes \<Rightarrow> bool" where
  "HasSuffix name suffix \<longleftrightarrow> length suffix \<le> length name \<and> drop (length name - length suffix) name = suffix"

definition TrimSuffix :: "bytes \<Rightarrow> bytes \<Rightarrow> bytes" where
  "TrimSuffix name suffix = (if HasSuffix name suffix then take (length name - length suffix) name else name)"

definition blockIDHexWidth :: nat where "blockIDHexWidth = 16"

definition is_upper :: "u8 \<Rightarrow> bool" where
  "is_upper c \<longleftrightarrow> 65 \<le> c \<and> c \<le> 90"

definition parseCanonicalBlockID :: "bytes \<Rightarrow> u64 option" where
  "parseCanonicalBlockID hexPart =
     (if length hexPart \<noteq> blockIDHexWidth then None
      else if list_ex is_upper hexPart then None
      else ParseUint16 hexPart)"

section \<open>Listings\<close>

record Info =
  infoBlockID :: u64
  infoBlkPath :: bytes
  infoIdxPath :: bytes

text \<open>\<open>ListSealedBlocks\<close> for the names \<open>os.ReadDir\<close> returns, \<open>None\<close> when it fails; paths are relative to
  the directory.\<close>

definition sealed_info :: "u64 \<Rightarrow> bytes \<Rightarrow> Info option" where
  "sealed_info openBlockID name =
     (if \<not> HasSuffix name blkSuffix then None
      else case parseCanonicalBlockID (TrimSuffix name blkSuffix) of
        None \<Rightarrow> None
      | Some id1 \<Rightarrow> if id1 = openBlockID then None
          else Some \<lparr>infoBlockID = id1, infoBlkPath = name, infoIdxPath = IdxFilePath id1\<rparr>)"

definition ListSealedBlocks :: "bytes list option \<Rightarrow> u64 \<Rightarrow> Info list option" where
  "ListSealedBlocks entries openBlockID =
     map_option (\<lambda>names. sort_key infoBlockID (List.map_filter (sealed_info openBlockID) names)) entries"

definition quarantined_id :: "bytes \<Rightarrow> u64 option" where
  "quarantined_id name =
     (if \<not> HasSuffix name (blkSuffix @ QuarantineSuffix) then None
      else ParseUint16 (TrimSuffix name (blkSuffix @ QuarantineSuffix)))"

definition ListQuarantined :: "bytes list option \<Rightarrow> u64 list option" where
  "ListQuarantined entries = map_option (\<lambda>names. sort (remdups (List.map_filter quarantined_id names))) entries"

section \<open>Quarantine\<close>

record 'c dirfs =
  dfiles :: "bytes \<rightharpoonup> 'c"
  dsched :: "bool list"

datatype stat_result = StatExists | StatNotExist | StatError

definition next_ok :: "'c dirfs \<Rightarrow> bool \<times> 'c dirfs" where
  "next_ok d = (case dsched d of [] \<Rightarrow> (True, d) | b # bs \<Rightarrow> (b, d\<lparr>dsched := bs\<rparr>))"

definition os_Stat :: "bytes \<Rightarrow> 'c dirfs \<Rightarrow> stat_result \<times> 'c dirfs" where
  "os_Stat name d =
     (case next_ok d of (ok, d1) \<Rightarrow>
        (if \<not> ok then StatError else if dfiles d1 name = None then StatNotExist else StatExists, d1))"

definition os_Rename :: "bytes \<Rightarrow> bytes \<Rightarrow> 'c dirfs \<Rightarrow> bool \<times> 'c dirfs" where
  "os_Rename old new d =
     (case next_ok d of (ok, d1) \<Rightarrow>
        (case dfiles d1 old of
           None \<Rightarrow> (False, d1)
         | Some c \<Rightarrow> if ok then (True, d1\<lparr>dfiles := (dfiles d1)(old := None, new := Some c)\<rparr>) else (False, d1)))"

text \<open>\<open>syncIndexDir\<close>: opening and syncing the directory.\<close>

definition syncIndexDir :: "'c dirfs \<Rightarrow> bool \<times> 'c dirfs" where
  "syncIndexDir d = (case next_ok d of (ok, d1) \<Rightarrow> if \<not> ok then (False, d1) else next_ok d1)"

datatype quarantine_err =
    QuarantineStatIdx
  | QuarantineBlk
  | QuarantineIdx
  | QuarantineSync
  | NotQuarantined
  | AlreadyExists
  | UnquarantineStat
  | UnquarantineBlk
  | UnquarantineIdx

definition Quarantine :: "bytes \<Rightarrow> 'c dirfs \<Rightarrow> quarantine_err option \<times> 'c dirfs" where
  "Quarantine blkPath d =
     (let idxPath = TrimSuffix blkPath blkSuffix @ idxSuffix in
      case os_Stat idxPath d of (st, d1) \<Rightarrow>
        if st = StatError then (Some QuarantineStatIdx, d1)
        else case os_Rename blkPath (blkPath @ QuarantineSuffix) d1 of (ok, d2) \<Rightarrow>
          if \<not> ok then (Some QuarantineBlk, d2)
          else case (if st = StatExists then os_Rename idxPath (idxPath @ QuarantineSuffix) d2 else (True, d2)) of (ok2, d3) \<Rightarrow>
            if \<not> ok2 then (Some QuarantineIdx, snd (os_Rename (blkPath @ QuarantineSuffix) blkPath d3))
            else case syncIndexDir d3 of (ok3, d4) \<Rightarrow> (if ok3 then None else Some QuarantineSync, d4))"

definition requireAbsent :: "bytes \<Rightarrow> 'c dirfs \<Rightarrow> quarantine_err option \<times> 'c dirfs" where
  "requireAbsent path d =
     (case os_Stat path d of (st, d1) \<Rightarrow>
        (case st of StatExists \<Rightarrow> Some AlreadyExists | StatNotExist \<Rightarrow> None | StatError \<Rightarrow> Some UnquarantineStat, d1))"

definition Unquarantine :: "u64 \<Rightarrow> 'c dirfs \<Rightarrow> quarantine_err option \<times> 'c dirfs" where
  "Unquarantine blockID d =
     (let blkQ = FilePath blockID @ QuarantineSuffix; idxQ = IdxFilePath blockID @ QuarantineSuffix;
          blkDest = FilePath blockID; idxDest = IdxFilePath blockID in
      case os_Stat blkQ d of (st, d1) \<Rightarrow>
        if st \<noteq> StatExists then (Some NotQuarantined, d1)
        else case requireAbsent blkDest d1 of (e1, d2) \<Rightarrow>
          if e1 \<noteq> None then (e1, d2)
          else case requireAbsent idxDest d2 of (e2, d3) \<Rightarrow>
            if e2 \<noteq> None then (e2, d3)
            else case os_Rename blkQ blkDest d3 of (ok, d4) \<Rightarrow>
              if \<not> ok then (Some UnquarantineBlk, d4)
              else case os_Stat idxQ d4 of (st2, d5) \<Rightarrow>
                (case (if st2 = StatExists then os_Rename idxQ idxDest d5 else (True, d5)) of (ok2, d6) \<Rightarrow>
                   if \<not> ok2 then (Some UnquarantineIdx, snd (os_Rename blkDest blkQ d6))
                   else case syncIndexDir d6 of (ok3, d7) \<Rightarrow> (if ok3 then None else Some QuarantineSync, d7)))"

section \<open>Names are canonical\<close>

lemma hex_value_digit: "n < 16 \<Longrightarrow> hex_value (hex_digit n) = Some n"
proof -
  have "list_all (\<lambda>n. hex_value (hex_digit n) = Some n) [0..<16]" by code_simp
  moreover assume "n < 16"
  ultimately show ?thesis by (auto simp: list_all_iff)
qed

lemma length_hex_digits [simp]: "length (hex_digits k n) = k"
  by (induction k arbitrary: n) simp_all

lemma parse_hex_loop_append:
  "parse_hex_loop acc (xs @ ys) = (case parse_hex_loop acc xs of None \<Rightarrow> None | Some a \<Rightarrow> parse_hex_loop a ys)"
  by (induction xs arbitrary: acc) (auto split: option.splits)

lemma parse_hex_digits:
  "n < 16 ^ k \<Longrightarrow> k \<le> 16 \<Longrightarrow> parse_hex_loop 0 (hex_digits k n) = Some n"
proof (induction k arbitrary: n)
  case (Suc k)
  have lt: "n div 16 < 16 ^ k" using Suc.prems(1) by (simp add: less_mult_imp_div_less mult.commute)
  have "(16::nat) ^ k \<le> 16 ^ 15" using Suc.prems(2) by (intro power_increasing) simp_all
  then have "n div 16 < 2 ^ 60" using lt by simp
  then show ?case using Suc.IH [OF lt] Suc.prems(2) by (simp add: parse_hex_loop_append hex_value_digit)
qed simp

lemma hex_digits_not_upper: "c \<in> set (hex_digits k n) \<Longrightarrow> \<not> is_upper c"
proof (induction k arbitrary: n)
  case (Suc k)
  have "list_all (\<lambda>m. \<not> is_upper (hex_digit m)) [0..<16]" by code_simp
  then have "\<not> is_upper (hex_digit (n mod 16))" by (auto simp: list_all_iff)
  then show ?case using Suc by auto
qed simp

lemma parse_hex16: "parseCanonicalBlockID (hex16 blockID) = Some blockID"
proof -
  have "unat blockID < 16 ^ 16" using unsigned_less [of blockID] by simp
  then have "parse_hex_loop 0 (hex16 blockID) = Some (unat blockID)"
    unfolding hex16_def by (rule parse_hex_digits) simp
  moreover have "length (hex16 blockID) = 16" by (simp add: hex16_def)
  moreover from this have "hex16 blockID \<noteq> []" by auto
  ultimately show ?thesis
    using hex_digits_not_upper
    by (auto simp: parseCanonicalBlockID_def blockIDHexWidth_def ParseUint16_def list_ex_iff hex16_def)
qed

lemma hex_value_bound: "hex_value c = Some d \<Longrightarrow> d < 16"
  by (auto simp: hex_value_def word_le_nat_alt split: if_splits)

lemma hex_digit_value: "hex_value c = Some d \<Longrightarrow> \<not> is_upper c \<Longrightarrow> hex_digit d = c"
  by (auto simp: hex_value_def hex_digit_def is_upper_def word_le_nat_alt word_unat_eq_iff unat_of_nat split: if_splits)

lemma parse_hex_canonical:
  "parse_hex_loop 0 s = Some v \<Longrightarrow> \<not> list_ex is_upper s \<Longrightarrow> hex_digits (length s) v = s \<and> v < 16 ^ length s"
proof (induction s arbitrary: v rule: rev_induct)
  case (snoc c cs)
  obtain a d where a: "parse_hex_loop 0 cs = Some a" "hex_value c = Some d" "v = a * 16 + d"
    using snoc.prems(1) by (auto simp: parse_hex_loop_append split: option.splits if_splits)
  have "hex_digits (length cs) a = cs" "a < 16 ^ length cs" using snoc.IH [OF a(1)] snoc.prems(2) by auto
  then show ?case using a hex_value_bound [OF a(2)] hex_digit_value [OF a(2)] snoc.prems(2) by auto
qed simp

lemma canonical_unique:
  assumes "parseCanonicalBlockID s = Some blockID"
  shows "s = hex16 blockID"
proof -
  have s: "length s = 16" "\<not> list_ex is_upper s" "ParseUint16 s = Some blockID"
    using assms by (auto simp: parseCanonicalBlockID_def blockIDHexWidth_def split: if_splits)
  then obtain v where v: "parse_hex_loop 0 s = Some v" "blockID = of_nat v"
    by (auto simp: ParseUint16_def split: if_splits)
  have c: "hex_digits 16 v = s" "v < 16 ^ 16" using parse_hex_canonical [OF v(1) s(2)] s(1) by auto
  then have "unat blockID = v" using v(2) by (simp add: unat_of_nat)
  then show ?thesis using c by (simp add: hex16_def)
qed

lemma HasSuffix_append [simp]: "HasSuffix (x @ s) s"
  by (simp add: HasSuffix_def)

lemma TrimSuffix_append [simp]: "TrimSuffix (x @ s) s = x"
  by (simp add: TrimSuffix_def)

lemma HasSuffix_split: "HasSuffix name s \<Longrightarrow> name = TrimSuffix name s @ s"
  by (metis TrimSuffix_def HasSuffix_def append_take_drop_id)

lemma length_hex16 [simp]: "length (hex16 blockID) = 16"
  by (simp add: hex16_def)

lemma hex16_inject [simp]: "hex16 a = hex16 b \<longleftrightarrow> a = b"
  by (metis parse_hex16 option.inject)

definition block_info :: "u64 \<Rightarrow> Info" where
  "block_info blockID = \<lparr>infoBlockID = blockID, infoBlkPath = FilePath blockID, infoIdxPath = IdxFilePath blockID\<rparr>"

lemma sealed_info_FilePath: "sealed_info openID (FilePath blockID) = (if blockID = openID then None else Some (block_info blockID))"
  by (simp add: sealed_info_def FilePath_def parse_hex16 block_info_def)

lemma sealed_info_canonical: "sealed_info openID name = Some i \<Longrightarrow> \<exists>blockID. name = FilePath blockID"
  using HasSuffix_split canonical_unique by (fastforce simp: sealed_info_def FilePath_def split: if_splits option.splits)

lemma sealed_info_iff:
  "sealed_info openID name = Some i \<longleftrightarrow> (\<exists>blockID. blockID \<noteq> openID \<and> name = FilePath blockID \<and> i = block_info blockID)"
  using sealed_info_canonical [of openID name i] by (fastforce simp: sealed_info_FilePath split: if_splits)

lemma set_map_filter: "set (List.map_filter f xs) = {y. \<exists>x\<in>set xs. f x = Some y}"
  by (induction xs) (auto simp: List.map_filter_simps split: option.splits)

lemma distinct_sealed:
  "distinct names \<Longrightarrow> distinct (map infoBlockID (List.map_filter (sealed_info openID) names))"
proof (induction names)
  case (Cons n ns)
  show ?case
  proof (cases "sealed_info openID n")
    case (Some i)
    have "infoBlockID i \<noteq> infoBlockID j" if "j \<in> set (List.map_filter (sealed_info openID) ns)" for j
      using that Some Cons.prems by (auto simp: set_map_filter sealed_info_iff block_info_def)
    then show ?thesis using Some Cons by (auto simp: List.map_filter_simps)
  qed (use Cons in \<open>simp add: List.map_filter_simps\<close>)
qed (simp add: List.map_filter_simps)

section \<open>The states of a quarantine\<close>

definition renamed :: "bytes \<Rightarrow> bytes \<Rightarrow> (bytes \<rightharpoonup> 'c) \<Rightarrow> bytes \<rightharpoonup> 'c" where
  "renamed old new m = (case m old of None \<Rightarrow> m | Some c \<Rightarrow> m(old := None, new := Some c))"

definition quarantined_files :: "u64 \<Rightarrow> (bytes \<rightharpoonup> 'c) \<Rightarrow> bytes \<rightharpoonup> 'c" where
  "quarantined_files blockID m =
     renamed (IdxFilePath blockID) (IdxFilePath blockID @ QuarantineSuffix)
       (renamed (FilePath blockID) (FilePath blockID @ QuarantineSuffix) m)"

lemma next_ok_files [simp]: "dfiles (snd (next_ok d)) = dfiles d"
  by (simp add: next_ok_def split: list.split)

lemma next_ok_same: "next_ok d = (ok, d1) \<Longrightarrow> dfiles d1 = dfiles d"
  using next_ok_files [of d] by simp

lemma os_Stat_files:
  "os_Stat name d = (st, d1) \<Longrightarrow>
     dfiles d1 = dfiles d \<and> (st = StatNotExist \<longrightarrow> dfiles d name = None) \<and> (st = StatExists \<longrightarrow> dfiles d name \<noteq> None)"
  by (auto simp: os_Stat_def dest: next_ok_same split: if_splits prod.splits)

lemma os_Rename_files:
  "os_Rename old new d = (ok, d1) \<Longrightarrow> dfiles d1 = (if ok then renamed old new (dfiles d) else dfiles d)"
  by (cases "dfiles d old") (auto simp: os_Rename_def renamed_def dest!: next_ok_same split: if_splits prod.splits)

lemma syncIndexDir_files [simp]: "dfiles (snd (syncIndexDir d)) = dfiles d"
  using next_ok_files [of d] next_ok_files [of "snd (next_ok d)"]
  by (cases "next_ok d") (simp add: syncIndexDir_def del: next_ok_files)

lemma syncIndexDir_same: "syncIndexDir d = (ok, d1) \<Longrightarrow> dfiles d1 = dfiles d"
  using syncIndexDir_files [of d] by simp

lemma QuarantineSuffix_nonempty [simp]: "QuarantineSuffix \<noteq> []"
  by (simp add: QuarantineSuffix_def lit_def)

lemma file_names_distinct [simp]:
  "IdxFilePath a \<noteq> FilePath b" "FilePath b \<noteq> IdxFilePath a"
  "FilePath a @ QuarantineSuffix \<noteq> FilePath b" "FilePath b \<noteq> FilePath a @ QuarantineSuffix"
  "IdxFilePath a @ QuarantineSuffix \<noteq> IdxFilePath b" "IdxFilePath b \<noteq> IdxFilePath a @ QuarantineSuffix"
  "FilePath a @ QuarantineSuffix \<noteq> IdxFilePath b" "IdxFilePath b \<noteq> FilePath a @ QuarantineSuffix"
  "IdxFilePath a @ QuarantineSuffix \<noteq> FilePath b" "FilePath b \<noteq> IdxFilePath a @ QuarantineSuffix"
  "IdxFilePath a @ QuarantineSuffix \<noteq> FilePath b @ QuarantineSuffix" "FilePath b @ QuarantineSuffix \<noteq> IdxFilePath a @ QuarantineSuffix"
  by (auto simp: FilePath_def IdxFilePath_def blkSuffix_def idxSuffix_def QuarantineSuffix_def lit_def
      dest: arg_cong [where f = length])

lemma TrimSuffix_FilePath [simp]: "TrimSuffix (FilePath blockID) blkSuffix @ idxSuffix = IdxFilePath blockID"
  by (simp add: FilePath_def IdxFilePath_def)

lemma renamed_back:
  "m old = Some c \<Longrightarrow> m new = None \<Longrightarrow> old \<noteq> new \<Longrightarrow> renamed new old (renamed old new m) = m"
  by (auto simp: renamed_def)

lemma os_Rename_undo:
  assumes "dfiles d = renamed old new m" and "m old = Some c" and "m new = None" and "old \<noteq> new"
  shows "dfiles (snd (os_Rename new old d)) \<in> {m, renamed old new m}"
  using os_Rename_files [of new old d] assms by (cases "os_Rename new old d") (simp add: renamed_back)

lemma quarantined_files_no_idx:
  "m (IdxFilePath blockID) = None \<Longrightarrow>
     quarantined_files blockID m = renamed (FilePath blockID) (FilePath blockID @ QuarantineSuffix) m"
  by (simp add: quarantined_files_def renamed_def split: option.split)

lemma Quarantine_result:
  assumes blk: "dfiles d (FilePath blockID) = Some c" and free: "dfiles d (FilePath blockID @ QuarantineSuffix) = None"
    and q: "Quarantine (FilePath blockID) d = (e, d')"
  shows "(e \<notin> {None, Some QuarantineSync} \<and>
           dfiles d' \<in> {dfiles d, renamed (FilePath blockID) (FilePath blockID @ QuarantineSuffix) (dfiles d)}) \<or>
         (e \<in> {None, Some QuarantineSync} \<and> dfiles d' = quarantined_files blockID (dfiles d))"
proof -
  let ?b = "FilePath blockID" and ?i = "IdxFilePath blockID"
  obtain st d1 where st: "os_Stat ?i d = (st, d1)" by (cases "os_Stat ?i d")
  have f1: "dfiles d1 = dfiles d" "st = StatNotExist \<Longrightarrow> dfiles d ?i = None"
    using os_Stat_files [OF st] by auto
  obtain ok d2 where r: "os_Rename ?b (?b @ QuarantineSuffix) d1 = (ok, d2)"
    by (cases "os_Rename ?b (?b @ QuarantineSuffix) d1")
  have f2: "dfiles d2 = (if ok then renamed ?b (?b @ QuarantineSuffix) (dfiles d) else dfiles d)"
    using os_Rename_files [OF r] f1(1) by simp
  define step where "step = (if st = StatExists then os_Rename ?i (?i @ QuarantineSuffix) d2 else (True, d2))"
  obtain ok2 d3 where s: "step = (ok2, d3)" by (cases step)
  have f3: "dfiles d3 = (if ok2 \<and> st = StatExists then renamed ?i (?i @ QuarantineSuffix) (dfiles d2) else dfiles d2)"
    using s os_Rename_files [of ?i "?i @ QuarantineSuffix" d2] by (auto simp: step_def split: if_splits)
  have "dfiles (snd (os_Rename (?b @ QuarantineSuffix) ?b d3)) \<in> {dfiles d, renamed ?b (?b @ QuarantineSuffix) (dfiles d)}"
    if "ok" "\<not> ok2" using os_Rename_undo [OF _ blk free] f2 f3 that by simp
  moreover have "dfiles d3 = quarantined_files blockID (dfiles d)" if "ok" "ok2" "st \<noteq> StatError"
    using that f2 f3 f1(2) quarantined_files_no_idx [of "dfiles d" blockID]
    by (cases st) (simp_all add: quarantined_files_def)
  ultimately show ?thesis
    using q st r s f1 f2
    by (auto simp: Quarantine_def Let_def step_def [symmetric] dest!: syncIndexDir_same split: if_splits prod.splits)
qed

lemma quarantined_id_FilePath: "quarantined_id (FilePath blockID @ QuarantineSuffix) = Some blockID"
proof -
  have "FilePath blockID @ QuarantineSuffix = hex16 blockID @ (blkSuffix @ QuarantineSuffix)"
    by (simp add: FilePath_def)
  then show ?thesis
    using parse_hex16 [of blockID]
    by (simp add: quarantined_id_def parseCanonicalBlockID_def split: if_splits)
qed

lemma listed_when_renamed:
  assumes "dfiles d (FilePath blockID) = Some c"
    and "dfiles d' \<in> {renamed (FilePath blockID) (FilePath blockID @ QuarantineSuffix) (dfiles d), quarantined_files blockID (dfiles d)}"
    and "set names = dom (dfiles d')"
  shows "\<exists>ids. ListQuarantined (Some names) = Some ids \<and> blockID \<in> set ids"
proof -
  have "dfiles d' (FilePath blockID @ QuarantineSuffix) = Some c"
    using assms(1,2) by (auto simp: quarantined_files_def renamed_def split: option.split)
  then have "FilePath blockID @ QuarantineSuffix \<in> set names" using assms(3) by auto
  then show ?thesis using quarantined_id_FilePath by (auto simp: ListQuarantined_def set_map_filter)
qed

lemma os_Rename_ok [simp]:
  "dsched d = [] \<Longrightarrow> dfiles d old = Some c \<Longrightarrow> os_Rename old new d = (True, d\<lparr>dfiles := renamed old new (dfiles d)\<rparr>)"
  by (simp add: os_Rename_def next_ok_def renamed_def)

lemma os_Stat_ok [simp]:
  "dsched d = [] \<Longrightarrow> os_Stat name d = (if dfiles d name = None then StatNotExist else StatExists, d)"
  by (simp add: os_Stat_def next_ok_def)

lemma syncIndexDir_ok [simp]: "dsched d = [] \<Longrightarrow> syncIndexDir d = (True, d)"
  by (simp add: syncIndexDir_def next_ok_def)

lemma renamed_absent [simp]: "m old = None \<Longrightarrow> renamed old new m = m"
  by (simp add: renamed_def)

lemma renamed_other [simp]: "name \<noteq> old \<Longrightarrow> name \<noteq> new \<Longrightarrow> renamed old new m name = m name"
  by (simp add: renamed_def split: option.split)

lemma renamed_ends: "m old = Some c \<Longrightarrow> old \<noteq> new \<Longrightarrow> renamed old new m old = None \<and> renamed old new m new = Some c"
  by (simp add: renamed_def)

lemma Quarantine_ok:
  assumes "dfiles d (FilePath blockID) = Some c" and "dsched d = []"
  shows "Quarantine (FilePath blockID) d = (None, d\<lparr>dfiles := quarantined_files blockID (dfiles d)\<rparr>)"
  using assms by (cases "dfiles d (IdxFilePath blockID)") (simp_all add: Quarantine_def quarantined_files_def Let_def)

lemma Unquarantine_ok:
  assumes "dfiles d (FilePath blockID @ QuarantineSuffix) = Some c" and "dsched d = []"
    and "dfiles d (FilePath blockID) = None" and "dfiles d (IdxFilePath blockID) = None"
  shows "Unquarantine blockID d = (None, d\<lparr>dfiles :=
     renamed (IdxFilePath blockID @ QuarantineSuffix) (IdxFilePath blockID)
       (renamed (FilePath blockID @ QuarantineSuffix) (FilePath blockID) (dfiles d))\<rparr>)"
  using assms
  by (cases "dfiles d (IdxFilePath blockID @ QuarantineSuffix)") (simp_all add: Unquarantine_def requireAbsent_def Let_def)

lemma renamed_commute:
  "distinct [a, b, x, y] \<Longrightarrow> renamed a b (renamed x y m) = renamed x y (renamed a b m)"
  by (auto simp: renamed_def fun_upd_twist split: option.split)

lemma renamed_back_absent:
  "m new = None \<Longrightarrow> old \<noteq> new \<Longrightarrow> renamed new old (renamed old new m) = m"
  using renamed_back by (cases "m old") auto

section \<open>Properties\<close>

text \<open>
  Listing a directory returns exactly the canonically named Blocks other than the open one, in
  strictly ascending order of their id and each once, with the paths the writer uses for that id;
  any other name in the directory has no influence.
\<close>

theorem sealed_listing_exact:
  assumes "distinct names"
  shows "\<exists>infos. ListSealedBlocks (Some names) openBlockID = Some infos \<and>
           sorted_wrt (<) (map infoBlockID infos) \<and>
           set infos = block_info ` {blockID. FilePath blockID \<in> set names \<and> blockID \<noteq> openBlockID}"
proof -
  let ?xs = "List.map_filter (sealed_info openBlockID) names"
  have "sorted_wrt (<) (map infoBlockID (sort_key infoBlockID ?xs))"
    unfolding strict_sorted_iff using distinct_sealed [OF assms, of openBlockID] by (simp add: distinct_map)
  moreover have "set ?xs = block_info ` {blockID. FilePath blockID \<in> set names \<and> blockID \<noteq> openBlockID}"
    by (auto simp: set_map_filter sealed_info_iff)
  ultimately show ?thesis by (simp add: ListSealedBlocks_def)
qed

theorem sealed_listing_exact_witness:
  "\<exists>infos. ListSealedBlocks (Some [FilePath 7, lit ''README.blk'', FilePath 2, FilePath 9]) 9 = Some infos \<and>
     sorted_wrt (<) (map infoBlockID infos) \<and>
     set infos = block_info ` {blockID. FilePath blockID \<in> set [FilePath 7, lit ''README.blk'', FilePath 2, FilePath 9] \<and> blockID \<noteq> 9}"
  by (rule sealed_listing_exact) code_simp

text \<open>
  Whatever calls fail, \<open>Quarantine\<close> leaves the Block in one of three states: untouched, only its
  \<open>.blk\<close> renamed, or both files renamed; success, or a failed directory sync, means both. In every state
  but the first the Block is listed by \<open>ListQuarantined\<close>, so the repair pass finds it.
\<close>

theorem quarantine_always_visible:
  assumes "dfiles d (FilePath blockID) = Some c" and "dfiles d (FilePath blockID @ QuarantineSuffix) = None"
    and "Quarantine (FilePath blockID) d = (e, d')" and "set names = dom (dfiles d')"
  shows "(if e \<in> {None, Some QuarantineSync} then dfiles d' = quarantined_files blockID (dfiles d)
          else dfiles d' \<in> {dfiles d, renamed (FilePath blockID) (FilePath blockID @ QuarantineSuffix) (dfiles d)}) \<and>
         (dfiles d' = dfiles d \<or> (\<exists>ids. ListQuarantined (Some names) = Some ids \<and> blockID \<in> set ids))"
proof -
  note r = Quarantine_result [OF assms(1-3)]
  then show ?thesis using listed_when_renamed [OF assms(1) _ assms(4)] by (cases "e \<in> {None, Some QuarantineSync}") auto
qed

definition sample_dir :: "bool list \<Rightarrow> bytes dirfs" where
  "sample_dir sched = \<lparr>dfiles = [FilePath 5 \<mapsto> [1, 2], IdxFilePath 5 \<mapsto> [3]], dsched = sched\<rparr>"

text \<open>The rename of the index fails and so does the rollback.\<close>

theorem quarantine_always_visible_witness:
  "\<exists>names. set names = dom (dfiles (snd (Quarantine (FilePath 5) (sample_dir [True, True, False, False])))) \<and>
     (\<exists>ids. ListQuarantined (Some names) = Some ids \<and> 5 \<in> set ids)"
proof -
  let ?d = "sample_dir [True, True, False, False]"
  let ?names = "[FilePath 5 @ QuarantineSuffix, IdxFilePath 5]"
  obtain e d' where q: "Quarantine (FilePath 5) ?d = (e, d')" by (cases "Quarantine (FilePath 5) ?d")
  have f: "dfiles d' = [FilePath 5 @ QuarantineSuffix \<mapsto> [1, 2], IdxFilePath 5 \<mapsto> [3]]"
    using q by (auto simp: Quarantine_def sample_dir_def os_Stat_def os_Rename_def next_ok_def fun_upd_twist)
  then have names: "set ?names = dom (dfiles d')" by auto
  have "dfiles d' \<noteq> dfiles ?d" unfolding f sample_dir_def by (auto dest!: fun_cong [where x = "FilePath 5"])
  moreover have "dfiles ?d (FilePath 5) = Some [1, 2]" "dfiles ?d (FilePath 5 @ QuarantineSuffix) = None"
    by (simp_all add: sample_dir_def)
  ultimately show ?thesis
    using quarantine_always_visible [OF _ _ q names, of "[1, 2]"] names q by (metis snd_conv)
qed

text \<open>
  When no call fails, \<open>Unquarantine\<close> puts back exactly what \<open>Quarantine\<close> moved: the directory is as it
  was, with or without an index file.
\<close>

theorem quarantine_round_trip:
  assumes "dfiles d (FilePath blockID) = Some c" and "dsched d = []"
    and "dfiles d (FilePath blockID @ QuarantineSuffix) = None" and "dfiles d (IdxFilePath blockID @ QuarantineSuffix) = None"
  shows "\<exists>d'. Quarantine (FilePath blockID) d = (None, d') \<and> Unquarantine blockID d' = (None, d)"
proof -
  let ?b = "FilePath blockID" and ?i = "IdxFilePath blockID"
  let ?d = "d\<lparr>dfiles := quarantined_files blockID (dfiles d)\<rparr>"
  have q: "quarantined_files blockID (dfiles d) (?b @ QuarantineSuffix) = Some c"
    "quarantined_files blockID (dfiles d) ?b = None" "quarantined_files blockID (dfiles d) ?i = None"
    using assms renamed_ends [of "dfiles d" ?b c "?b @ QuarantineSuffix"]
    by (simp_all add: quarantined_files_def) (simp add: renamed_def split: option.split)
  have "renamed (?i @ QuarantineSuffix) ?i (renamed (?b @ QuarantineSuffix) ?b (quarantined_files blockID (dfiles d))) = dfiles d"
    unfolding quarantined_files_def
    by (subst renamed_commute) (use assms in \<open>simp_all add: renamed_back_absent\<close>)
  then have "Unquarantine blockID ?d = (None, d)"
    using Unquarantine_ok [of ?d blockID c] q assms(2) by simp
  then show ?thesis using Quarantine_ok [OF assms(1,2)] by blast
qed

theorem quarantine_round_trip_witness:
  "\<exists>d'. Quarantine (FilePath 5) (sample_dir []) = (None, d') \<and> Unquarantine 5 d' = (None, sample_dir [])"
  by (rule quarantine_round_trip [where c = "[1, 2]"]) (simp_all add: sample_dir_def)

text \<open>
  A failed stat of the quarantined index is taken for its absence: \<open>Unquarantine\<close> reports success and
  leaves the index behind, a state in which neither listing shows that anything is wrong.
\<close>

theorem unquarantine_leaves_index:
  "\<exists>d d'. Unquarantine 5 d = (None, d') \<and> dfiles d (IdxFilePath 5 @ QuarantineSuffix) = Some [3] \<and>
     dfiles d' (IdxFilePath 5) = None \<and> dfiles d' (FilePath 5 @ QuarantineSuffix) = None"
proof -
  let ?d = "\<lparr>dfiles = [FilePath 5 @ QuarantineSuffix \<mapsto> [1, 2], IdxFilePath 5 @ QuarantineSuffix \<mapsto> [3]],
             dsched = [True, True, True, True, False]\<rparr>"
  let ?d' = "\<lparr>dfiles = [FilePath 5 \<mapsto> [1, 2], IdxFilePath 5 @ QuarantineSuffix \<mapsto> [3]], dsched = []\<rparr>"
  have "Unquarantine 5 ?d = (None, ?d')"
    by (simp add: Unquarantine_def requireAbsent_def os_Stat_def os_Rename_def next_ok_def syncIndexDir_def fun_upd_twist Let_def)
  then show ?thesis by (intro exI [of _ ?d] exI [of _ ?d']) simp
qed

text \<open>A non-canonical name is listed as a quarantined Block, which \<open>Unquarantine\<close> then does not find.\<close>

theorem quarantine_listing_noncanonical:
  "ListQuarantined (Some [lit ''A.blk.quarantine'']) = Some [10] \<and>
   fst (Unquarantine 10 \<lparr>dfiles = [lit ''A.blk.quarantine'' \<mapsto> c], dsched = []\<rparr>) = Some NotQuarantined"
proof
  have "quarantined_id (lit ''A.blk.quarantine'') = Some 10"
    by (simp add: quarantined_id_def HasSuffix_def TrimSuffix_def blkSuffix_def QuarantineSuffix_def lit_def
        ParseUint16_def hex_value_def)
  then show "ListQuarantined (Some [lit ''A.blk.quarantine'']) = Some [10]"
    by (simp add: ListQuarantined_def List.map_filter_simps)
  have "FilePath 10 @ QuarantineSuffix \<noteq> lit ''A.blk.quarantine''"
  proof
    assume "FilePath 10 @ QuarantineSuffix = lit ''A.blk.quarantine''"
    then have "length (FilePath 10 @ QuarantineSuffix) = length (lit ''A.blk.quarantine'')" by simp
    then show False by (simp add: FilePath_def blkSuffix_def QuarantineSuffix_def)
  qed
  then show "fst (Unquarantine 10 \<lparr>dfiles = [lit ''A.blk.quarantine'' \<mapsto> c], dsched = []\<rparr>) = Some NotQuarantined"
    by (simp add: Unquarantine_def)
qed

end
