(* ===== verification/Routing.thy ===== *)
theory Routing
  imports Go_Hash "HOL-Library.Product_Lexorder"
begin

text \<open>
  \<open>internal/routing\<close>: the hash slot of a Transaction, the validated placement of slots on Shards and
  the lookup boundary with its telemetry record.
\<close>

section \<open>Slots\<close>

definition SlotCount :: nat where "SlotCount = 1024"

datatype placement_reason =
    SlotCountMismatch
  | NoShards
  | NoRanges
  | DuplicateShard u64
  | UnknownShard u64
  | RangeOutside
  | RangeReversed
  | DuplicateSlot nat
  | UncoveredSlot nat

datatype route_err = ErrInvalidPlacement placement_reason | ErrInvalidTransaction | ErrRouteNotFound

definition SlotForTransaction :: "bytes \<Rightarrow> route_err + u16" where
  "SlotForTransaction transactionID =
     (if transactionID = [] then Inl ErrInvalidTransaction
      else Inr (ucast (fnv64a transactionID mod of_nat SlotCount)))"

section \<open>Placements\<close>

record SlotRange =
  rShardID :: u64
  rStartSlot :: int
  rEndSlot :: int

record PlacementConfig =
  cfgSlotCount :: int
  cfgShards :: "u64 list"
  cfgRanges :: "SlotRange list"

record Placement =
  pslots :: "u64 list"
  pseen :: "bool list"
  pranges :: "SlotRange list"

record Route =
  routeSlot :: u16
  routeShardID :: u64

definition SingleShardConfig :: "u64 \<Rightarrow> PlacementConfig" where
  "SingleShardConfig shardID =
     \<lparr>cfgSlotCount = int SlotCount, cfgShards = [shardID],
      cfgRanges = [\<lparr>rShardID = shardID, rStartSlot = 0, rEndSlot = int SlotCount - 1\<rparr>]\<rparr>"

text \<open>\<open>knownShards\<close>: the set built so far and the remaining identifiers.\<close>

primrec known_loop :: "u64 set \<Rightarrow> u64 list \<Rightarrow> route_err + u64 set" where
  "known_loop known [] = Inr known"
| "known_loop known (x # xs) =
     (if x \<in> known then Inl (ErrInvalidPlacement (DuplicateShard x)) else known_loop (insert x known) xs)"

definition knownShards :: "u64 list \<Rightarrow> route_err + u64 set" where
  "knownShards shards = known_loop {} shards"

text \<open>The loop of \<open>addRange\<close> over the slots of a checked range.\<close>

primrec claim_slots :: "u64 \<Rightarrow> nat list \<Rightarrow> Placement \<Rightarrow> route_err + Placement" where
  "claim_slots shardID [] p = Inr p"
| "claim_slots shardID (slot # slots) p =
     (if pseen p ! slot then Inl (ErrInvalidPlacement (DuplicateSlot slot))
      else claim_slots shardID slots (p\<lparr>pseen := (pseen p)[slot := True], pslots := (pslots p)[slot := shardID]\<rparr>))"

definition addRange :: "u64 set \<Rightarrow> SlotRange \<Rightarrow> Placement \<Rightarrow> route_err + Placement" where
  "addRange shards r p =
     (if rShardID r \<notin> shards then Inl (ErrInvalidPlacement (UnknownShard (rShardID r)))
      else if rStartSlot r < 0 \<or> rEndSlot r < 0 \<or> rStartSlot r \<ge> int SlotCount \<or> rEndSlot r \<ge> int SlotCount
      then Inl (ErrInvalidPlacement RangeOutside)
      else if rStartSlot r > rEndSlot r then Inl (ErrInvalidPlacement RangeReversed)
      else claim_slots (rShardID r) [nat (rStartSlot r)..<nat (rEndSlot r) + 1] p)"

primrec add_ranges :: "u64 set \<Rightarrow> SlotRange list \<Rightarrow> Placement \<Rightarrow> route_err + Placement" where
  "add_ranges shards [] p = Inr p"
| "add_ranges shards (r # rs) p =
     (case addRange shards r p of Inl e \<Rightarrow> Inl e | Inr p1 \<Rightarrow> add_ranges shards rs p1)"

text \<open>The first slot, in increasing order, that no range claimed.\<close>

definition first_uncovered :: "Placement \<Rightarrow> nat option" where
  "first_uncovered p = find (\<lambda>slot. \<not> pseen p ! slot) [0..<SlotCount]"

definition NewPlacement :: "PlacementConfig \<Rightarrow> route_err + Placement" where
  "NewPlacement cfg =
     (if cfgSlotCount cfg \<noteq> int SlotCount then Inl (ErrInvalidPlacement SlotCountMismatch)
      else if length (cfgShards cfg) = 0 then Inl (ErrInvalidPlacement NoShards)
      else if length (cfgRanges cfg) = 0 then Inl (ErrInvalidPlacement NoRanges)
      else case knownShards (cfgShards cfg) of Inl e \<Rightarrow> Inl e | Inr shards \<Rightarrow>
        (let ranges = sort_key (\<lambda>r. (rStartSlot r, rEndSlot r)) (cfgRanges cfg);
             p0 = \<lparr>pslots = replicate SlotCount 0, pseen = replicate SlotCount False, pranges = ranges\<rparr>
         in case add_ranges shards ranges p0 of Inl e \<Rightarrow> Inl e | Inr p \<Rightarrow>
           (case first_uncovered p of
              Some slot \<Rightarrow> Inl (ErrInvalidPlacement (UncoveredSlot slot))
            | None \<Rightarrow> Inr p)))"

definition Placement_Lookup :: "Placement \<Rightarrow> bytes \<Rightarrow> route_err + Route" where
  "Placement_Lookup p transactionID =
     (case SlotForTransaction transactionID of Inl e \<Rightarrow> Inl e | Inr slot \<Rightarrow>
        if \<not> pseen p ! unat slot then Inl ErrRouteNotFound
        else Inr \<lparr>routeSlot = slot, routeShardID = pslots p ! unat slot\<rparr>)"

definition RoutesOnlyToShard :: "Placement \<Rightarrow> u64 \<Rightarrow> bool" where
  "RoutesOnlyToShard p shardID \<longleftrightarrow>
     length (pranges p) \<noteq> 0 \<and> list_all (\<lambda>slot. pseen p ! slot \<and> pslots p ! slot = shardID) [0..<SlotCount]"

definition RouteMapSummary :: "Placement \<Rightarrow> SlotRange list" where
  "RouteMapSummary p = pranges p"

section \<open>The router\<close>

datatype LookupOutcome = LookupOutcomeRouted | LookupOutcomeRejected
datatype LookupReason = LookupReasonMatched | LookupReasonInvalidTransaction | LookupReasonNoRoute

record LookupRecord =
  recOutcome :: LookupOutcome
  recReason :: LookupReason
  recShardID :: u64
  recShardIDValid :: bool

fun reasonForLookupError :: "route_err \<Rightarrow> LookupReason" where
  "reasonForLookupError ErrInvalidTransaction = LookupReasonInvalidTransaction"
| "reasonForLookupError _ = LookupReasonNoRoute"

text \<open>\<open>Router.Lookup\<close>: the route and the record handed to the recorder, if one is configured.\<close>

definition Router_Lookup :: "Placement \<Rightarrow> bool \<Rightarrow> bytes \<Rightarrow> (route_err + Route) \<times> LookupRecord option" where
  "Router_Lookup p hasRecorder transactionID =
     (case Placement_Lookup p transactionID of
        Inl e \<Rightarrow> (Inl e, if hasRecorder
                         then Some \<lparr>recOutcome = LookupOutcomeRejected, recReason = reasonForLookupError e,
                                    recShardID = 0, recShardIDValid = False\<rparr> else None)
      | Inr route \<Rightarrow> (Inr route, if hasRecorder
                         then Some \<lparr>recOutcome = LookupOutcomeRouted, recReason = LookupReasonMatched,
                                    recShardID = routeShardID route, recShardIDValid = True\<rparr> else None))"

section \<open>What a placement guarantees\<close>

definition covers :: "nat \<Rightarrow> SlotRange \<Rightarrow> bool" where
  "covers slot r \<longleftrightarrow> rStartSlot r \<le> int slot \<and> int slot \<le> rEndSlot r"

definition range_ok :: "u64 set \<Rightarrow> SlotRange \<Rightarrow> bool" where
  "range_ok shards r \<longleftrightarrow> rShardID r \<in> shards \<and> 0 \<le> rStartSlot r \<and> rStartSlot r \<le> rEndSlot r \<and> rEndSlot r < int SlotCount"

text \<open>A placement configuration in the sense of the documentation: every slot has exactly one owner.\<close>

definition valid_config :: "PlacementConfig \<Rightarrow> bool" where
  "valid_config cfg \<longleftrightarrow> cfgSlotCount cfg = int SlotCount \<and> cfgShards cfg \<noteq> [] \<and> distinct (cfgShards cfg) \<and>
     (\<forall>r\<in>set (cfgRanges cfg). range_ok (set (cfgShards cfg)) r) \<and>
     (\<forall>slot<SlotCount. length (filter (covers slot) (cfgRanges cfg)) = 1)"

definition placement_typed :: "Placement \<Rightarrow> bool" where
  "placement_typed p \<longleftrightarrow> length (pseen p) = SlotCount \<and> length (pslots p) = SlotCount"

lemma known_loop_eq:
  "known_loop known xs = Inr known' \<longleftrightarrow> distinct xs \<and> set xs \<inter> known = {} \<and> known' = set xs \<union> known"
  by (induction xs arbitrary: known) auto

lemma claim_slots_seen:
  "slot \<in> set slots \<Longrightarrow> pseen p ! slot \<Longrightarrow> placement_typed p \<Longrightarrow> \<forall>s\<in>set slots. s < SlotCount \<Longrightarrow>
   \<exists>e. claim_slots shardID slots p = Inl e"
proof (induction slots arbitrary: p)
  case (Cons x xs)
  show ?case
  proof (cases "pseen p ! x")
    case False
    then have "slot \<in> set xs" using Cons.prems by auto
    moreover have "(pseen p)[x := True] ! slot"
      using Cons.prems by (cases "slot = x") (auto simp: placement_typed_def)
    ultimately show ?thesis using Cons False by (auto simp: placement_typed_def)
  qed simp
qed simp

lemma claim_slots_free:
  assumes "distinct slots" and "placement_typed p" and "\<forall>s\<in>set slots. s < SlotCount \<and> \<not> pseen p ! s"
  shows "\<exists>p'. claim_slots shardID slots p = Inr p' \<and> placement_typed p' \<and> pranges p' = pranges p \<and>
    (\<forall>s<SlotCount. (pseen p' ! s \<longleftrightarrow> pseen p ! s \<or> s \<in> set slots) \<and>
       pslots p' ! s = (if s \<in> set slots then shardID else pslots p ! s))"
  using assms
proof (induction slots arbitrary: p)
  case (Cons x xs)
  let ?p1 = "p\<lparr>pseen := (pseen p)[x := True], pslots := (pslots p)[x := shardID]\<rparr>"
  have x: "x < SlotCount" "\<not> pseen p ! x" using Cons.prems(3) by auto
  have "\<forall>s\<in>set xs. s < SlotCount \<and> \<not> pseen ?p1 ! s"
    using Cons.prems by (auto simp: placement_typed_def nth_list_update)
  then obtain p' where "claim_slots shardID xs ?p1 = Inr p'" "placement_typed p'" "pranges p' = pranges p"
    "\<forall>s<SlotCount. (pseen p' ! s \<longleftrightarrow> pseen ?p1 ! s \<or> s \<in> set xs) \<and>
       pslots p' ! s = (if s \<in> set xs then shardID else pslots ?p1 ! s)"
    using Cons.IH [of ?p1] Cons.prems by (auto simp: placement_typed_def)
  then show ?case using x Cons.prems(1,2) by (auto simp: placement_typed_def nth_list_update)
qed simp

lemma range_slots:
  assumes "range_ok shards r"
  shows "set [nat (rStartSlot r)..<nat (rEndSlot r) + 1] = {s. s < SlotCount \<and> covers s r}"
  using assms by (auto simp: range_ok_def covers_def SlotCount_def)

lemma addRange_ok:
  assumes "placement_typed p" and "range_ok shards r" and "\<forall>s<SlotCount. covers s r \<longrightarrow> \<not> pseen p ! s"
  shows "\<exists>p'. addRange shards r p = Inr p' \<and> placement_typed p' \<and> pranges p' = pranges p \<and>
    (\<forall>s<SlotCount. (pseen p' ! s \<longleftrightarrow> pseen p ! s \<or> covers s r) \<and>
       pslots p' ! s = (if covers s r then rShardID r else pslots p ! s))"
proof -
  let ?l = "[nat (rStartSlot r)..<nat (rEndSlot r) + 1]"
  have "\<forall>s\<in>set ?l. s < SlotCount \<and> \<not> pseen p ! s" using range_slots [OF assms(2)] assms(3) by blast
  from claim_slots_free [OF distinct_upt assms(1) this, of "rShardID r"] obtain p' where
    p': "claim_slots (rShardID r) ?l p = Inr p'" "placement_typed p'" "pranges p' = pranges p"
      "\<forall>s<SlotCount. (pseen p' ! s \<longleftrightarrow> pseen p ! s \<or> s \<in> set ?l) \<and>
       pslots p' ! s = (if s \<in> set ?l then rShardID r else pslots p ! s)" by blast
  have "addRange shards r p = Inr p'" using assms(2) p'(1) by (simp add: addRange_def range_ok_def del: upt_Suc)
  then show ?thesis using p'(2-4) unfolding range_slots [OF assms(2)] by auto
qed

lemma addRange_conv:
  assumes "placement_typed p" and "addRange shards r p = Inr p'"
  shows "range_ok shards r \<and> (\<forall>s<SlotCount. covers s r \<longrightarrow> \<not> pseen p ! s)"
proof -
  have ok: "range_ok shards r" using assms(2) by (auto simp: addRange_def range_ok_def split: if_splits)
  let ?l = "[nat (rStartSlot r)..<nat (rEndSlot r) + 1]"
  have "\<not> pseen p ! s" if "s < SlotCount" "covers s r" for s
  proof
    assume "pseen p ! s"
    then have "\<exists>e. claim_slots (rShardID r) ?l p = Inl e"
      using that range_slots [OF ok] assms(1) by (intro claim_slots_seen) auto
    then show False using assms(2) ok by (auto simp: addRange_def range_ok_def split: if_splits)
  qed
  then show ?thesis using ok by blast
qed

definition load :: "Placement \<Rightarrow> SlotRange list \<Rightarrow> nat \<Rightarrow> nat" where
  "load p rs s = length (filter (covers s) rs) + (if pseen p ! s then 1 else 0)"

lemma add_ranges_ok:
  assumes "placement_typed p" and "\<forall>r\<in>set rs. range_ok shards r" and "\<forall>s<SlotCount. load p rs s \<le> 1"
  shows "\<exists>p'. add_ranges shards rs p = Inr p' \<and> pranges p' = pranges p \<and>
    (\<forall>s<SlotCount. (pseen p' ! s \<longleftrightarrow> load p rs s = 1) \<and> (pseen p ! s \<longrightarrow> pslots p' ! s = pslots p ! s) \<and>
       (\<forall>r\<in>set rs. covers s r \<longrightarrow> pslots p' ! s = rShardID r))"
  using assms
proof (induction rs arbitrary: p)
  case Nil
  then show ?case by (auto simp: load_def)
next
  case (Cons r rs)
  have free: "\<forall>s<SlotCount. covers s r \<longrightarrow> \<not> pseen p ! s" using Cons.prems(3) by (auto simp: load_def split: if_splits)
  obtain p1 where p1: "addRange shards r p = Inr p1" "placement_typed p1" "pranges p1 = pranges p"
    "\<forall>s<SlotCount. (pseen p1 ! s \<longleftrightarrow> pseen p ! s \<or> covers s r) \<and>
       pslots p1 ! s = (if covers s r then rShardID r else pslots p ! s)"
    using addRange_ok [OF Cons.prems(1) _ free, of shards] Cons.prems(2) by auto
  have ld: "load p1 rs s = load p (r # rs) s" if "s < SlotCount" for s
    using p1(4) free that by (auto simp: load_def)
  have "\<forall>s<SlotCount. load p1 rs s \<le> 1" using Cons.prems(3) ld by simp
  from Cons.IH [OF p1(2) _ this] Cons.prems(2) obtain p' where p': "add_ranges shards rs p1 = Inr p'" "pranges p' = pranges p1"
    "\<forall>s<SlotCount. (pseen p' ! s \<longleftrightarrow> load p1 rs s = 1) \<and> (pseen p1 ! s \<longrightarrow> pslots p' ! s = pslots p1 ! s) \<and>
       (\<forall>r\<in>set rs. covers s r \<longrightarrow> pslots p' ! s = rShardID r)" by auto
  show ?case using p1 p' ld free by (intro exI [of _ p']) auto
qed

lemma add_ranges_conv:
  "add_ranges shards rs p = Inr p' \<Longrightarrow> placement_typed p \<Longrightarrow>
   (\<forall>r\<in>set rs. range_ok shards r) \<and> (\<forall>s<SlotCount. load p rs s \<le> 1)"
proof (induction rs arbitrary: p)
  case Nil
  then show ?case by (simp add: load_def)
next
  case (Cons r rs)
  then obtain p1 where a: "addRange shards r p = Inr p1" and rec: "add_ranges shards rs p1 = Inr p'"
    by (auto split: sum.splits)
  note conv = addRange_conv [OF Cons.prems(2) a]
  obtain p1' where p1': "addRange shards r p = Inr p1'" "placement_typed p1'"
    "\<forall>s<SlotCount. (pseen p1' ! s \<longleftrightarrow> pseen p ! s \<or> covers s r)"
    using addRange_ok [OF Cons.prems(2)] conv by blast
  then have p1: "placement_typed p1" "\<forall>s<SlotCount. (pseen p1 ! s \<longleftrightarrow> pseen p ! s \<or> covers s r)" using a by auto
  have ld: "load p1 rs s = load p (r # rs) s" if "s < SlotCount" for s
    using p1(2) conv that by (auto simp: load_def)
  then show ?case using Cons.IH [OF rec p1(1)] conv by simp
qed

lemma length_filter_sort: "length (filter P (sort_key f xs)) = length (filter P xs)"
  by (simp add: filter_sort)

lemma NewPlacement_ok:
  assumes "valid_config cfg"
  shows "\<exists>p. NewPlacement cfg = Inr p \<and> pranges p = sort_key (\<lambda>r. (rStartSlot r, rEndSlot r)) (cfgRanges cfg) \<and>
    (\<forall>s<SlotCount. pseen p ! s \<and> (\<forall>r\<in>set (cfgRanges cfg). covers s r \<longrightarrow> pslots p ! s = rShardID r))"
proof -
  let ?rs = "sort_key (\<lambda>r. (rStartSlot r, rEndSlot r)) (cfgRanges cfg)"
  let ?p0 = "\<lparr>pslots = replicate SlotCount 0, pseen = replicate SlotCount False, pranges = ?rs\<rparr>"
  have known: "knownShards (cfgShards cfg) = Inr (set (cfgShards cfg))"
    using assms by (simp add: knownShards_def known_loop_eq valid_config_def)
  have ld: "load ?p0 ?rs s = 1" if "s < SlotCount" for s
    using assms that by (simp add: load_def length_filter_sort valid_config_def)
  have ne: "cfgRanges cfg \<noteq> []" using assms by (auto simp: valid_config_def SlotCount_def dest: spec [of _ 0])
  obtain p where p: "add_ranges (set (cfgShards cfg)) ?rs ?p0 = Inr p" "pranges p = ?rs"
    "\<forall>s<SlotCount. (pseen p ! s \<longleftrightarrow> load ?p0 ?rs s = 1) \<and> (\<forall>r\<in>set ?rs. covers s r \<longrightarrow> pslots p ! s = rShardID r)"
    using add_ranges_ok [of ?p0 ?rs "set (cfgShards cfg)"] assms ld
    by (auto simp: placement_typed_def valid_config_def)
  have "first_uncovered p = None" using p(3) ld by (auto simp: first_uncovered_def find_None_iff)
  then show ?thesis using assms known p ld ne by (simp add: NewPlacement_def valid_config_def Let_def)
qed

lemma NewPlacement_conv:
  assumes "NewPlacement cfg = Inr p"
  shows "valid_config cfg"
proof -
  let ?rs = "sort_key (\<lambda>r. (rStartSlot r, rEndSlot r)) (cfgRanges cfg)"
  let ?p0 = "\<lparr>pslots = replicate SlotCount 0, pseen = replicate SlotCount False, pranges = ?rs\<rparr>"
  obtain shards where c: "cfgSlotCount cfg = int SlotCount" "cfgShards cfg \<noteq> []" "cfgRanges cfg \<noteq> []"
    "knownShards (cfgShards cfg) = Inr shards" "add_ranges shards ?rs ?p0 = Inr p" "first_uncovered p = None"
    using assms by (auto simp: NewPlacement_def Let_def split: if_splits sum.splits option.splits)
  have k: "distinct (cfgShards cfg)" "shards = set (cfgShards cfg)"
    using c(4) by (auto simp: knownShards_def known_loop_eq)
  have t: "placement_typed ?p0" by (simp add: placement_typed_def)
  note conv = add_ranges_conv [OF c(5) t]
  obtain p' where p': "add_ranges shards ?rs ?p0 = Inr p'" "\<forall>s<SlotCount. (pseen p' ! s \<longleftrightarrow> load ?p0 ?rs s = 1)"
    using add_ranges_ok [OF t] conv by blast
  have "pseen p ! s" if "s < SlotCount" for s using c(6) that by (auto simp: first_uncovered_def find_None_iff)
  then have "load ?p0 ?rs s = 1" if "s < SlotCount" for s using p' c(5) that by simp
  then show ?thesis using c k conv by (simp add: valid_config_def load_def length_filter_sort)
qed

lemma slot_bound: "SlotForTransaction tx = Inr slot \<Longrightarrow> unat slot < SlotCount"
proof -
  assume "SlotForTransaction tx = Inr slot"
  then have s: "slot = ucast (fnv64a tx mod 1024)" by (auto simp: SlotForTransaction_def SlotCount_def split: if_splits)
  have "unat (fnv64a tx mod 1024) < 1024" by (simp add: unat_mod)
  then have "unat slot < 1024" unfolding s by (simp add: unsigned_ucast_eq take_bit_nat_eq_self)
  then show ?thesis by (simp add: SlotCount_def)
qed

section \<open>Properties\<close>

text \<open>
  C40: \<open>NewPlacement\<close> accepts exactly the configurations in which the Shards are listed once, every range
  lies within the slots and names a listed Shard, and every one of the 1024 slots is in exactly one
  range.
\<close>

theorem new_placement_iff_valid: "(\<exists>p. NewPlacement cfg = Inr p) \<longleftrightarrow> valid_config cfg"
  using NewPlacement_ok NewPlacement_conv by blast

text \<open>
  With an accepted placement every non-empty Transaction identifier has a route: its slot is below
  1024 and its Shard is the one of the only range that covers the slot, which is one of the listed
  Shards. Only the empty identifier is rejected.
\<close>

theorem placement_lookup_total:
  assumes "NewPlacement cfg = Inr p"
  shows "(case Placement_Lookup p tx of
      Inl e \<Rightarrow> tx = [] \<and> e = ErrInvalidTransaction
    | Inr route \<Rightarrow> tx \<noteq> [] \<and> unat (routeSlot route) < SlotCount \<and> routeShardID route \<in> set (cfgShards cfg) \<and>
        (\<exists>r. filter (covers (unat (routeSlot route))) (cfgRanges cfg) = [r] \<and> routeShardID route = rShardID r))"
proof (cases "tx = []")
  case True
  then show ?thesis by (simp add: Placement_Lookup_def SlotForTransaction_def)
next
  case False
  then obtain slot where slot: "SlotForTransaction tx = Inr slot" by (simp add: SlotForTransaction_def)
  note sb = slot_bound [OF slot]
  have v: "valid_config cfg" by (rule NewPlacement_conv [OF assms])
  then obtain r where r: "filter (covers (unat slot)) (cfgRanges cfg) = [r]"
    using sb by (auto simp: valid_config_def length_Suc_conv dest!: spec [of _ "unat slot"])
  then have "r \<in> set (filter (covers (unat slot)) (cfgRanges cfg))" by simp
  then have mem: "r \<in> set (cfgRanges cfg)" "covers (unat slot) r" by simp_all
  have "pseen p ! unat slot" "pslots p ! unat slot = rShardID r"
    using NewPlacement_ok [OF v] assms sb mem by auto
  then show ?thesis
    using False slot sb r v mem(1) by (auto simp: Placement_Lookup_def valid_config_def range_ok_def)
qed

lemma single_shard_valid: "valid_config (SingleShardConfig shardID)"
  by (auto simp: valid_config_def SingleShardConfig_def range_ok_def covers_def SlotCount_def)

theorem placement_lookup_total_witness:
  "\<exists>p. NewPlacement (SingleShardConfig 3) = Inr p \<and>
     (case Placement_Lookup p [116] of Inl e \<Rightarrow> False | Inr route \<Rightarrow> routeShardID route = 3)"
proof -
  obtain p where p: "NewPlacement (SingleShardConfig 3) = Inr p"
    using NewPlacement_ok [OF single_shard_valid] by blast
  from placement_lookup_total [OF p, of "[116]"] p show ?thesis
    by (auto simp: SingleShardConfig_def split: sum.splits)
qed

text \<open>
  The single-Shard placement is accepted and routes every slot to that Shard.
\<close>

theorem single_shard_routes: "\<exists>p. NewPlacement (SingleShardConfig shardID) = Inr p \<and> RoutesOnlyToShard p shardID"
proof -
  obtain p where p: "NewPlacement (SingleShardConfig shardID) = Inr p"
    "pranges p = sort_key (\<lambda>r. (rStartSlot r, rEndSlot r)) (cfgRanges (SingleShardConfig shardID))"
    "\<forall>s<SlotCount. pseen p ! s \<and> (\<forall>r\<in>set (cfgRanges (SingleShardConfig shardID)). covers s r \<longrightarrow> pslots p ! s = rShardID r)"
    using NewPlacement_ok [OF single_shard_valid] by blast
  then show ?thesis
    by (auto simp: RoutesOnlyToShard_def SingleShardConfig_def list_all_iff covers_def SlotCount_def)
qed

end
