(* ===== verification/Ulid.thy ===== *)
theory Ulid
  imports Scrap_Prelude
begin

text \<open>
  \<open>internal/ulid/ulid.go\<close>: 128-bit identifiers, their Crockford Base32 text form, and the monotonic
  generator. A ULID is a list of 16 bytes. The generator's environment is explicit: the list of the
  readings of the clock and the list of the 10-byte draws of \<open>crypto/rand\<close>.
\<close>

unbundle bit_operations_syntax

section \<open>Identifiers\<close>

definition ulidSize :: nat where "ulidSize = 16"
definition encodedLength :: nat where "encodedLength = 26"
definition invalidByte :: u8 where "invalidByte = 0xFF"

definition ULID_Time :: "bytes \<Rightarrow> u64" where
  "ULID_Time u = push_bit 40 (ucast (u ! 0)) OR push_bit 32 (ucast (u ! 1)) OR push_bit 24 (ucast (u ! 2))
     OR push_bit 16 (ucast (u ! 3)) OR push_bit 8 (ucast (u ! 4)) OR ucast (u ! 5)"

definition ULID_IsZero :: "bytes \<Rightarrow> bool" where
  "ULID_IsZero u \<longleftrightarrow> u = replicate ulidSize 0"

fun ULID_Compare :: "bytes \<Rightarrow> bytes \<Rightarrow> int" where
  "ULID_Compare (x # xs) (y # ys) = (if x < y then - 1 else if x > y then 1 else ULID_Compare xs ys)"
| "ULID_Compare _ _ = 0"

definition UnmarshalBinary :: "bytes \<Rightarrow> bytes option" where
  "UnmarshalBinary d = (if length d \<noteq> ulidSize then None else Some d)"

section \<open>The text form\<close>

definition encodingChars :: bytes where
  "encodingChars = lit ''0123456789ABCDEFGHJKMNPQRSTVWXYZ''"

text \<open>The decoding table: the position of a character of the alphabet, in either case.\<close>

primrec alphabet_pos :: "bytes \<Rightarrow> u8 \<Rightarrow> u8 \<Rightarrow> u8" where
  "alphabet_pos [] i c = invalidByte"
| "alphabet_pos (x # xs) i c =
     (if c = x \<or> (65 \<le> x \<and> x \<le> 90 \<and> c = x + 32) then i else alphabet_pos xs (i + 1) c)"

definition decodeTable :: "u8 \<Rightarrow> u8" where
  "decodeTable c = alphabet_pos encodingChars 0 c"

definition enc :: "u8 \<Rightarrow> u8" where
  "enc x = encodingChars ! unat x"

text \<open>The 26 five-bit digits, with the masks and shifts of the source.\<close>

definition ulid_digits :: "bytes \<Rightarrow> u8 list" where
  "ulid_digits u =
    [drop_bit 5 (u ! 0 AND 224), u ! 0 AND 31, drop_bit 3 (u ! 1 AND 248),
     push_bit 2 (u ! 1 AND 7) OR drop_bit 6 (u ! 2 AND 192), drop_bit 1 (u ! 2 AND 62),
     push_bit 4 (u ! 2 AND 1) OR drop_bit 4 (u ! 3 AND 240), push_bit 1 (u ! 3 AND 15) OR drop_bit 7 (u ! 4 AND 128),
     drop_bit 2 (u ! 4 AND 124), push_bit 3 (u ! 4 AND 3) OR drop_bit 5 (u ! 5 AND 224), u ! 5 AND 31,
     drop_bit 3 (u ! 6 AND 248),
     push_bit 2 (u ! 6 AND 7) OR drop_bit 6 (u ! 7 AND 192), drop_bit 1 (u ! 7 AND 62),
     push_bit 4 (u ! 7 AND 1) OR drop_bit 4 (u ! 8 AND 240), push_bit 1 (u ! 8 AND 15) OR drop_bit 7 (u ! 9 AND 128),
     drop_bit 2 (u ! 9 AND 124), push_bit 3 (u ! 9 AND 3) OR drop_bit 5 (u ! 10 AND 224), u ! 10 AND 31,
     drop_bit 3 (u ! 11 AND 248),
     push_bit 2 (u ! 11 AND 7) OR drop_bit 6 (u ! 12 AND 192), drop_bit 1 (u ! 12 AND 62),
     push_bit 4 (u ! 12 AND 1) OR drop_bit 4 (u ! 13 AND 240), push_bit 1 (u ! 13 AND 15) OR drop_bit 7 (u ! 14 AND 128),
     drop_bit 2 (u ! 14 AND 124), push_bit 3 (u ! 14 AND 3) OR drop_bit 5 (u ! 15 AND 224), u ! 15 AND 31]"

definition ULID_String :: "bytes \<Rightarrow> bytes" where
  "ULID_String u = map enc (ulid_digits u)"

definition ulid_of_digits :: "u8 list \<Rightarrow> bytes" where
  "ulid_of_digits d =
    [push_bit 5 (d ! 0) OR d ! 1, push_bit 3 (d ! 2) OR drop_bit 2 (d ! 3),
     push_bit 6 (d ! 3) OR push_bit 1 (d ! 4) OR drop_bit 4 (d ! 5), push_bit 4 (d ! 5) OR drop_bit 1 (d ! 6),
     push_bit 7 (d ! 6) OR push_bit 2 (d ! 7) OR drop_bit 3 (d ! 8), push_bit 5 (d ! 8) OR d ! 9,
     push_bit 3 (d ! 10) OR drop_bit 2 (d ! 11),
     push_bit 6 (d ! 11) OR push_bit 1 (d ! 12) OR drop_bit 4 (d ! 13), push_bit 4 (d ! 13) OR drop_bit 1 (d ! 14),
     push_bit 7 (d ! 14) OR push_bit 2 (d ! 15) OR drop_bit 3 (d ! 16), push_bit 5 (d ! 16) OR d ! 17,
     push_bit 3 (d ! 18) OR drop_bit 2 (d ! 19),
     push_bit 6 (d ! 19) OR push_bit 1 (d ! 20) OR drop_bit 4 (d ! 21), push_bit 4 (d ! 21) OR drop_bit 1 (d ! 22),
     push_bit 7 (d ! 22) OR push_bit 2 (d ! 23) OR drop_bit 3 (d ! 24), push_bit 5 (d ! 24) OR d ! 25]"

datatype ulid_err = InvalidLength | InvalidCharacter

definition Parse :: "bytes \<Rightarrow> ulid_err + bytes" where
  "Parse s =
     (if length s \<noteq> encodedLength then Inl InvalidLength
      else if list_ex (\<lambda>c. decodeTable c = invalidByte) s then Inl InvalidCharacter
      else Inr (ulid_of_digits (map decodeTable s)))"

section \<open>The generator\<close>

record Generator =
  lastTime :: u64
  lastRandom :: bytes

record ulid_env =
  clockReadings :: "u64 list"
  randomDraws :: "bytes list"

text \<open>The carry loop of \<open>incrementRandom\<close>: from the last byte on, and whether all bytes wrapped.\<close>

primrec increment_bytes :: "bytes \<Rightarrow> bytes \<times> bool" where
  "increment_bytes [] = ([], True)"
| "increment_bytes (b # bs) =
     (case increment_bytes bs of (bs', wrapped) \<Rightarrow>
        if wrapped then ((b + 1) # bs', b + 1 = 0) else (b # bs', False))"

text \<open>
  The wait after an overflow: readings of the clock until one is past \<open>lastTime\<close>. \<open>None\<close> when the
  readings end first, that is, when the loop does not return.
\<close>

fun wait_next_ms :: "u64 \<Rightarrow> u64 list \<Rightarrow> (u64 \<times> u64 list) option" where
  "wait_next_ms prev [] = None"
| "wait_next_ms prev (now # clk) = (if now > prev then Some (now, clk) else wait_next_ms prev clk)"

definition fillRandom :: "Generator \<Rightarrow> ulid_env \<Rightarrow> (Generator \<times> ulid_env) option" where
  "fillRandom g env =
     (case randomDraws env of [] \<Rightarrow> None | r # rs \<Rightarrow> Some (g\<lparr>lastRandom := r\<rparr>, env\<lparr>randomDraws := rs\<rparr>))"

definition incrementRandom :: "Generator \<Rightarrow> ulid_env \<Rightarrow> (Generator \<times> ulid_env) option" where
  "incrementRandom g env =
     (case increment_bytes (lastRandom g) of (bs, wrapped) \<Rightarrow>
        if \<not> wrapped then Some (g\<lparr>lastRandom := bs\<rparr>, env)
        else (case wait_next_ms (lastTime g) (clockReadings env) of
                None \<Rightarrow> None
              | Some (now, clk) \<Rightarrow> fillRandom (g\<lparr>lastRandom := bs, lastTime := now\<rparr>) (env\<lparr>clockReadings := clk\<rparr>)))"

definition ulid_bytes :: "u64 \<Rightarrow> bytes \<Rightarrow> bytes" where
  "ulid_bytes now random =
     [ucast (drop_bit 40 now), ucast (drop_bit 32 now), ucast (drop_bit 24 now), ucast (drop_bit 16 now),
      ucast (drop_bit 8 now), ucast now] @ random"

definition Generator_New :: "Generator \<Rightarrow> ulid_env \<Rightarrow> (bytes \<times> Generator \<times> ulid_env) option" where
  "Generator_New g env =
     (case clockReadings env of [] \<Rightarrow> None | now # clk \<Rightarrow>
        (let env1 = env\<lparr>clockReadings := clk\<rparr> in
         if now = lastTime g
         then map_option (\<lambda>(g1, env2). (ulid_bytes now (lastRandom g1), g1, env2)) (incrementRandom g env1)
         else if now < lastTime g
         then map_option (\<lambda>(g1, env2). (ulid_bytes (lastTime g) (lastRandom g1), g1, env2)) (incrementRandom g env1)
         else map_option (\<lambda>(g1, env2). (ulid_bytes now (lastRandom g1), g1, env2))
                (fillRandom (g\<lparr>lastTime := now\<rparr>) env1)))"

section \<open>The text form round trip\<close>

lemma decode_enc_all: "list_all (\<lambda>n. decodeTable (encodingChars ! n) = of_nat n) [0..<32]"
  by code_simp

lemma decode_enc:
  assumes "unat x < 32"
  shows "decodeTable (enc x) = x"
proof -
  have "decodeTable (encodingChars ! unat x) = of_nat (unat x)"
    using decode_enc_all assms by (auto simp: list_all_iff)
  then show ?thesis by (simp add: enc_def)
qed

lemma u8_bits:
  fixes x y :: u8
  assumes "\<And>n. n \<in> {0, 1, 2, 3, 4, 5, 6, 7} \<Longrightarrow> bit x n = bit y n"
  shows "x = y"
proof (rule bit_word_eqI)
  fix n :: nat
  assume "n < LENGTH(8)"
  then have "n \<in> {0, 1, 2, 3, 4, 5, 6, 7}" by auto
  then show "bit x n = bit y n" by (rule assms)
qed

lemma ulid_bits:
  fixes u v w :: u8
  shows "push_bit 5 (drop_bit 5 (u AND 224)) OR (u AND 31) = u"
    and "push_bit 3 (drop_bit 3 (u AND 248)) OR drop_bit 2 (push_bit 2 (u AND 7) OR drop_bit 6 (v AND 192)) = u"
    and "push_bit 6 (push_bit 2 (u AND 7) OR drop_bit 6 (v AND 192)) OR push_bit 1 (drop_bit 1 (v AND 62))
           OR drop_bit 4 (push_bit 4 (v AND 1) OR drop_bit 4 (w AND 240)) = v"
    and "push_bit 4 (push_bit 4 (u AND 1) OR drop_bit 4 (v AND 240)) OR drop_bit 1 (push_bit 1 (v AND 15) OR drop_bit 7 (w AND 128)) = v"
    and "push_bit 7 (push_bit 1 (u AND 15) OR drop_bit 7 (v AND 128)) OR push_bit 2 (drop_bit 2 (v AND 124))
           OR drop_bit 3 (push_bit 3 (v AND 3) OR drop_bit 5 (w AND 224)) = v"
    and "push_bit 5 (push_bit 3 (u AND 3) OR drop_bit 5 (v AND 224)) OR (v AND 31) = v"
  by (rule u8_bits; elim insertE emptyE; (simp add: bit_simps del: push_bit_Suc)?; (simp add: numeral_2_eq_2 numeral_3_eq_3)?)+


lemma digit_bound:
  fixes d :: u8
  assumes "d AND 31 = d"
  shows "unat d < 32"
proof -
  have "d \<le> 31" using word_and_le1 [of d 31] assms by simp
  then show ?thesis by (simp add: word_le_nat_alt)
qed

lemma digit_masks:
  fixes u v :: u8
  shows "drop_bit 5 (u AND 224) AND 31 = drop_bit 5 (u AND 224)" and "(u AND 31) AND 31 = u AND 31"
    and "drop_bit 3 (u AND 248) AND 31 = drop_bit 3 (u AND 248)"
    and "(push_bit 2 (u AND 7) OR drop_bit 6 (v AND 192)) AND 31 = push_bit 2 (u AND 7) OR drop_bit 6 (v AND 192)"
    and "drop_bit 1 (u AND 62) AND 31 = drop_bit 1 (u AND 62)"
    and "(push_bit 4 (u AND 1) OR drop_bit 4 (v AND 240)) AND 31 = push_bit 4 (u AND 1) OR drop_bit 4 (v AND 240)"
    and "(push_bit 1 (u AND 15) OR drop_bit 7 (v AND 128)) AND 31 = push_bit 1 (u AND 15) OR drop_bit 7 (v AND 128)"
    and "drop_bit 2 (u AND 124) AND 31 = drop_bit 2 (u AND 124)"
    and "(push_bit 3 (u AND 3) OR drop_bit 5 (v AND 224)) AND 31 = push_bit 3 (u AND 3) OR drop_bit 5 (v AND 224)"
  by (rule u8_bits; elim insertE emptyE; (simp add: bit_simps del: push_bit_Suc)?; (simp add: numeral_2_eq_2 numeral_3_eq_3)?)+

lemma ulid_digits_bound: "\<forall>d\<in>set (ulid_digits u). unat d < 32"
  unfolding ulid_digits_def list.set ball_simps by (intro conjI digit_bound digit_masks TrueI)

lemma ulid_digits_decode: "map decodeTable (ULID_String u) = ulid_digits u"
  using ulid_digits_bound [of u] decode_enc by (simp add: ULID_String_def map_idI)

lemma length_ulid_digits [simp]: "length (ulid_digits u) = 26"
  by (simp add: ulid_digits_def)

lemma length_ULID_String [simp]: "length (ULID_String u) = 26"
  by (simp add: ULID_String_def)

lemma length16_list:
  "length u = 16 \<Longrightarrow> u = [u ! 0, u ! 1, u ! 2, u ! 3, u ! 4, u ! 5, u ! 6, u ! 7, u ! 8, u ! 9, u ! 10, u ! 11,
     u ! 12, u ! 13, u ! 14, u ! 15]"
  by (clarsimp simp: numeral_eq_Suc length_Suc_conv)

lemma ulid_of_digits_list:
  "ulid_of_digits [d0, d1, d2, d3, d4, d5, d6, d7, d8, d9, d10, d11, d12,
     d13, d14, d15, d16, d17, d18, d19, d20, d21, d22, d23, d24, d25] =
    [push_bit 5 (d0) OR d1, push_bit 3 (d2) OR drop_bit 2 (d3),
     push_bit 6 (d3) OR push_bit 1 (d4) OR drop_bit 4 (d5), push_bit 4 (d5) OR drop_bit 1 (d6),
     push_bit 7 (d6) OR push_bit 2 (d7) OR drop_bit 3 (d8), push_bit 5 (d8) OR d9,
     push_bit 3 (d10) OR drop_bit 2 (d11),
     push_bit 6 (d11) OR push_bit 1 (d12) OR drop_bit 4 (d13), push_bit 4 (d13) OR drop_bit 1 (d14),
     push_bit 7 (d14) OR push_bit 2 (d15) OR drop_bit 3 (d16), push_bit 5 (d16) OR d17,
     push_bit 3 (d18) OR drop_bit 2 (d19),
     push_bit 6 (d19) OR push_bit 1 (d20) OR drop_bit 4 (d21), push_bit 4 (d21) OR drop_bit 1 (d22),
     push_bit 7 (d22) OR push_bit 2 (d23) OR drop_bit 3 (d24), push_bit 5 (d24) OR d25]"
  by (simp add: ulid_of_digits_def del: push_bit_Suc One_nat_def)

lemma ulid_of_digits_digits:
  assumes "length u = 16"
  shows "ulid_of_digits (ulid_digits u) = u"
proof -
  have "ulid_of_digits (ulid_digits u) = [u ! 0, u ! 1, u ! 2, u ! 3, u ! 4, u ! 5, u ! 6, u ! 7, u ! 8, u ! 9, u ! 10,
      u ! 11, u ! 12, u ! 13, u ! 14, u ! 15]"
    unfolding ulid_digits_def ulid_of_digits_list ulid_bits ..
  also have "\<dots> = u" by (rule length16_list [OF assms, symmetric])
  finally show ?thesis .
qed

section \<open>Order\<close>

lemma increment_bytes_greater:
  "increment_bytes bs = (bs', False) \<Longrightarrow> ULID_Compare bs bs' = - 1 \<and> length bs' = length bs"
proof (induction bs arbitrary: bs')
  case (Cons b bs)
  obtain cs wrapped where i: "increment_bytes bs = (cs, wrapped)" by (cases "increment_bytes bs")
  show ?case
  proof (cases wrapped)
    case False
    then show ?thesis using Cons i by auto
  next
    case True
    then have b: "b + 1 \<noteq> 0" "bs' = (b + 1) # cs" using Cons.prems i by (auto split: if_splits)
    then have "b < b + 1" by (metis add.commute lessI unatSuc word_less_nat_alt)
    moreover have "length cs = length bs" using i by (induction bs arbitrary: cs wrapped) (auto split: prod.splits if_splits)
    ultimately show ?thesis using b(2) by simp
  qed
qed simp

lemma Compare_append_eq: "ULID_Compare (xs @ as) (xs @ bs) = ULID_Compare as bs"
  by (induction xs) simp_all


lemma Compare_append_less:
  "length xs = length ys \<Longrightarrow> ULID_Compare xs ys = - 1 \<Longrightarrow> ULID_Compare (xs @ as) (ys @ bs) = - 1"
  by (induction xs ys rule: list_induct2) (auto split: if_splits)

primrec be_val :: "bytes \<Rightarrow> nat" where
  "be_val [] = 0"
| "be_val (b # bs) = unat b * 256 ^ length bs + be_val bs"

lemma be_val_less: "be_val bs < 256 ^ length bs"
proof (induction bs)
  case (Cons b bs)
  have "unat b < 256" using unsigned_less [of b] by simp
  then have "(unat b + 1) * 256 ^ length bs \<le> 256 * 256 ^ length bs" by (intro mult_right_mono) simp_all
  then have "unat b * 256 ^ length bs + 256 ^ length bs \<le> 256 * 256 ^ length bs" by (simp only: distrib_right mult_1)
  moreover have "be_val (b # bs) = unat b * 256 ^ length bs + be_val bs" by simp
  ultimately show ?case using Cons unfolding length_Cons power_Suc by linarith
qed simp

lemma Compare_be_val:
  "length xs = length ys \<Longrightarrow> be_val xs < be_val ys \<Longrightarrow> ULID_Compare xs ys = - 1"
proof (induction xs ys rule: list_induct2)
  case (Cons x xs y ys)
  have le: "unat x \<le> unat y"
  proof (rule ccontr)
    assume "\<not> unat x \<le> unat y"
    then have "(unat y + 1) * 256 ^ length xs \<le> unat x * 256 ^ length xs" by (intro mult_right_mono) simp_all
    then show False using Cons.prems Cons.hyps be_val_less [of ys] by simp
  qed
  show ?case
  proof (cases "x = y")
    case True
    then show ?thesis using Cons by simp
  next
    case False
    then have "x < y" using le by (simp add: word_less_nat_alt order_less_le word_unat_eq_iff)
    then show ?thesis by simp
  qed
qed simp

definition time_bytes :: "u64 \<Rightarrow> bytes" where
  "time_bytes now = [ucast (drop_bit 40 now), ucast (drop_bit 32 now), ucast (drop_bit 24 now), ucast (drop_bit 16 now),
      ucast (drop_bit 8 now), ucast now]"

lemma unat_byte: "unat (ucast (drop_bit k (t :: u64)) :: u8) = unat t div 2 ^ k mod 256"
proof -
  have "unat (ucast (drop_bit k t) :: u8) = take_bit 8 (unat (drop_bit k t))" by (simp add: unsigned_ucast_eq)
  moreover have "unat (drop_bit k t) = drop_bit k (take_bit 64 (unat t))" by (simp add: unsigned_drop_bit_eq)
  moreover have "take_bit 64 (unat t) = unat t" by (rule take_bit_nat_eq_self) (use unsigned_less [of t] in simp)
  ultimately show ?thesis by (simp add: drop_bit_eq_div take_bit_eq_mod)
qed

lemma base256_digits:
  fixes n :: nat
  assumes "n < 2 ^ 48"
  shows "n div 2 ^ 40 mod 256 * 256 ^ 5 + (n div 2 ^ 32 mod 256 * 256 ^ 4 + (n div 2 ^ 24 mod 256 * 256 ^ 3 +
    (n div 2 ^ 16 mod 256 * 256 ^ 2 + (n div 2 ^ 8 mod 256 * 256 + n mod 256)))) = n"
proof -
  define a1 a2 a3 a4 a5 where "a1 = n div 2 ^ 8" and "a2 = n div 2 ^ 16" and "a3 = n div 2 ^ 24"
    and "a4 = n div 2 ^ 32" and "a5 = n div 2 ^ 40"
  note defs = this
  have "a2 = a1 div 256" "a3 = a2 div 256" "a4 = a3 div 256" "a5 = a4 div 256"
    by (simp_all add: defs div_mult2_eq [symmetric])
  moreover have "a5 < 256" using assms by (simp add: defs)
  moreover have "n = 256 * a1 + n mod 256" by (simp add: defs)
  ultimately have "n = 256 * a1 + n mod 256" "a1 = 256 * a2 + a1 mod 256" "a2 = 256 * a3 + a2 mod 256"
    "a3 = 256 * a4 + a3 mod 256" "a4 = 256 * a5 + a4 mod 256" "a5 mod 256 = a5" by simp_all
  then show ?thesis unfolding defs [symmetric] by simp
qed

lemma be_val_time:
  assumes "unat t < 2 ^ 48"
  shows "be_val (time_bytes t) = unat t"
proof -
  have "unat (ucast t :: u8) = unat t mod 256" using unat_byte [of 0 t] by simp
  then have "be_val (time_bytes t) = unat t div 2 ^ 40 mod 256 * 256 ^ 5 + (unat t div 2 ^ 32 mod 256 * 256 ^ 4 +
      (unat t div 2 ^ 24 mod 256 * 256 ^ 3 + (unat t div 2 ^ 16 mod 256 * 256 ^ 2 +
      (unat t div 2 ^ 8 mod 256 * 256 + unat t mod 256))))"
    unfolding time_bytes_def be_val.simps unat_byte list.size by simp
  then show ?thesis using base256_digits [OF assms] by (simp only:)
qed

lemma time_bytes_less:
  assumes "t < t'" and "unat t' < 2 ^ 48"
  shows "ULID_Compare (time_bytes t) (time_bytes t') = - 1"
  using assms be_val_time [of t] be_val_time [of t']
  by (intro Compare_be_val) (simp_all add: time_bytes_def word_less_nat_alt)

lemma ulid_bytes_less:
  assumes "t < t' \<and> unat t' < 2 ^ 48 \<or> t = t' \<and> ULID_Compare r r' = - 1"
  shows "ULID_Compare (ulid_bytes t r) (ulid_bytes t' r') = - 1"
proof -
  have u: "ulid_bytes t r = time_bytes t @ r" for t r by (simp add: ulid_bytes_def time_bytes_def)
  have l: "length (time_bytes t) = length (time_bytes t')" by (simp add: time_bytes_def)
  show ?thesis
  proof (cases "t = t'")
    case True
    then show ?thesis using assms by (simp add: u Compare_append_eq)
  next
    case False
    then have "ULID_Compare (time_bytes t) (time_bytes t') = - 1" using assms time_bytes_less by blast
    from Compare_append_less [OF l this] show ?thesis by (simp add: u)
  qed
qed

section \<open>Properties\<close>

text \<open>
  The text form is a round trip: every 16-byte identifier is printed as 26 characters that \<open>Parse\<close>
  reads back as the same identifier.
\<close>

theorem ulid_text_round_trip:
  assumes "length u = ulidSize"
  shows "length (ULID_String u) = encodedLength \<and> Parse (ULID_String u) = Inr u"
proof -
  have "\<not> list_ex (\<lambda>c. decodeTable c = invalidByte) (ULID_String u)"
  proof
    assume "list_ex (\<lambda>c. decodeTable c = invalidByte) (ULID_String u)"
    then have "invalidByte \<in> set (map decodeTable (ULID_String u))" by (force simp: list_ex_iff)
    then show False using ulid_digits_bound [of u] by (auto simp: ulid_digits_decode invalidByte_def)
  qed
  then show ?thesis
    using assms ulid_of_digits_digits length_ULID_String
    by (simp add: Parse_def ulid_digits_decode ulidSize_def encodedLength_def)
qed

theorem ulid_text_round_trip_witness:
  "Parse (ULID_String [1, 2, 3, 4, 5, 6, 7, 8, 9, 10, 11, 12, 13, 14, 15, 255]) =
     Inr [1, 2, 3, 4, 5, 6, 7, 8, 9, 10, 11, 12, 13, 14, 15, 255]"
  using ulid_text_round_trip [of "[1, 2, 3, 4, 5, 6, 7, 8, 9, 10, 11, 12, 13, 14, 15, 255]"]
  by (simp add: ulidSize_def)

text \<open>
  The generator is monotonic as long as its random part does not overflow. Whatever the clock reads,
  backwards included, a new identifier is greater than the last one issued, and the generator's
  state again describes the identifier it issued.
\<close>

theorem generator_monotonic:
  assumes "Generator_New g env = Some (uid, g', env')"
    and "\<not> snd (increment_bytes (lastRandom g))" and "unat (hd (clockReadings env)) < 2 ^ 48"
  shows "ULID_Compare (ulid_bytes (lastTime g) (lastRandom g)) uid = - 1 \<and>
    uid = ulid_bytes (lastTime g') (lastRandom g')"
proof -
  obtain now clk where c: "clockReadings env = now # clk"
    using assms(1) by (cases "clockReadings env") (auto simp: Generator_New_def)
  obtain bs where i: "increment_bytes (lastRandom g) = (bs, False)"
    using assms(2) by (cases "increment_bytes (lastRandom g)") auto
  show ?thesis
  proof (cases "now \<le> lastTime g")
    case True
    then have "uid = ulid_bytes (lastTime g) bs" "g' = g\<lparr>lastRandom := bs\<rparr>"
      using assms(1) c i by (auto simp: Generator_New_def incrementRandom_def Let_def split: if_splits)
    then show ?thesis using increment_bytes_greater [OF i] by (simp add: ulid_bytes_less)
  next
    case False
    then have "uid = ulid_bytes now (lastRandom g')" "lastTime g' = now"
      using assms(1) c by (auto simp: Generator_New_def fillRandom_def Let_def split: if_splits list.splits)
    moreover have "lastTime g < now" using False by simp
    ultimately show ?thesis using assms(3) c ulid_bytes_less [of "lastTime g" now] by simp
  qed
qed

theorem generator_monotonic_witness:
  "ULID_Compare (ulid_bytes 5 (replicate 10 0)) (ulid_bytes 5 (replicate 9 0 @ [1])) = - 1"
proof -
  let ?g = "\<lparr>lastTime = 5, lastRandom = replicate 10 0\<rparr>"
  let ?env = "\<lparr>clockReadings = [4], randomDraws = []\<rparr>"
  have "Generator_New ?g ?env = Some (ulid_bytes 5 (replicate 9 0 @ [1]), \<lparr>lastTime = 5, lastRandom = replicate 9 0 @ [1]\<rparr>,
      \<lparr>clockReadings = [], randomDraws = []\<rparr>)"
    by code_simp
  moreover have "\<not> snd (increment_bytes (lastRandom ?g))" by code_simp
  ultimately show ?thesis using generator_monotonic [of ?g ?env] by simp
qed

text \<open>
  The overflow branch breaks the order. When the random part wraps, \<open>incrementRandom\<close> waits for the next
  millisecond and draws a fresh random part, but \<open>New\<close> still uses the time it read before: the new
  identifier has the old time with a random part that is smaller than the last one issued.
\<close>

theorem generator_overflow_regresses:
  "Generator_New \<lparr>lastTime = 5, lastRandom = replicate 10 255\<rparr> \<lparr>clockReadings = [5, 6], randomDraws = [replicate 10 7]\<rparr> =
     Some (ulid_bytes 5 (replicate 10 7), \<lparr>lastTime = 6, lastRandom = replicate 10 7\<rparr>, \<lparr>clockReadings = [], randomDraws = []\<rparr>) \<and>
   ULID_Compare (ulid_bytes 5 (replicate 10 255)) (ulid_bytes 5 (replicate 10 7)) = 1"
  by code_simp

text \<open>
  \<open>Parse\<close> is not injective: a first character above 7 encodes bits beyond the 128 of an identifier,
  which are dropped without an error.
\<close>

theorem parse_drops_overflow:
  "Parse (lit ''Z0000000000000000000000000'') = Parse (lit ''70000000000000000000000000'') \<and>
   (\<exists>u. Parse (lit ''Z0000000000000000000000000'') = Inr u)"
proof -
  have "Parse (lit ''Z0000000000000000000000000'') = Inr (224 # replicate 15 0)"
    "Parse (lit ''70000000000000000000000000'') = Inr (224 # replicate 15 0)" by code_simp+
  then show ?thesis by simp
qed

end
