(* ===== verification/Admission.thy ===== *)
theory Admission
  imports Scrap_Prelude "HOL-Library.Multiset"
begin

text \<open>
  \<open>internal/admission/budget.go\<close>: the byte-weighted semaphore. The mutex makes one pass of \<open>Acquire\<close>
  from the lock to the grant, the rejection or the wait atomic, and \<open>Release\<close> as a whole; these are
  the steps of the model. The system is a step relation over the budget and the bytes that callers
  hold.
\<close>

section \<open>Operations\<close>

definition DefaultCapacityBytes :: int where "DefaultCapacityBytes = 268435456"

record Budget =
  capacity :: int
  used :: int

definition Budget_New :: "int \<Rightarrow> Budget" where
  "Budget_New cap = \<lparr>capacity = (if cap \<le> 0 then DefaultCapacityBytes else cap), used = 0\<rparr>"

definition clamp :: "Budget \<Rightarrow> int \<Rightarrow> int" where
  "clamp b n = (if n > capacity b then capacity b else n)"

text \<open>
  One pass of the loop of \<open>Acquire\<close> under the lock: granted, rejected because the context ended, or put
  to wait for a broadcast. The sum is a 64-bit one.
\<close>

datatype acquire_result = Granted Budget | ErrResourceExhausted | Waiting

definition Acquire_pass :: "bool \<Rightarrow> int \<Rightarrow> Budget \<Rightarrow> acquire_result" where
  "Acquire_pass ctxEnded n b =
     (if n \<le> 0 then Granted b
      else if wrap64 (used b + clamp b n) > capacity b
      then (if ctxEnded then ErrResourceExhausted else Waiting)
      else Granted (b\<lparr>used := wrap64 (used b + clamp b n)\<rparr>))"

definition Release :: "int \<Rightarrow> Budget \<Rightarrow> Budget" where
  "Release n b =
     (if n \<le> 0 then b
      else let left = wrap64 (used b - clamp b n) in b\<lparr>used := (if left < 0 then 0 else left)\<rparr>)"

section \<open>The system\<close>

text \<open>The budget and the multiset of the positive requests that were granted and not yet released.\<close>

type_synonym adm_state = "Budget \<times> int multiset"

inductive adm_step :: "adm_state \<Rightarrow> adm_state \<Rightarrow> bool" where
  grant: "n > 0 \<Longrightarrow> Acquire_pass ended n b = Granted b' \<Longrightarrow> adm_step (b, held) (b', add_mset n held)"
| reject: "Acquire_pass ended n b = ErrResourceExhausted \<Longrightarrow> adm_step (b, held) (b, held)"
| wait: "Acquire_pass ended n b = Waiting \<Longrightarrow> adm_step (b, held) (b, held)"
| skip: "(n :: int) \<le> 0 \<Longrightarrow> adm_step (b, held) (b, held)"
| release: "n \<in># held \<Longrightarrow> adm_step (b, held) (Release n b, held - {#n#})"

inductive_cases adm_stepE: "adm_step (b, held) s"

definition clamped_sum :: "Budget \<Rightarrow> int multiset \<Rightarrow> int" where
  "clamped_sum b held = (\<Sum>n\<in>#held. clamp b n)"

text \<open>The capacity leaves room for the sum of two requests in 64 bits.\<close>

definition adm_inv :: "adm_state \<Rightarrow> bool" where
  "adm_inv s \<longleftrightarrow> (case s of (b, held) \<Rightarrow>
     0 < capacity b \<and> capacity b < 2 ^ 62 \<and> (\<forall>n\<in>#held. n > 0) \<and> used b = clamped_sum b held \<and> used b \<le> capacity b)"

lemma clamp_bounds: "0 < capacity b \<Longrightarrow> n > 0 \<Longrightarrow> 0 < clamp b n \<and> clamp b n \<le> capacity b"
  by (simp add: clamp_def)

lemma clamped_sum_nonneg:
  "0 < capacity b \<Longrightarrow> \<forall>n\<in>#held. n > 0 \<Longrightarrow> 0 \<le> clamped_sum b held"
  by (induction held) (auto simp: clamped_sum_def clamp_def)

lemma clamped_sum_cong: "capacity b' = capacity b \<Longrightarrow> clamped_sum b' held = clamped_sum b held"
  by (induction held) (simp_all add: clamped_sum_def clamp_def)

lemma Acquire_granted:
  assumes "Acquire_pass ended n b = Granted b'" and "adm_inv (b, held)" and "n > 0"
  shows "used b' = used b + clamp b n \<and> capacity b' = capacity b \<and> used b' \<le> capacity b"
proof -
  have b: "0 < capacity b" "capacity b < 2 ^ 62" "used b \<le> capacity b" "0 \<le> used b"
    using assms(2) clamped_sum_nonneg by (auto simp: adm_inv_def)
  have "wrap64 (used b + clamp b n) = used b + clamp b n"
    using b clamp_bounds [OF b(1) assms(3)] by (intro wrap64_id) simp_all
  then show ?thesis using assms(1,3) by (auto simp: Acquire_pass_def split: if_splits)
qed

lemma Release_held:
  assumes "n \<in># held" and "adm_inv (b, held)"
  shows "used (Release n b) = clamped_sum b (held - {#n#}) \<and> capacity (Release n b) = capacity b"
proof -
  obtain rem where h: "held = add_mset n rem" using assms(1) by (metis insert_DiffM)
  have b: "0 < capacity b" "n > 0" "used b = clamp b n + clamped_sum b rem" "used b \<le> capacity b" "capacity b < 2 ^ 62"
    "0 \<le> clamped_sum b rem"
    using assms(2) h clamped_sum_nonneg [of b rem] by (auto simp: adm_inv_def clamped_sum_def)
  then have "wrap64 (used b - clamp b n) = clamped_sum b rem"
    using clamp_bounds [OF b(1,2)] by simp
  then show ?thesis using b h by (simp add: Release_def Let_def)
qed

lemma adm_step_inv: "adm_step s s' \<Longrightarrow> adm_inv s \<Longrightarrow> adm_inv s'"
proof (induction rule: adm_step.induct)
  case (grant n ended b b' held)
  then show ?case
    using Acquire_granted [OF grant(2,3,1)] clamped_sum_cong [of b' b]
    by (auto simp: adm_inv_def clamped_sum_def)
next
  case (release n held b)
  have r: "used (Release n b) = clamped_sum b (held - {#n#})" "capacity (Release n b) = capacity b"
    using Release_held [OF release] by auto
  obtain rem where h: "held = add_mset n rem" using release(1) by (metis insert_DiffM)
  have "clamped_sum b rem \<le> clamped_sum b held"
    using release(2) h clamp_bounds [of b n] by (auto simp: adm_inv_def clamped_sum_def)
  then show ?case using release(2) r h clamped_sum_cong [OF r(2)] by (auto simp: adm_inv_def)
qed simp_all

lemma adm_reachable_inv: "adm_step\<^sup>*\<^sup>* s s' \<Longrightarrow> adm_inv s \<Longrightarrow> adm_inv s'"
  by (induction rule: rtranclp_induct) (auto intro: adm_step_inv)

section \<open>Properties\<close>

text \<open>
  In every state reachable from a fresh budget the bytes in use are exactly the sum of the granted
  requests that were not released, each clamped to the capacity, and they never exceed the capacity:
  grants are not lost, counted twice or oversubscribed in any interleaving.
\<close>

theorem admission_accounting:
  assumes "cap < 2 ^ 62" and "adm_step\<^sup>*\<^sup>* (Budget_New cap, {#}) (b, held)"
  shows "used b = clamped_sum b held \<and> 0 \<le> used b \<and> used b \<le> capacity b"
proof -
  have "adm_inv (Budget_New cap, {#})"
    using assms(1) by (simp add: adm_inv_def Budget_New_def clamped_sum_def DefaultCapacityBytes_def)
  then have "adm_inv (b, held)" using adm_reachable_inv [OF assms(2)] by blast
  then show ?thesis using clamped_sum_nonneg by (auto simp: adm_inv_def)
qed

theorem admission_accounting_witness:
  "0 \<le> used \<lparr>capacity = 10, used = 10\<rparr> \<and> used \<lparr>capacity = 10, used = 10\<rparr> = clamped_sum \<lparr>capacity = 10, used = 10\<rparr> {#25#}"
proof -
  have "adm_step (Budget_New 10, {#}) (\<lparr>capacity = 10, used = 10\<rparr>, add_mset 25 {#})"
    by (rule adm_step.grant [where ended = False])
      (simp_all add: Acquire_pass_def Budget_New_def clamp_def)
  then have "adm_step\<^sup>*\<^sup>* (Budget_New 10, {#}) (\<lparr>capacity = 10, used = 10\<rparr>, add_mset 25 {#})" by (rule r_into_rtranclp)
  from admission_accounting [OF _ this] show ?thesis by simp
qed

text \<open>
  An idle budget admits any single request, however large: no caller waits or is rejected while
  nothing is held, so a Document larger than the capacity cannot block forever.
\<close>

theorem admission_idle_grants:
  assumes "0 < capacity b" and "capacity b < 2 ^ 62" and "used b = 0"
  shows "\<exists>b'. Acquire_pass ended n b = Granted b' \<and> used b' \<le> capacity b'"
proof (cases "n > 0")
  case True
  then have "wrap64 (clamp b n) = clamp b n" "clamp b n \<le> capacity b"
    using assms(2) clamp_bounds [OF assms(1) True] by (auto intro: wrap64_id)
  then show ?thesis using True assms(3) by (simp add: Acquire_pass_def)
qed (use assms in \<open>simp add: Acquire_pass_def\<close>)

theorem admission_idle_grants_witness:
  "\<exists>b'. Acquire_pass True 1000 \<lparr>capacity = 10, used = 0\<rparr> = Granted b' \<and> used b' \<le> capacity b'"
  by (rule admission_idle_grants) simp_all

end
