(* ===== verification/Eviction_Plan.thy ===== *)
theory Eviction_Plan
  imports Scrap_Prelude "HOL-Library.Multiset"
begin

text \<open>
  \<open>internal/eviction/types.go\<close> and \<open>planner.go\<close>: an operator's request to free local copies of Blocks
  is turned into a plan. Byte counts are \<open>int64\<close> and keep its wrap-around; the closed sets of reason and
  status strings are datatypes. \<open>sort.Slice\<close> orders the candidates by Block id.
\<close>

section \<open>Types\<close>

datatype skip_reason =
    SkipReasonHotResidencyWindow
  | SkipReasonLeaderHotCopyRequired
  | SkipReasonLocalStateNotHot
  | SkipReasonNoDurableCopy
  | SkipReasonPlanExpired
  | SkipReasonPlanBounds
  | SkipReasonShardFilter

datatype eviction_err =
    ErrInvalidPlanRequest string
  | ErrTargetMemberMismatch
  | ErrPlanCapExceedsCeiling
  | ErrPlanNotFound
  | ErrPlanExpired
  | ErrApplyInProgress
  | ErrApplyDisabled
  | ErrPlanStale

definition ReasonEvidenceRun :: bytes where "ReasonEvidenceRun = lit ''evidence_run''"
definition RepairStateIdle :: bytes where "RepairStateIdle = lit ''idle''"

record Member =
  memHostname :: bytes
  memID :: bytes

record Bounds =
  MaxBlocks :: int
  MaxBytes :: int

record ConfigSnapshot =
  snapEnabled :: bool
  snapHotResidencyWindowSeconds :: int
  snapPlanTTLSeconds :: int
  snapRecommendedMaxBlocks :: int
  snapRecommendedMaxBytes :: int
  snapMaxValidateSamples :: int

record PlanRequest =
  reqMemberHostname :: bytes
  reqShardID :: "u64 option"
  reqMaxBlocks :: "int option"
  reqMaxBytes :: "int option"
  reqReason :: bytes
  reqNote :: bytes

record PlanBlock =
  pbBlockID :: u64
  pbShardID :: u64
  pbSizeBytes :: int
  pbBackendKey :: bytes
  pbConfirmedAtUs :: int
  pbRestoredAtUs :: int
  pbEligibleAtUs :: int
  pbHotResidencyWindowSeconds :: int
  pbLocalState :: bytes
  pbOpenReaders :: int
  pbRepairState :: bytes
  pbReason :: "skip_reason option"

record Plan =
  PlanID :: bytes
  GeneratedAtUs :: int
  ExpiresAtUs :: int
  planMemberHostname :: bytes
  planMemberID :: bytes
  planShardID :: "u64 option"
  planReason :: bytes
  planNote :: bytes
  planConfig :: ConfigSnapshot
  RecommendedBounds :: Bounds
  RequestedBounds :: Bounds
  EffectiveBounds :: Bounds
  Selected :: "PlanBlock list"
  Skipped :: "PlanBlock list"
  SkipCountsByReason :: "skip_reason \<Rightarrow> nat"
  CandidateBlocks :: int
  CandidateBytes :: int
  EligibleBlocks :: int
  EligibleBytes :: int
  SelectedBytes :: int

text \<open>Durations and instants are nanoseconds.\<close>

record PlanConfig =
  cfgEnabled :: bool
  cfgHotResidencyWindow :: int
  cfgPlanTTL :: int
  cfgRecommendedMaxBlocks :: int
  cfgRecommendedMaxBytes :: int
  cfgMaxValidateSamples :: int

record PlanCandidate =
  canBlockID :: u64
  canShardID :: u64
  canSizeBytes :: int
  canBackendKey :: bytes
  canConfirmedAtUs :: int
  canRestoredAtUs :: int
  canLocalState :: bytes
  canLocalEvictable :: bool
  canOpenReaders :: int
  canRepairState :: bytes

record PlanInput =
  inRequest :: PlanRequest
  inConfig :: PlanConfig
  inMember :: Member
  inNow :: int
  inPlanID :: bytes
  inIsLeader :: bool
  inCandidates :: "PlanCandidate list"

section \<open>Validation\<close>

definition validatePlanIdentity :: "PlanInput \<Rightarrow> eviction_err option" where
  "validatePlanIdentity i =
     (if inPlanID i = [] then Some (ErrInvalidPlanRequest ''plan_id is required'')
      else if memHostname (inMember i) = [] then Some (ErrInvalidPlanRequest ''local member_hostname is required'')
      else if memID (inMember i) = [] then Some (ErrInvalidPlanRequest ''local member_id is required'')
      else if reqMemberHostname (inRequest i) = [] then Some (ErrInvalidPlanRequest ''member_hostname is required'')
      else if reqMemberHostname (inRequest i) \<noteq> memHostname (inMember i) then Some ErrTargetMemberMismatch
      else None)"

definition validatePlanRequest :: "PlanInput \<Rightarrow> eviction_err option" where
  "validatePlanRequest i =
     (if reqReason (inRequest i) \<noteq> [] \<and> reqReason (inRequest i) \<noteq> ReasonEvidenceRun
      then Some (ErrInvalidPlanRequest ''unsupported reason'') else None)"

definition validatePlanConfig :: "PlanConfig \<Rightarrow> eviction_err option" where
  "validatePlanConfig cfg =
     (if cfgHotResidencyWindow cfg < 0 then Some (ErrInvalidPlanRequest ''hot residency window must be >= 0'')
      else if cfgPlanTTL cfg \<le> 0 then Some (ErrInvalidPlanRequest ''plan ttl must be > 0'')
      else if cfgRecommendedMaxBlocks cfg \<le> 0 then Some (ErrInvalidPlanRequest ''recommended max_blocks must be > 0'')
      else if cfgRecommendedMaxBytes cfg \<le> 0 then Some (ErrInvalidPlanRequest ''recommended max_bytes must be > 0'')
      else if cfgMaxValidateSamples cfg < 0 then Some (ErrInvalidPlanRequest ''max validate samples must be >= 0'')
      else None)"

definition validatePlanInput :: "PlanInput \<Rightarrow> eviction_err option" where
  "validatePlanInput i =
     (case validatePlanIdentity i of Some e \<Rightarrow> Some e | None \<Rightarrow>
      case validatePlanRequest i of Some e \<Rightarrow> Some e | None \<Rightarrow> validatePlanConfig (inConfig i))"

definition planBounds :: "PlanRequest \<Rightarrow> Bounds \<Rightarrow> eviction_err + Bounds \<times> Bounds" where
  "planBounds req recommended =
     (let blocks = (case reqMaxBlocks req of
             None \<Rightarrow> Inr (\<lparr>MaxBlocks = 0, MaxBytes = 0\<rparr>, recommended)
           | Some n \<Rightarrow> if n \<le> 0 then Inl (ErrInvalidPlanRequest ''max_blocks must be > 0'')
               else if n > MaxBlocks recommended then Inl ErrPlanCapExceedsCeiling
               else Inr (\<lparr>MaxBlocks = n, MaxBytes = 0\<rparr>, recommended\<lparr>MaxBlocks := n\<rparr>))
      in case blocks of Inl e \<Rightarrow> Inl e | Inr (requested, effective) \<Rightarrow>
         (case reqMaxBytes req of
            None \<Rightarrow> Inr (requested, effective)
          | Some n \<Rightarrow> if n \<le> 0 then Inl (ErrInvalidPlanRequest ''max_bytes must be > 0'')
              else if n > MaxBytes recommended then Inl ErrPlanCapExceedsCeiling
              else Inr (requested\<lparr>MaxBytes := n\<rparr>, effective\<lparr>MaxBytes := n\<rparr>)))"

section \<open>Planning\<close>

text \<open>Durations divide with truncation; those that reach the divisions are not negative.\<close>

definition quot :: "int \<Rightarrow> int \<Rightarrow> int" where
  "quot a b = (if a < 0 then - ((- a) div b) else a div b)"

definition planConfigSnapshot :: "PlanConfig \<Rightarrow> ConfigSnapshot" where
  "planConfigSnapshot cfg =
     \<lparr>snapEnabled = cfgEnabled cfg,
      snapHotResidencyWindowSeconds = quot (cfgHotResidencyWindow cfg) 1000000000,
      snapPlanTTLSeconds = quot (cfgPlanTTL cfg) 1000000000,
      snapRecommendedMaxBlocks = cfgRecommendedMaxBlocks cfg,
      snapRecommendedMaxBytes = cfgRecommendedMaxBytes cfg,
      snapMaxValidateSamples = cfgMaxValidateSamples cfg\<rparr>"

definition planBlock :: "PlanCandidate \<Rightarrow> PlanConfig \<Rightarrow> PlanBlock" where
  "planBlock c cfg =
     (let basis = (if canRestoredAtUs c > canConfirmedAtUs c then canRestoredAtUs c else canConfirmedAtUs c) in
      \<lparr>pbBlockID = canBlockID c, pbShardID = canShardID c, pbSizeBytes = canSizeBytes c,
       pbBackendKey = canBackendKey c, pbConfirmedAtUs = canConfirmedAtUs c, pbRestoredAtUs = canRestoredAtUs c,
       pbEligibleAtUs = wrap64 (basis + quot (cfgHotResidencyWindow cfg) 1000),
       pbHotResidencyWindowSeconds = quot (cfgHotResidencyWindow cfg) 1000000000,
       pbLocalState = canLocalState c, pbOpenReaders = canOpenReaders c,
       pbRepairState = (if canRepairState c = [] then RepairStateIdle else canRepairState c),
       pbReason = None\<rparr>)"

definition planSkipReason :: "PlanCandidate \<Rightarrow> PlanRequest \<Rightarrow> bool \<Rightarrow> int \<Rightarrow> int \<Rightarrow> skip_reason option" where
  "planSkipReason c req isLeader nowUs eligibleAtUs =
     (if reqShardID req \<noteq> None \<and> canShardID c \<noteq> the (reqShardID req) then Some SkipReasonShardFilter
      else if \<not> canLocalEvictable c then Some SkipReasonLocalStateNotHot
      else if canBackendKey c = [] then Some SkipReasonNoDurableCopy
      else if isLeader then Some SkipReasonLeaderHotCopyRequired
      else if nowUs < eligibleAtUs then Some SkipReasonHotResidencyWindow
      else None)"

definition appendSkippedBlock :: "PlanBlock \<Rightarrow> skip_reason \<Rightarrow> Plan \<Rightarrow> Plan" where
  "appendSkippedBlock b reason p =
     p\<lparr>Skipped := Skipped p @ [b\<lparr>pbReason := Some reason\<rparr>],
       SkipCountsByReason := (SkipCountsByReason p)(reason := SkipCountsByReason p reason + 1)\<rparr>"

text \<open>One iteration of the loop of \<open>BuildPlan\<close>.\<close>

definition plan_candidate :: "PlanInput \<Rightarrow> PlanCandidate \<Rightarrow> Plan \<Rightarrow> Plan" where
  "plan_candidate i c p =
     (let b = planBlock c (inConfig i);
          p1 = p\<lparr>CandidateBlocks := CandidateBlocks p + 1, CandidateBytes := wrap64 (CandidateBytes p + pbSizeBytes b)\<rparr> in
      case planSkipReason c (inRequest i) (inIsLeader i) (GeneratedAtUs p) (pbEligibleAtUs b) of
        Some reason \<Rightarrow> appendSkippedBlock b reason p1
      | None \<Rightarrow>
          let p2 = p1\<lparr>EligibleBlocks := EligibleBlocks p1 + 1, EligibleBytes := wrap64 (EligibleBytes p1 + pbSizeBytes b)\<rparr> in
          if int (length (Selected p2)) \<ge> MaxBlocks (EffectiveBounds p2) \<or>
             wrap64 (SelectedBytes p2 + pbSizeBytes b) > MaxBytes (EffectiveBounds p2)
          then appendSkippedBlock b SkipReasonPlanBounds p2
          else p2\<lparr>Selected := Selected p2 @ [b], SelectedBytes := wrap64 (SelectedBytes p2 + pbSizeBytes b)\<rparr>)"

definition initial_plan :: "PlanInput \<Rightarrow> Bounds \<Rightarrow> Bounds \<Rightarrow> Plan" where
  "initial_plan i requested effective =
     \<lparr>PlanID = inPlanID i, GeneratedAtUs = time_to_UnixMicro (inNow i),
      ExpiresAtUs = time_to_UnixMicro (inNow i + cfgPlanTTL (inConfig i)),
      planMemberHostname = memHostname (inMember i), planMemberID = memID (inMember i),
      planShardID = reqShardID (inRequest i),
      planReason = (if reqReason (inRequest i) = [] then ReasonEvidenceRun else reqReason (inRequest i)),
      planNote = reqNote (inRequest i), planConfig = planConfigSnapshot (inConfig i),
      RecommendedBounds = \<lparr>MaxBlocks = cfgRecommendedMaxBlocks (inConfig i), MaxBytes = cfgRecommendedMaxBytes (inConfig i)\<rparr>,
      RequestedBounds = requested, EffectiveBounds = effective,
      Selected = [], Skipped = [], SkipCountsByReason = (\<lambda>_. 0),
      CandidateBlocks = 0, CandidateBytes = 0, EligibleBlocks = 0, EligibleBytes = 0, SelectedBytes = 0\<rparr>"

definition BuildPlan :: "PlanInput \<Rightarrow> eviction_err + Plan" where
  "BuildPlan i =
     (case validatePlanInput i of Some e \<Rightarrow> Inl e | None \<Rightarrow>
      case planBounds (inRequest i) \<lparr>MaxBlocks = cfgRecommendedMaxBlocks (inConfig i), MaxBytes = cfgRecommendedMaxBytes (inConfig i)\<rparr> of
        Inl e \<Rightarrow> Inl e
      | Inr (requested, effective) \<Rightarrow>
          Inr (fold (plan_candidate i) (sort_key canBlockID (inCandidates i)) (initial_plan i requested effective)))"

section \<open>The loop\<close>

definition plan_eligible :: "PlanInput \<Rightarrow> int \<Rightarrow> PlanCandidate \<Rightarrow> bool" where
  "plan_eligible i nowUs c \<longleftrightarrow>
     planSkipReason c (inRequest i) (inIsLeader i) nowUs (pbEligibleAtUs (planBlock c (inConfig i))) = None"

lemma plan_eligible_iff:
  "plan_eligible i nowUs c \<longleftrightarrow>
     (\<forall>s. reqShardID (inRequest i) = Some s \<longrightarrow> canShardID c = s) \<and> canLocalEvictable c \<and> canBackendKey c \<noteq> [] \<and>
     \<not> inIsLeader i \<and> pbEligibleAtUs (planBlock c (inConfig i)) \<le> nowUs"
  by (auto simp: plan_eligible_def planSkipReason_def)

text \<open>What the loop has established after the candidates \<open>xs\<close>.\<close>

definition plan_inv :: "PlanInput \<Rightarrow> Bounds \<Rightarrow> int \<Rightarrow> PlanCandidate list \<Rightarrow> Plan \<Rightarrow> bool" where
  "plan_inv i eff nowUs xs p \<longleftrightarrow>
     GeneratedAtUs p = nowUs \<and> EffectiveBounds p = eff \<and>
     mset (map pbBlockID (Selected p @ Skipped p)) = mset (map canBlockID xs) \<and>
     (\<forall>b\<in>set (Selected p). \<exists>c\<in>set xs. b = planBlock c (inConfig i) \<and> plan_eligible i nowUs c) \<and>
     (\<forall>r. SkipCountsByReason p r = length (filter (\<lambda>b. pbReason b = Some r) (Skipped p))) \<and>
     CandidateBlocks p = int (length xs) \<and>
     EligibleBlocks p = int (length (filter (plan_eligible i nowUs) xs)) \<and>
     int (length (Selected p)) \<le> MaxBlocks eff"

lemma planBlock_sel [simp]:
  "pbBlockID (planBlock c cfg) = canBlockID c" "pbSizeBytes (planBlock c cfg) = canSizeBytes c"
  by (simp_all add: planBlock_def Let_def)

lemma appendSkippedBlock_sel [simp]:
  "Selected (appendSkippedBlock b r p) = Selected p" "GeneratedAtUs (appendSkippedBlock b r p) = GeneratedAtUs p"
  "EffectiveBounds (appendSkippedBlock b r p) = EffectiveBounds p" "CandidateBlocks (appendSkippedBlock b r p) = CandidateBlocks p"
  "EligibleBlocks (appendSkippedBlock b r p) = EligibleBlocks p" "SelectedBytes (appendSkippedBlock b r p) = SelectedBytes p"
  "CandidateBytes (appendSkippedBlock b r p) = CandidateBytes p" "EligibleBytes (appendSkippedBlock b r p) = EligibleBytes p"
  "Skipped (appendSkippedBlock b r p) = Skipped p @ [b\<lparr>pbReason := Some r\<rparr>]"
  "SkipCountsByReason (appendSkippedBlock b r p) = (SkipCountsByReason p)(r := SkipCountsByReason p r + 1)"
  by (simp_all add: appendSkippedBlock_def)

lemma plan_candidate_inv:
  assumes "plan_inv i eff nowUs xs p"
  shows "plan_inv i eff nowUs (xs @ [c]) (plan_candidate i c p)"
proof (cases "planSkipReason c (inRequest i) (inIsLeader i) nowUs (pbEligibleAtUs (planBlock c (inConfig i)))")
  case None
  then have "plan_eligible i nowUs c" by (simp add: plan_eligible_def)
  then show ?thesis using None assms by (auto simp: plan_inv_def plan_candidate_def Let_def)
next
  case (Some r)
  then have "\<not> plan_eligible i nowUs c" by (simp add: plan_eligible_def)
  then show ?thesis using Some assms by (auto simp: plan_inv_def plan_candidate_def Let_def)
qed

lemma plan_fold_inv:
  "plan_inv i eff nowUs xs p \<Longrightarrow> plan_inv i eff nowUs (xs @ cs) (fold (plan_candidate i) cs p)"
  by (induction cs arbitrary: xs p) (use plan_candidate_inv in fastforce)+

lemma planBounds_ok:
  assumes "planBounds req rec = Inr (requested, eff)" and "0 < MaxBlocks rec" and "0 < MaxBytes rec"
  shows "0 < MaxBlocks eff \<and> MaxBlocks eff \<le> MaxBlocks rec \<and> 0 < MaxBytes eff \<and> MaxBytes eff \<le> MaxBytes rec"
  using assms by (auto simp: planBounds_def Let_def split: option.splits if_splits)

definition recommended_bounds :: "PlanInput \<Rightarrow> Bounds" where
  "recommended_bounds i = \<lparr>MaxBlocks = cfgRecommendedMaxBlocks (inConfig i), MaxBytes = cfgRecommendedMaxBytes (inConfig i)\<rparr>"

lemma BuildPlan_cases:
  assumes "BuildPlan i = Inr p"
  obtains requested eff where "validatePlanInput i = None" and "planBounds (inRequest i) (recommended_bounds i) = Inr (requested, eff)"
    and "0 < MaxBlocks eff" and "MaxBlocks eff \<le> cfgRecommendedMaxBlocks (inConfig i)"
    and "0 < MaxBytes eff" and "MaxBytes eff \<le> cfgRecommendedMaxBytes (inConfig i)"
    and "p = fold (plan_candidate i) (sort_key canBlockID (inCandidates i)) (initial_plan i requested eff)"
    and "plan_inv i eff (time_to_UnixMicro (inNow i)) (sort_key canBlockID (inCandidates i)) p"
proof -
  obtain requested eff where h: "validatePlanInput i = None" "planBounds (inRequest i) (recommended_bounds i) = Inr (requested, eff)"
    "p = fold (plan_candidate i) (sort_key canBlockID (inCandidates i)) (initial_plan i requested eff)"
    using assms by (auto simp: BuildPlan_def recommended_bounds_def split: option.splits sum.splits)
  have "0 < MaxBlocks (recommended_bounds i)" "0 < MaxBytes (recommended_bounds i)"
    using h(1) by (auto simp: validatePlanInput_def validatePlanConfig_def recommended_bounds_def split: option.splits if_splits)
  note b = planBounds_ok [OF h(2) this]
  have "plan_inv i eff (time_to_UnixMicro (inNow i)) [] (initial_plan i requested eff)"
    using b by (simp add: plan_inv_def initial_plan_def)
  from plan_fold_inv [OF this, of "sort_key canBlockID (inCandidates i)"] show ?thesis
    using that h b by (simp add: recommended_bounds_def)
qed

text \<open>The byte counts, when all sizes together fit in 63 bits.\<close>

definition sizes :: "PlanCandidate list \<Rightarrow> int" where
  "sizes xs = sum_list (map canSizeBytes xs)"

definition plan_bytes_inv :: "PlanCandidate list \<Rightarrow> Plan \<Rightarrow> bool" where
  "plan_bytes_inv xs p \<longleftrightarrow>
     CandidateBytes p = sizes xs \<and> SelectedBytes p = sum_list (map pbSizeBytes (Selected p)) \<and>
     0 \<le> SelectedBytes p \<and> SelectedBytes p \<le> EligibleBytes p \<and> EligibleBytes p \<le> CandidateBytes p \<and>
     SelectedBytes p \<le> MaxBytes (EffectiveBounds p)"

lemma plan_candidate_bytes:
  assumes "plan_bytes_inv xs p" and "0 \<le> canSizeBytes c" and "sizes (xs @ [c]) < 2 ^ 63"
  shows "plan_bytes_inv (xs @ [c]) (plan_candidate i c p)"
proof -
  let ?s = "canSizeBytes c"
  have b: "CandidateBytes p = sizes xs" "0 \<le> SelectedBytes p" "SelectedBytes p \<le> EligibleBytes p"
    "EligibleBytes p \<le> CandidateBytes p" "CandidateBytes p + ?s < 2 ^ 63"
    using assms by (auto simp: plan_bytes_inv_def sizes_def)
  have w: "wrap64 (CandidateBytes p + ?s) = CandidateBytes p + ?s" "wrap64 (EligibleBytes p + ?s) = EligibleBytes p + ?s"
    "wrap64 (SelectedBytes p + ?s) = SelectedBytes p + ?s"
    using b assms(2) by (auto intro!: wrap64_id)
  show ?thesis using assms(1,2) w by (auto simp: plan_bytes_inv_def plan_candidate_def Let_def sizes_def split: option.split)
qed

lemma sizes_append [simp]: "sizes (xs @ ys) = sizes xs + sizes ys"
  by (simp add: sizes_def)

lemma sizes_nonneg: "\<forall>c\<in>set xs. 0 \<le> canSizeBytes c \<Longrightarrow> 0 \<le> sizes xs"
  by (induction xs) (auto simp: sizes_def)

lemma plan_fold_bytes:
  "plan_bytes_inv xs p \<Longrightarrow> \<forall>c\<in>set cs. 0 \<le> canSizeBytes c \<Longrightarrow> sizes (xs @ cs) < 2 ^ 63 \<Longrightarrow>
     plan_bytes_inv (xs @ cs) (fold (plan_candidate i) cs p)"
proof (induction cs arbitrary: xs p)
  case (Cons c cs)
  have "sizes (xs @ [c]) < 2 ^ 63" using Cons.prems sizes_nonneg [of cs] by (simp add: sizes_def)
  from plan_candidate_bytes [OF Cons.prems(1) _ this] Cons.prems(2)
  have "plan_bytes_inv (xs @ [c]) (plan_candidate i c p)" by simp
  from Cons.IH [OF this] Cons.prems(2,3) show ?case by simp
qed simp

lemma sizes_sort [simp]: "sizes (sort_key f xs) = sizes xs"
  by (simp add: sizes_def flip: sum_mset_sum_list)

section \<open>Properties\<close>

text \<open>
  The bound on the bytes. The guard compares the wrapped sum, so \<open>SelectedBytes\<close> never exceeds the bound;
  it is the sum of the selected sizes as long as no size wraps around on top of the bound.
\<close>

definition bytes_within :: "Plan \<Rightarrow> bool" where
  "bytes_within p \<longleftrightarrow> SelectedBytes p \<le> MaxBytes (EffectiveBounds p)"

definition bytes_exact :: "Plan \<Rightarrow> bool" where
  "bytes_exact p \<longleftrightarrow> SelectedBytes p = sum_list (map pbSizeBytes (Selected p)) \<and> 0 \<le> SelectedBytes p"

definition size_fits :: "Bounds \<Rightarrow> PlanCandidate \<Rightarrow> bool" where
  "size_fits bounds c \<longleftrightarrow> 0 \<le> canSizeBytes c \<and> MaxBytes bounds + canSizeBytes c < 2 ^ 63"

lemma plan_candidate_bounds [simp]: "EffectiveBounds (plan_candidate i c p) = EffectiveBounds p"
  by (simp add: plan_candidate_def Let_def split: option.split)

lemma plan_candidate_within: "bytes_within p \<Longrightarrow> bytes_within (plan_candidate i c p)"
  by (auto simp: bytes_within_def plan_candidate_def Let_def split: option.split)

lemma plan_candidate_exact:
  assumes "bytes_within p" and "bytes_exact p" and "size_fits (EffectiveBounds p) c"
  shows "bytes_exact (plan_candidate i c p)"
proof -
  have "wrap64 (SelectedBytes p + canSizeBytes c) = SelectedBytes p + canSizeBytes c"
    using assms by (intro wrap64_id) (auto simp: bytes_within_def bytes_exact_def size_fits_def)
  then show ?thesis using assms by (auto simp: bytes_exact_def size_fits_def plan_candidate_def Let_def split: option.split)
qed

lemma plan_fold_bounded:
  "bytes_within p \<Longrightarrow> bytes_within (fold (plan_candidate i) cs p) \<and>
     (bytes_exact p \<longrightarrow> list_all (size_fits (EffectiveBounds p)) cs \<longrightarrow> bytes_exact (fold (plan_candidate i) cs p))"
proof (induction cs arbitrary: p)
  case (Cons c cs)
  note ih = Cons.IH [OF plan_candidate_within [OF Cons.prems], of i c]
  then show ?case using plan_candidate_exact [OF Cons.prems] by simp
qed simp

text \<open>
  C23: a plan only selects Blocks that are safe to evict. Each selected Block comes from a candidate
  that has a Backend object key and a local copy in the evictable state, belongs to the requested
  Shard when one is given, and is past its hot-residency window; a leader selects nothing. Both
  bounds hold: the number of selected Blocks stays within the block bound and the recorded bytes
  within the byte bound, and the recorded bytes are the sum of the selected sizes unless a size is
  negative or overflows an \<open>int64\<close> on top of the bound. The bounds are the requested ones where
  requested, and never exceed the configured ceilings.
\<close>

theorem plan_selects_safely:
  assumes "BuildPlan i = Inr p"
  shows "(\<forall>b\<in>set (Selected p). \<exists>c\<in>set (inCandidates i).
            b = planBlock c (inConfig i) \<and> canBackendKey c \<noteq> [] \<and> canLocalEvictable c \<and> \<not> inIsLeader i \<and>
            (\<forall>s. reqShardID (inRequest i) = Some s \<longrightarrow> canShardID c = s) \<and> pbEligibleAtUs b \<le> GeneratedAtUs p) \<and>
         int (length (Selected p)) \<le> MaxBlocks (EffectiveBounds p) \<and>
         SelectedBytes p \<le> MaxBytes (EffectiveBounds p) \<and>
         (list_all (size_fits (EffectiveBounds p)) (inCandidates i) \<longrightarrow> sum_list (map pbSizeBytes (Selected p)) = SelectedBytes p) \<and>
         MaxBlocks (EffectiveBounds p) = (case reqMaxBlocks (inRequest i) of None \<Rightarrow> cfgRecommendedMaxBlocks (inConfig i) | Some n \<Rightarrow> n) \<and>
         MaxBytes (EffectiveBounds p) = (case reqMaxBytes (inRequest i) of None \<Rightarrow> cfgRecommendedMaxBytes (inConfig i) | Some n \<Rightarrow> n) \<and>
         MaxBlocks (EffectiveBounds p) \<le> cfgRecommendedMaxBlocks (inConfig i) \<and>
         MaxBytes (EffectiveBounds p) \<le> cfgRecommendedMaxBytes (inConfig i)"
proof -
  let ?xs = "sort_key canBlockID (inCandidates i)"
  obtain requested eff where pb: "planBounds (inRequest i) (recommended_bounds i) = Inr (requested, eff)"
    and le: "MaxBlocks eff \<le> cfgRecommendedMaxBlocks (inConfig i)" "MaxBytes eff \<le> cfgRecommendedMaxBytes (inConfig i)" "0 < MaxBytes eff"
    and p: "p = fold (plan_candidate i) ?xs (initial_plan i requested eff)"
    and h: "plan_inv i eff (time_to_UnixMicro (inNow i)) ?xs p" using BuildPlan_cases [OF assms] by metis
  have eff: "EffectiveBounds p = eff" using h by (simp add: plan_inv_def)
  have c: "\<exists>c\<in>set (inCandidates i). b = planBlock c (inConfig i) \<and> plan_eligible i (GeneratedAtUs p) c"
    if "b \<in> set (Selected p)" for b using h that by (simp add: plan_inv_def)
  have "bytes_within (initial_plan i requested eff)" "bytes_exact (initial_plan i requested eff)" "EffectiveBounds (initial_plan i requested eff) = eff"
    using le(3) by (simp_all add: bytes_within_def bytes_exact_def initial_plan_def)
  then have b: "bytes_within p" "list_all (size_fits eff) (inCandidates i) \<longrightarrow> bytes_exact p"
    using plan_fold_bounded [of "initial_plan i requested eff" i ?xs] p by (simp_all add: list_all_iff)
  have "MaxBlocks eff = (case reqMaxBlocks (inRequest i) of None \<Rightarrow> cfgRecommendedMaxBlocks (inConfig i) | Some n \<Rightarrow> n) \<and>
      MaxBytes eff = (case reqMaxBytes (inRequest i) of None \<Rightarrow> cfgRecommendedMaxBytes (inConfig i) | Some n \<Rightarrow> n)"
    using pb by (auto simp: planBounds_def recommended_bounds_def Let_def split: option.splits if_splits)
  moreover have "int (length (Selected p)) \<le> MaxBlocks eff" using h by (simp add: plan_inv_def)
  ultimately show ?thesis
    using c b le unfolding plan_eligible_iff bytes_within_def bytes_exact_def eff by (intro conjI ballI) (metis | simp)+
qed

definition sample_input :: PlanInput where
  "sample_input =
     \<lparr>inRequest = \<lparr>reqMemberHostname = [1], reqShardID = None, reqMaxBlocks = Some 1, reqMaxBytes = None, reqReason = [], reqNote = []\<rparr>,
      inConfig = \<lparr>cfgEnabled = True, cfgHotResidencyWindow = 1000, cfgPlanTTL = 5000000, cfgRecommendedMaxBlocks = 4,
                  cfgRecommendedMaxBytes = 100, cfgMaxValidateSamples = 0\<rparr>,
      inMember = \<lparr>memHostname = [1], memID = [2]\<rparr>, inNow = 90000, inPlanID = [7], inIsLeader = False,
      inCandidates =
        [\<lparr>canBlockID = 3, canShardID = 1, canSizeBytes = 60, canBackendKey = [9], canConfirmedAtUs = 5, canRestoredAtUs = 0,
          canLocalState = [], canLocalEvictable = True, canOpenReaders = 0, canRepairState = []\<rparr>,
         \<lparr>canBlockID = 2, canShardID = 1, canSizeBytes = 60, canBackendKey = [9], canConfirmedAtUs = 5, canRestoredAtUs = 0,
          canLocalState = [], canLocalEvictable = True, canOpenReaders = 0, canRepairState = []\<rparr>]\<rparr>"

definition sample_plan :: Plan where
  "sample_plan = (case BuildPlan sample_input of Inr p \<Rightarrow> p | Inl _ \<Rightarrow> undefined)"

lemma sample_plan_built: "BuildPlan sample_input = Inr sample_plan" "map pbBlockID (Selected sample_plan) = [2]"
  by (simp_all add: sample_plan_def sample_input_def BuildPlan_def validatePlanInput_def validatePlanIdentity_def
      validatePlanRequest_def validatePlanConfig_def planBounds_def plan_candidate_def planSkipReason_def planBlock_def
      initial_plan_def quot_def time_to_UnixMicro_def wrap64_def appendSkippedBlock_def Let_def)

theorem plan_selects_safely_witness:
  "int (length (Selected sample_plan)) \<le> MaxBlocks (EffectiveBounds sample_plan) \<and> map pbBlockID (Selected sample_plan) = [2] \<and>
   MaxBytes (EffectiveBounds sample_plan) = 100 \<and> sum_list (map pbSizeBytes (Selected sample_plan)) \<le> MaxBytes (EffectiveBounds sample_plan)"
proof -
  note s = plan_selects_safely [OF sample_plan_built(1)]
  have b: "MaxBytes (EffectiveBounds sample_plan) = 100" using s by (simp add: sample_input_def)
  then have "list_all (size_fits (EffectiveBounds sample_plan)) (inCandidates sample_input)" by (simp add: sample_input_def size_fits_def)
  then show ?thesis using s b sample_plan_built(2) by simp
qed

text \<open>
  A plan accounts for every candidate. Each one is selected or skipped, once; the skip counts
  are those of the recorded reasons; the counters are the numbers of candidates and of eligible
  ones. When the sizes together fit in an \<open>int64\<close>, the selected bytes are the sum over the selected
  Blocks and stay within the effective bound.
\<close>

theorem plan_accounts:
  assumes "BuildPlan i = Inr p" and "\<forall>c\<in>set (inCandidates i). 0 \<le> canSizeBytes c" and "sizes (inCandidates i) < 2 ^ 63"
  shows "mset (map pbBlockID (Selected p @ Skipped p)) = mset (map canBlockID (inCandidates i)) \<and>
         (\<forall>r. SkipCountsByReason p r = length (filter (\<lambda>b. pbReason b = Some r) (Skipped p))) \<and>
         CandidateBlocks p = int (length (inCandidates i)) \<and> CandidateBytes p = sizes (inCandidates i) \<and>
         EligibleBlocks p = int (length (filter (plan_eligible i (GeneratedAtUs p)) (inCandidates i))) \<and>
         SelectedBytes p = sum_list (map pbSizeBytes (Selected p)) \<and>
         SelectedBytes p \<le> MaxBytes (EffectiveBounds p) \<and> MaxBytes (EffectiveBounds p) \<le> cfgRecommendedMaxBytes (inConfig i)"
proof -
  let ?xs = "sort_key canBlockID (inCandidates i)"
  obtain requested eff where h: "MaxBytes eff \<le> cfgRecommendedMaxBytes (inConfig i)" "0 < MaxBytes eff"
    "p = fold (plan_candidate i) ?xs (initial_plan i requested eff)" "plan_inv i eff (time_to_UnixMicro (inNow i)) ?xs p"
    using BuildPlan_cases [OF assms(1)] by metis
  have "plan_bytes_inv [] (initial_plan i requested eff)"
    using h(2) by (simp add: plan_bytes_inv_def initial_plan_def sizes_def)
  from plan_fold_bytes [OF this, of ?xs i] have "plan_bytes_inv ?xs p" using assms(2,3) h(3) by simp
  moreover have "length (filter P ?xs) = length (filter P (inCandidates i))" for P
    by (metis mset_filter mset_sort size_mset)
  moreover have "mset (map canBlockID ?xs) = mset (map canBlockID (inCandidates i))" by simp
  ultimately show ?thesis using h(1,4) by (auto simp: plan_inv_def plan_bytes_inv_def)
qed

theorem plan_accounts_witness:
  "SelectedBytes sample_plan \<le> MaxBytes (EffectiveBounds sample_plan) \<and>
   mset (map pbBlockID (Selected sample_plan @ Skipped sample_plan)) = {#2, 3#}"
  using plan_accounts [OF sample_plan_built(1)] by (simp add: sample_input_def sizes_def)

end
