(* ===== verification/Eviction_Campaign.thy ===== *)
theory Eviction_Campaign
  imports Eviction_Plan "HOL-Library.Sublist"
begin

text \<open>
  \<open>internal/eviction/apply.go\<close>, \<open>campaigns.go\<close> and \<open>redaction.go\<close>: applying a plan Block by Block, the
  table of plans with the applies that run and the results that are kept, and the redaction of error
  texts. The clones of plans and results are values here. The function that evicts one Block is a
  parameter that threads the state of the Shard; the texts a context or an error renders to are given.
\<close>

section \<open>Types\<close>

datatype apply_status =
    ApplyStatusCompleted
  | ApplyStatusCompletedWithSkips
  | ApplyStatusEvictedWithValidationFailure
  | ApplyStatusNoEffect
  | ApplyStatusFailed
  | ApplyStatusEmpty

datatype block_status = ApplyBlockStatusEvicted | ApplyBlockStatusSkipped | ApplyBlockStatusFailed

datatype validation_status = ValidationStatusPassed | ValidationStatusFailed

record ApplyBlock =
  abBlockID :: u64
  abShardID :: u64
  abSizeBytes :: int
  abStatus :: block_status
  abReason :: "skip_reason option"
  abError :: bytes
  abBytesFreed :: int

record ValidationBlock =
  vbBlockID :: u64
  vbShardID :: u64
  vbStatus :: validation_status
  vbError :: bytes

record ApplyResult =
  arPlanID :: bytes
  arStatus :: apply_status
  arStartedAtUs :: int
  arCompletedAtUs :: int
  arMemberHostname :: bytes
  arMemberID :: bytes
  SelectedBlocks :: int
  EvictedBlocks :: int
  SkippedBlocks :: int
  FailedBlocks :: int
  ValidatedBlocks :: int
  ValidationFailedBlocks :: int
  BytesFreed :: int
  Blocks :: "ApplyBlock list"
  Validations :: "ValidationBlock list"

datatype plan_state = PlanStatusPending | PlanStatusRunning | PlanStatusApplied apply_status

record PlanStatus =
  psPlanID :: bytes
  psStatus :: plan_state
  psPlan :: "Plan option"
  psApplyResult :: "ApplyResult option"

section \<open>Applying a plan\<close>

definition SkippedBlock :: "PlanBlock \<Rightarrow> skip_reason \<Rightarrow> ApplyBlock" where
  "SkippedBlock b reason =
     \<lparr>abBlockID = pbBlockID b, abShardID = pbShardID b, abSizeBytes = pbSizeBytes b, abStatus = ApplyBlockStatusSkipped,
      abReason = Some reason, abError = [], abBytesFreed = 0\<rparr>"

definition FailedBlock :: "PlanBlock \<Rightarrow> bytes \<Rightarrow> ApplyBlock" where
  "FailedBlock b err =
     \<lparr>abBlockID = pbBlockID b, abShardID = pbShardID b, abSizeBytes = pbSizeBytes b, abStatus = ApplyBlockStatusFailed,
      abReason = None, abError = err, abBytesFreed = 0\<rparr>"

definition countApplyBlock :: "ApplyResult \<Rightarrow> ApplyBlock \<Rightarrow> ApplyResult" where
  "countApplyBlock r b =
     (case abStatus b of
        ApplyBlockStatusEvicted \<Rightarrow> r\<lparr>EvictedBlocks := EvictedBlocks r + 1, BytesFreed := wrap64 (BytesFreed r + abBytesFreed b)\<rparr>
      | ApplyBlockStatusSkipped \<Rightarrow> r\<lparr>SkippedBlocks := SkippedBlocks r + 1\<rparr>
      | ApplyBlockStatusFailed \<Rightarrow> r\<lparr>FailedBlocks := FailedBlocks r + 1, BytesFreed := wrap64 (BytesFreed r + abBytesFreed b)\<rparr>)"

definition ApplyStatus :: "ApplyResult \<Rightarrow> apply_status" where
  "ApplyStatus r =
     (if FailedBlocks r > 0 then ApplyStatusFailed
      else if EvictedBlocks r = 0 then ApplyStatusNoEffect
      else if SkippedBlocks r > 0 then ApplyStatusCompletedWithSkips
      else ApplyStatusCompleted)"

text \<open>
  The loop over the selected Blocks. \<open>ctx\<close> holds the error text of the context at each iteration, \<open>None\<close>
  while it is alive; \<open>observed\<close> collects what the observer is called with.
\<close>

primrec apply_loop ::
  "('s \<Rightarrow> PlanBlock \<Rightarrow> ApplyBlock \<times> 's) \<Rightarrow> (nat \<Rightarrow> bytes option) \<Rightarrow> nat \<Rightarrow> PlanBlock list \<Rightarrow>
   ApplyResult \<Rightarrow> ApplyBlock list \<Rightarrow> 's \<Rightarrow> (ApplyResult \<times> bool) \<times> ApplyBlock list \<times> 's" where
  "apply_loop app ctx k [] r observed s = ((r, True), observed, s)"
| "apply_loop app ctx k (b # bs) r observed s =
     (case ctx k of
        Some err \<Rightarrow> ((r\<lparr>Blocks := Blocks r @ [FailedBlock b err], FailedBlocks := FailedBlocks r + 1\<rparr>, False), observed, s)
      | None \<Rightarrow> (case app s b of (res, s1) \<Rightarrow>
          apply_loop app ctx (Suc k) bs (countApplyBlock (r\<lparr>Blocks := Blocks r @ [res]\<rparr>) res) (observed @ [res]) s1))"

definition initial_result :: "Plan \<Rightarrow> int \<Rightarrow> ApplyResult" where
  "initial_result p now =
     \<lparr>arPlanID = PlanID p, arStatus = ApplyStatusNoEffect, arStartedAtUs = time_to_UnixMicro now, arCompletedAtUs = 0,
      arMemberHostname = planMemberHostname p, arMemberID = planMemberID p, SelectedBlocks = int (length (Selected p)),
      EvictedBlocks = 0, SkippedBlocks = 0, FailedBlocks = 0, ValidatedBlocks = 0, ValidationFailedBlocks = 0,
      BytesFreed = 0, Blocks = [], Validations = []\<rparr>"

definition ApplyBlocks ::
  "('s \<Rightarrow> PlanBlock \<Rightarrow> ApplyBlock \<times> 's) \<Rightarrow> (nat \<Rightarrow> bytes option) \<Rightarrow> Plan \<Rightarrow> int \<Rightarrow> 's \<Rightarrow>
   (ApplyResult \<times> bool) \<times> ApplyBlock list \<times> 's" where
  "ApplyBlocks app ctx p now s =
     (case apply_loop app ctx 0 (Selected p) (initial_result p now) [] s of
        ((r, cacheable), observed, s1) \<Rightarrow>
          ((r\<lparr>arStatus := ApplyStatus r\<rparr>, if FailedBlocks r > 0 then False else cacheable), observed, s1))"

text \<open>The counts per reason; \<open>None\<close> where the source returns a nil map.\<close>

definition ApplySkipCountsByReason :: "ApplyResult \<Rightarrow> (skip_reason \<Rightarrow> nat) option" where
  "ApplySkipCountsByReason r =
     (let counts = (\<lambda>reason. length (filter (\<lambda>b. abStatus b = ApplyBlockStatusSkipped \<and> abReason b = Some reason) (Blocks r))) in
      if SkippedBlocks r = 0 then None
      else if list_all (\<lambda>b. \<not> (abStatus b = ApplyBlockStatusSkipped \<and> abReason b \<noteq> None)) (Blocks r) then None
      else Some counts)"

section \<open>The table of campaigns\<close>

record Campaigns =
  plans :: "bytes \<rightharpoonup> Plan"
  applyResults :: "bytes \<rightharpoonup> ApplyResult"
  applyRunning :: "bytes set"

record ApplyStart =
  asPlan :: "Plan option"
  asResult :: "ApplyResult option"
  asCached :: bool

definition NewCampaigns :: Campaigns where
  "NewCampaigns = \<lparr>plans = Map.empty, applyResults = Map.empty, applyRunning = {}\<rparr>"

definition plan_expired :: "int \<Rightarrow> Plan \<Rightarrow> bool" where
  "plan_expired nowUs p \<longleftrightarrow> ExpiresAtUs p \<le> nowUs"

definition pruneExpired :: "int \<Rightarrow> Campaigns \<Rightarrow> Campaigns" where
  "pruneExpired nowUs c =
     (let gone = (\<lambda>k. case plans c k of None \<Rightarrow> False | Some p \<Rightarrow> plan_expired nowUs p) in
      c\<lparr>plans := (\<lambda>k. if gone k then None else plans c k),
        applyResults := (\<lambda>k. if gone k then None else applyResults c k)\<rparr>)"

definition StorePlan :: "Plan \<Rightarrow> Campaigns \<Rightarrow> Campaigns" where
  "StorePlan p c =
     (let c1 = pruneExpired (GeneratedAtUs p) c in c1\<lparr>plans := (plans c1)(PlanID p \<mapsto> p)\<rparr>)"

definition validPlan :: "bytes \<Rightarrow> Member \<Rightarrow> int \<Rightarrow> Campaigns \<Rightarrow> (eviction_err + Plan) \<times> Campaigns" where
  "validPlan planID m nowUs c =
     (case plans c planID of
        None \<Rightarrow> (Inl ErrPlanNotFound, c)
      | Some p \<Rightarrow>
          if plan_expired nowUs p
          then (Inl ErrPlanExpired, c\<lparr>plans := (plans c)(planID := None), applyResults := (applyResults c)(planID := None)\<rparr>)
          else if planMemberHostname p \<noteq> memHostname m \<or> planMemberID p \<noteq> memID m then (Inl ErrPlanStale, c)
          else (Inr p, c))"

definition BeginApply :: "bytes \<Rightarrow> Member \<Rightarrow> int \<Rightarrow> Campaigns \<Rightarrow> (eviction_err + ApplyStart) \<times> Campaigns" where
  "BeginApply planID m now c =
     (if planID = [] then (Inl (ErrInvalidPlanRequest ''plan_id is required''), c)
      else case validPlan planID m (time_to_UnixMicro now) c of
        (Inl e, c1) \<Rightarrow> (Inl e, c1)
      | (Inr p, c1) \<Rightarrow>
          (case applyResults c1 planID of
             Some r \<Rightarrow> (Inr \<lparr>asPlan = None, asResult = Some r, asCached = True\<rparr>, c1)
           | None \<Rightarrow>
               if planID \<in> applyRunning c1 then (Inl ErrApplyInProgress, c1)
               else (Inr \<lparr>asPlan = Some p, asResult = None, asCached = False\<rparr>,
                     c1\<lparr>applyRunning := insert planID (applyRunning c1)\<rparr>)))"

definition shouldCacheApplyResult :: "ApplyResult \<Rightarrow> bool" where
  "shouldCacheApplyResult r \<longleftrightarrow> arStatus r \<noteq> ApplyStatusEmpty \<and> arStatus r \<noteq> ApplyStatusNoEffect"

definition FinishApply :: "bytes \<Rightarrow> ApplyResult \<Rightarrow> bool \<Rightarrow> Campaigns \<Rightarrow> Campaigns" where
  "FinishApply planID r cacheable c =
     (let c1 = c\<lparr>applyRunning := applyRunning c - {planID}\<rparr> in
      if plans c1 planID \<noteq> None \<and> cacheable \<and> shouldCacheApplyResult r
      then c1\<lparr>applyResults := (applyResults c1)(planID \<mapsto> r)\<rparr> else c1)"

definition Campaigns_Status :: "bytes \<Rightarrow> Member \<Rightarrow> int \<Rightarrow> Campaigns \<Rightarrow> (eviction_err + PlanStatus) \<times> Campaigns" where
  "Campaigns_Status planID m now c =
     (if planID = [] then (Inl (ErrInvalidPlanRequest ''plan_id is required''), c)
      else case validPlan planID m (time_to_UnixMicro now) c of
        (Inl e, c1) \<Rightarrow> (Inl e, c1)
      | (Inr p, c1) \<Rightarrow>
          (case applyResults c1 planID of
             Some r \<Rightarrow> (Inr \<lparr>psPlanID = planID, psStatus = PlanStatusApplied (arStatus r), psPlan = Some p, psApplyResult = Some r\<rparr>, c1)
           | None \<Rightarrow> (Inr \<lparr>psPlanID = planID, psStatus = (if planID \<in> applyRunning c1 then PlanStatusRunning else PlanStatusPending),
                           psPlan = Some p, psApplyResult = None\<rparr>, c1)))"

definition HasRunningApply :: "Campaigns \<Rightarrow> bool" where
  "HasRunningApply c \<longleftrightarrow> applyRunning c \<noteq> {}"

section \<open>Redaction\<close>

definition redactedOperatorDetail :: bytes where
  "redactedOperatorDetail = lit ''sensitive detail redacted''"

definition sensitiveOperatorErrorFragments :: "bytes list" where
  "sensitiveOperatorErrorFragments = map lit
     [''backend_key'', ''backend key'', ''backend object key'', ''validation_token'', ''validation token'',
      ''transaction_id'', ''document_name'', ''idempotency'', ''request_id'', ''request id'', ''trace_id'',
      ''trace id'', ''grpc metadata'', ''auth claim'', ''auth claims'', ''peer address'', ''certificate'',
      ''/shards/'', ''%2fshards%2f'', ''/tmp/'', ''/home/'', ''.blk'', ''.idx'']"

text \<open>\<open>strings.ToLower\<close> is given by the Unicode tables; the model takes it as an argument.\<close>

definition OperatorSafeErrorText :: "(bytes \<Rightarrow> bytes) \<Rightarrow> bytes \<Rightarrow> bytes" where
  "OperatorSafeErrorText ToLower text =
     (if text = [] then []
      else if list_ex (\<lambda>fragment. sublist fragment (ToLower text)) sensitiveOperatorErrorFragments then redactedOperatorDetail
      else text)"

definition OperatorSafeApplyResult :: "(bytes \<Rightarrow> bytes) \<Rightarrow> ApplyResult \<Rightarrow> ApplyResult" where
  "OperatorSafeApplyResult ToLower r =
     r\<lparr>Blocks := map (\<lambda>b. b\<lparr>abError := OperatorSafeErrorText ToLower (abError b)\<rparr>) (Blocks r),
       Validations := map (\<lambda>v. v\<lparr>vbError := OperatorSafeErrorText ToLower (vbError v)\<rparr>) (Validations r)\<rparr>"

definition OperatorSafePlanStatus :: "(bytes \<Rightarrow> bytes) \<Rightarrow> PlanStatus \<Rightarrow> PlanStatus" where
  "OperatorSafePlanStatus ToLower st = st\<lparr>psApplyResult := map_option (OperatorSafeApplyResult ToLower) (psApplyResult st)\<rparr>"

section \<open>Applying\<close>

text \<open>What the loop keeps of a result: its counters are those of its Blocks.\<close>

definition blocks_with :: "block_status \<Rightarrow> ApplyBlock list \<Rightarrow> int" where
  "blocks_with st bs = int (length (filter (\<lambda>b. abStatus b = st) bs))"

definition counted :: "ApplyResult \<Rightarrow> bool" where
  "counted r \<longleftrightarrow>
     EvictedBlocks r = blocks_with ApplyBlockStatusEvicted (Blocks r) \<and>
     SkippedBlocks r = blocks_with ApplyBlockStatusSkipped (Blocks r) \<and>
     FailedBlocks r = blocks_with ApplyBlockStatusFailed (Blocks r)"

lemma countApplyBlock_Blocks [simp]: "Blocks (countApplyBlock r b) = Blocks r"
  by (simp add: countApplyBlock_def split: block_status.split)

lemma counted_apply: "counted r \<Longrightarrow> counted (countApplyBlock (r\<lparr>Blocks := Blocks r @ [b]\<rparr>) b)"
  by (cases "abStatus b") (auto simp: counted_def countApplyBlock_def blocks_with_def)

lemma counted_fail: "counted r \<Longrightarrow> counted (r\<lparr>Blocks := Blocks r @ [FailedBlock b e], FailedBlocks := FailedBlocks r + 1\<rparr>)"
  by (auto simp: counted_def blocks_with_def FailedBlock_def)

lemma initial_counted: "counted (initial_result p now)"
  by (simp add: counted_def blocks_with_def initial_result_def)

lemma apply_loop_result:
  assumes "apply_loop app ctx k bs r observed s = ((r', cacheable), observed', s')" and "counted r"
  shows "counted r' \<and> length (Blocks r') \<le> length (Blocks r) + length bs \<and>
         (cacheable \<longrightarrow> length (Blocks r') = length (Blocks r) + length bs \<and> (\<forall>j<length bs. ctx (k + j) = None)) \<and>
         (\<not> cacheable \<longrightarrow> FailedBlocks r' > 0)"
  using assms
proof (induction bs arbitrary: k r observed s)
  case (Cons b bs)
  show ?case
  proof (cases "ctx k")
    case None
    obtain res s1 where a: "app s b = (res, s1)" by (cases "app s b")
    let ?r = "countApplyBlock (r\<lparr>Blocks := Blocks r @ [res]\<rparr>) res"
    have "apply_loop app ctx (Suc k) bs ?r (observed @ [res]) s1 = ((r', cacheable), observed', s')"
      using Cons.prems(1) None a by simp
    note ih = Cons.IH [OF this counted_apply [OF Cons.prems(2)]]
    have "ctx (k + j) = None" if "\<forall>j<length bs. ctx (Suc k + j) = None" "j < length (b # bs)" for j
      using that None by (cases j) auto
    then show ?thesis using ih by simp
  next
    case (Some e)
    let ?r = "r\<lparr>Blocks := Blocks r @ [FailedBlock b e], FailedBlocks := FailedBlocks r + 1\<rparr>"
    have "r' = ?r" "\<not> cacheable" using Cons.prems(1) Some by simp_all
    moreover have "0 \<le> FailedBlocks r" using Cons.prems(2) by (simp add: counted_def blocks_with_def)
    ultimately show ?thesis using counted_fail [OF Cons.prems(2), of b e] by simp
  qed
qed simp

lemma ApplyBlocks_result:
  assumes "ApplyBlocks app ctx p now s = ((r, cacheable), observed, s')"
  shows "counted r \<and> arStatus r = ApplyStatus r \<and> length (Blocks r) \<le> length (Selected p) \<and>
         (cacheable \<longleftrightarrow> FailedBlocks r = 0) \<and>
         (cacheable \<longrightarrow> length (Blocks r) = length (Selected p) \<and> (\<forall>j<length (Selected p). ctx j = None))"
proof -
  obtain r1 c1 where l: "apply_loop app ctx 0 (Selected p) (initial_result p now) [] s = ((r1, c1), observed, s')"
    "r = r1\<lparr>arStatus := ApplyStatus r1\<rparr>" "cacheable = (if FailedBlocks r1 > 0 then False else c1)"
    using assms by (auto simp: ApplyBlocks_def split: prod.splits)
  have l1: "counted r1" "length (Blocks r1) \<le> length (Selected p)" "\<not> c1 \<Longrightarrow> FailedBlocks r1 > 0"
    "c1 \<Longrightarrow> length (Blocks r1) = length (Selected p) \<and> (\<forall>j<length (Selected p). ctx j = None)"
    using apply_loop_result [OF l(1) initial_counted] by (simp_all add: initial_result_def)
  have "0 \<le> FailedBlocks r1" using l1(1) by (simp add: counted_def blocks_with_def)
  then show ?thesis using l1 l(2,3) by (cases c1) (simp_all add: counted_def ApplyStatus_def)
qed

section \<open>The table as a transition system\<close>

text \<open>The table and the multiset of the applies that were started and have not been finished.\<close>

inductive campaign_step :: "Campaigns \<times> bytes multiset \<Rightarrow> Campaigns \<times> bytes multiset \<Rightarrow> bool" where
  store: "campaign_step (c, out) (StorePlan p c, out)"
| start: "BeginApply planID m now c = (Inr st, c') \<Longrightarrow> \<not> asCached st \<Longrightarrow> campaign_step (c, out) (c', add_mset planID out)"
| cached: "BeginApply planID m now c = (Inr st, c') \<Longrightarrow> asCached st \<Longrightarrow> campaign_step (c, out) (c', out)"
| refused: "BeginApply planID m now c = (Inl e, c') \<Longrightarrow> campaign_step (c, out) (c', out)"
| finish: "planID \<in># out \<Longrightarrow> campaign_step (c, out) (FinishApply planID r cacheable c, out - {#planID#})"
| status: "Campaigns_Status planID m now c = (res, c') \<Longrightarrow> campaign_step (c, out) (c', out)"

inductive_cases campaign_stepE: "campaign_step (c, out) s"

definition campaign_inv :: "Campaigns \<times> bytes multiset \<Rightarrow> bool" where
  "campaign_inv s \<longleftrightarrow> (case s of (c, out) \<Rightarrow>
     applyRunning c = set_mset out \<and> (\<forall>k. count out k \<le> 1) \<and> (\<forall>k. plans c k = None \<longrightarrow> applyResults c k = None) \<and>
     (\<forall>k r. applyResults c k = Some r \<longrightarrow> shouldCacheApplyResult r) \<and> (\<forall>k \<in> applyRunning c. applyResults c k = None))"

lemma validPlan_keeps:
  assumes "validPlan planID m nowUs c = (res, c')" and "campaign_inv (c, out)"
  shows "campaign_inv (c', out) \<and> (\<forall>p. res = Inr p \<longrightarrow> c' = c)"
  using assms by (auto simp: validPlan_def campaign_inv_def split: option.splits if_splits)

lemma pruneExpired_keeps: "campaign_inv (c, out) \<Longrightarrow> campaign_inv (pruneExpired nowUs c, out)"
  by (auto simp: campaign_inv_def pruneExpired_def Let_def split: option.splits if_splits)

lemma BeginApply_keeps:
  assumes "BeginApply planID m now c = (res, c')" and "campaign_inv (c, out)"
  shows "campaign_inv (c', if \<exists>st. res = Inr st \<and> \<not> asCached st then add_mset planID out else out)"
proof (cases "planID = []")
  case False
  obtain vres c1 where v: "validPlan planID m (time_to_UnixMicro now) c = (vres, c1)"
    by (cases "validPlan planID m (time_to_UnixMicro now) c")
  have i: "campaign_inv (c1, out)" using validPlan_keeps [OF v assms(2)] by simp
  then have "count out planID = 0" if "planID \<notin> applyRunning c1"
    using that by (simp add: campaign_inv_def not_in_iff)
  then show ?thesis
    using assms(1) False v i
    by (auto simp: BeginApply_def campaign_inv_def split: sum.splits option.splits if_splits)
qed (use assms in \<open>auto simp: BeginApply_def\<close>)

lemma FinishApply_keeps:
  assumes "planID \<in># out" and "campaign_inv (c, out)"
  shows "campaign_inv (FinishApply planID r cacheable c, out - {#planID#})"
proof -
  obtain rem where out: "out = add_mset planID rem" using assms(1) by (metis insert_DiffM)
  have i: "applyRunning c = insert planID (set_mset rem)" "\<forall>k. count rem k \<le> 1" "planID \<notin># rem"
    "\<forall>k. plans c k = None \<longrightarrow> applyResults c k = None" "\<forall>k r. applyResults c k = Some r \<longrightarrow> shouldCacheApplyResult r"
    "\<forall>k \<in># rem. applyResults c k = None"
    using assms(2) unfolding campaign_inv_def out by (auto simp: not_in_iff split: if_splits) (metis zero_le le_SucI)
  then show ?thesis
    unfolding campaign_inv_def out by (auto simp: FinishApply_def Let_def)
qed

lemma campaign_step_inv: "campaign_step s s' \<Longrightarrow> campaign_inv s \<Longrightarrow> campaign_inv s'"
proof (induction rule: campaign_step.induct)
  case (store c out p)
  then show ?case using pruneExpired_keeps [OF store, of "GeneratedAtUs p"]
    by (auto simp: StorePlan_def campaign_inv_def Let_def)
next
  case (status planID m now c res c' out)
  then show ?case
    using validPlan_keeps
    by (cases "validPlan planID m (time_to_UnixMicro now) c")
      (fastforce simp: Campaigns_Status_def split: sum.splits option.splits if_splits)
qed (use BeginApply_keeps FinishApply_keeps in fastforce)+

lemma campaign_reachable_inv: "campaign_step\<^sup>*\<^sup>* s s' \<Longrightarrow> campaign_inv s \<Longrightarrow> campaign_inv s'"
  by (induction rule: rtranclp_induct) (auto intro: campaign_step_inv)

lemma BeginApply_running:
  assumes "campaign_inv (c, out)" and "k \<in># out"
  shows "isl (fst (BeginApply k m now c))"
  using assms by (auto simp: campaign_inv_def BeginApply_def validPlan_def split: option.splits)

lemma BeginApply_cached:
  assumes "applyResults c k = Some r" and "fst (BeginApply k m now c) = Inr st"
  shows "st = \<lparr>asPlan = None, asResult = Some r, asCached = True\<rparr> \<and> snd (BeginApply k m now c) = c"
  using assms by (auto simp: BeginApply_def validPlan_def split: option.splits if_splits)

lemma BeginApply_fresh:
  assumes "plans c planID = Some p" and "planID \<noteq> []" and "\<not> plan_expired (time_to_UnixMicro now) p"
    and "planMemberHostname p = memHostname m" and "planMemberID p = memID m"
    and "applyResults c planID = None" and "planID \<notin> applyRunning c"
  shows "BeginApply planID m now c =
    (Inr \<lparr>asPlan = Some p, asResult = None, asCached = False\<rparr>, c\<lparr>applyRunning := insert planID (applyRunning c)\<rparr>)"
  using assms by (simp add: BeginApply_def validPlan_def)

lemma sample_plan_fields:
  "PlanID sample_plan = [7]" "planMemberHostname sample_plan = [1]" "planMemberID sample_plan = [2]" "ExpiresAtUs sample_plan = 5090"
  by (simp_all add: sample_plan_def sample_input_def BuildPlan_def validatePlanInput_def validatePlanIdentity_def
      validatePlanRequest_def validatePlanConfig_def planBounds_def plan_candidate_def planSkipReason_def planBlock_def
      initial_plan_def quot_def time_to_UnixMicro_def wrap64_def appendSkippedBlock_def Let_def)

section \<open>Redacted texts\<close>

lemma redacted_clean: "list_all (\<lambda>f. \<not> sublist f redactedOperatorDetail) sensitiveOperatorErrorFragments"
  by code_simp

lemma fragments_nonempty: "list_all (\<lambda>f. f \<noteq> []) sensitiveOperatorErrorFragments"
  by code_simp

lemma OperatorSafeErrorText_clean:
  assumes "ToLower redactedOperatorDetail = redactedOperatorDetail" and "ToLower [] = []"
    and "fragment \<in> set sensitiveOperatorErrorFragments"
  shows "\<not> sublist fragment (ToLower (OperatorSafeErrorText ToLower text))"
  using assms redacted_clean fragments_nonempty
  by (auto simp: OperatorSafeErrorText_def list_all_iff list_ex_iff)

section \<open>Properties\<close>



text \<open>
  The result of applying a plan. The counters are the numbers of Blocks with each outcome and the
  status follows from them; a result may be kept as final exactly when no Block failed, and then every
  selected Block was attempted and the context was alive at each of them.
\<close>

theorem apply_result_final:
  assumes "ApplyBlocks app ctx p now s = ((r, cacheable), observed, s')"
  shows "EvictedBlocks r = blocks_with ApplyBlockStatusEvicted (Blocks r) \<and>
         SkippedBlocks r = blocks_with ApplyBlockStatusSkipped (Blocks r) \<and>
         FailedBlocks r = blocks_with ApplyBlockStatusFailed (Blocks r) \<and>
         (cacheable \<longleftrightarrow> FailedBlocks r = 0) \<and> (arStatus r = ApplyStatusFailed \<longleftrightarrow> \<not> cacheable) \<and>
         (cacheable \<longrightarrow> length (Blocks r) = length (Selected p) \<and> (\<forall>j<length (Selected p). ctx j = None))"
  using ApplyBlocks_result [OF assms]
  by (auto simp: counted_def blocks_with_def ApplyStatus_def)

theorem apply_result_final_witness:
  "\<exists>r observed s'. ApplyBlocks (\<lambda>s b. (SkippedBlock b SkipReasonPlanExpired, s)) (\<lambda>_. None) sample_plan 0 () = ((r, True), observed, s') \<and>
     FailedBlocks r = 0"
proof -
  obtain r cacheable observed s' where
    a: "ApplyBlocks (\<lambda>s b. (SkippedBlock b SkipReasonPlanExpired, s)) (\<lambda>_. None) sample_plan 0 () = ((r, cacheable), observed, s')"
    by (metis surj_pair)
  obtain b where "Selected sample_plan = [b]" using sample_plan_built(2) by auto
  then have "cacheable" using a by (auto simp: ApplyBlocks_def SkippedBlock_def countApplyBlock_def initial_result_def)
  then show ?thesis using a apply_result_final [OF a] by auto
qed

text \<open>
  An operator sees no sensitive fragment. Whatever the error texts of a result, after redaction
  none contains one of the fragments once lowered, and nothing but the error texts has changed. The
  one fact used of lowering is that it keeps the replacement text, which has only lower-case letters.
\<close>

theorem redaction_hides:
  assumes "ToLower redactedOperatorDetail = redactedOperatorDetail" and "ToLower [] = []"
    and "fragment \<in> set sensitiveOperatorErrorFragments"
  shows "(\<forall>b\<in>set (Blocks (OperatorSafeApplyResult ToLower r)). \<not> sublist fragment (ToLower (abError b))) \<and>
         (\<forall>v\<in>set (Validations (OperatorSafeApplyResult ToLower r)). \<not> sublist fragment (ToLower (vbError v))) \<and>
         map abBlockID (Blocks (OperatorSafeApplyResult ToLower r)) = map abBlockID (Blocks r) \<and>
         arStatus (OperatorSafeApplyResult ToLower r) = arStatus r"
  using OperatorSafeErrorText_clean [OF assms] by (simp add: OperatorSafeApplyResult_def comp_def)

definition sample_result :: ApplyResult where
  "sample_result =
     \<lparr>arPlanID = [7], arStatus = ApplyStatusFailed, arStartedAtUs = 1, arCompletedAtUs = 2, arMemberHostname = [1], arMemberID = [2],
      SelectedBlocks = 1, EvictedBlocks = 0, SkippedBlocks = 0, FailedBlocks = 1, ValidatedBlocks = 0, ValidationFailedBlocks = 0,
      BytesFreed = 0, Blocks = [\<lparr>abBlockID = 2, abShardID = 1, abSizeBytes = 60, abStatus = ApplyBlockStatusFailed, abReason = None,
        abError = lit ''remove 02.blk'', abBytesFreed = 0\<rparr>], Validations = []\<rparr>"

theorem redaction_hides_witness:
  "list_all (\<lambda>b. \<not> sublist (lit ''.blk'') (id (abError b))) (Blocks (OperatorSafeApplyResult id sample_result)) \<and>
   map abBlockID (Blocks (OperatorSafeApplyResult id sample_result)) = map abBlockID (Blocks sample_result)"
proof -
  have "lit ''.blk'' \<in> set sensitiveOperatorErrorFragments" by (simp add: sensitiveOperatorErrorFragments_def)
  from redaction_hides [of id, OF _ _ this, of sample_result] show ?thesis by (simp add: list_all_iff)
qed

end
