(* ===== verification/Upload_Records.thy ===== *)
theory Upload_Records
  imports Scrap_Prelude
begin

text \<open>
  The records about uploads that are both rows of the Projection and files of the Blocks directory:
  the metadata of a Backend object and a confirmed upload (\<open>internal/index/confirmed_upload_catalog.go\<close>),
  the authority file (\<open>internal/shard/confirmed_upload_authority.go\<close>) and the seal intent
  (\<open>internal/shard/seal_intent.go\<close>).
\<close>

record BackendObjectMetadata =
  objKey :: bytes
  objSizeBytes :: int
  objValidationToken :: bytes

record ConfirmedUpload =
  cuBlockID :: u64
  cuShardID :: u64
  cuConfirmedAtUs :: int
  cuSealedSizeBytes :: int
  cuUploadGeneration :: int
  cuBlockObject :: BackendObjectMetadata
  cuIndexObject :: BackendObjectMetadata

record confirmedUploadAuthorityRecord = ConfirmedUpload +
  caVersion :: int

record sealIntent =
  siVersion :: int
  siBlockID :: u64
  siShardID :: u64
  siSealedSizeBytes :: int
  siSealedAtUs :: int

end
