(* ===== verification/Local_Block.thy ===== *)
theory Local_Block
  imports Block_Files Upload_Records
begin

text \<open>
  \<open>internal/localblock/lifecycle.go\<close> and \<open>transitions.go\<close>: the lifecycle of the local copy of a sealed
  Block, recorded by the presence of its files and of marker files. The Blocks directory is a
  directory with a fault schedule; a marker file holds its decoded value, and any other content is
  one that the strict decoder refuses. A crash is a schedule on which every call fails from some
  point on.
\<close>

section \<open>Markers\<close>

definition MarkerVersion :: int where "MarkerVersion = 1"

record EvictionMarker =
  emVersion :: int
  emBlockID :: u64
  emBackendKey :: bytes
  emSizeBytes :: int
  emValidationToken :: bytes
  emEvictedAtUs :: int
  emTrigger :: bytes
  emReason :: bytes

record RestoreMarker =
  rmVersion :: int
  rmBlockID :: u64
  rmRestoredAtUs :: int
  rmSource :: bytes
  rmReason :: bytes

record RestoreScanRecord =
  rsVersion :: int
  rsBlockID :: u64
  rsRestoredAtUs :: int
  rsScannedAtUs :: int

datatype fcontent =
    Raw bytes
  | EvictionFile EvictionMarker
  | RestoreFile RestoreMarker
  | ScanFile RestoreScanRecord
  | AuthorityFile confirmedUploadAuthorityRecord
  | SealIntentFile sealIntent

type_synonym blocks_dir = "fcontent dirfs"

datatype marker_err = MarkerNotExist | MarkerIO string | ErrMarkerInvalid string

definition evictionSuffix :: bytes where "evictionSuffix = lit ''.blk.eviction.json''"
definition restoreSuffix :: bytes where "restoreSuffix = lit ''.blk.restore.json''"
definition scannedSuffix :: bytes where "scannedSuffix = lit ''.blk.restore.scanned.json''"

definition EvictionMarkerPath :: "u64 \<Rightarrow> bytes" where
  "EvictionMarkerPath blockID = hex16 blockID @ evictionSuffix"

definition RestoreMarkerPath :: "u64 \<Rightarrow> bytes" where
  "RestoreMarkerPath blockID = hex16 blockID @ restoreSuffix"

definition RestoreScanRecordPath :: "u64 \<Rightarrow> bytes" where
  "RestoreScanRecordPath blockID = hex16 blockID @ scannedSuffix"

section \<open>Directory calls\<close>

datatype remove_result = RemoveDone | RemoveNotExist | RemoveError

definition os_Remove :: "bytes \<Rightarrow> 'c dirfs \<Rightarrow> remove_result \<times> 'c dirfs" where
  "os_Remove name d =
     (case next_ok d of (ok, d1) \<Rightarrow>
        if \<not> ok then (RemoveError, d1)
        else if dfiles d1 name = None then (RemoveNotExist, d1)
        else (RemoveDone, d1\<lparr>dfiles := (dfiles d1)(name := None)\<rparr>))"

text \<open>Creating a file that must not exist, and replacing the contents of an open one.\<close>

definition os_CreateTemp :: "bytes \<Rightarrow> blocks_dir \<Rightarrow> bool \<times> blocks_dir" where
  "os_CreateTemp name d =
     (case next_ok d of (ok, d1) \<Rightarrow>
        if \<not> ok \<or> dfiles d1 name \<noteq> None then (False, d1)
        else (True, d1\<lparr>dfiles := (dfiles d1)(name \<mapsto> Raw [])\<rparr>))"

definition tmp_Write :: "bytes \<Rightarrow> fcontent \<Rightarrow> blocks_dir \<Rightarrow> bool \<times> blocks_dir" where
  "tmp_Write name content d =
     (case next_ok d of (ok, d1) \<Rightarrow> if ok then (True, d1\<lparr>dfiles := (dfiles d1)(name \<mapsto> content)\<rparr>) else (False, d1))"

definition SyncDirectory :: "'c dirfs \<Rightarrow> bool \<times> 'c dirfs" where
  "SyncDirectory d = (case next_ok d of (ok, d1) \<Rightarrow> if \<not> ok then (False, d1) else next_ok d1)"

text \<open>
  \<open>WriteJSONMarker\<close>: the temporary file is written, synced and renamed over the marker; on failure it
  is removed as far as possible. \<open>rnd\<close> is the random part of its name.
\<close>

definition marker_tmp :: "bytes \<Rightarrow> bytes \<Rightarrow> bytes" where
  "marker_tmp rnd path = lit ''.'' @ path @ lit ''.tmp-'' @ rnd"

definition drop_tmp :: "bytes \<Rightarrow> string \<Rightarrow> blocks_dir \<Rightarrow> marker_err option \<times> blocks_dir" where
  "drop_tmp tmp what d = (Some (MarkerIO what), snd (os_Remove tmp d))"

definition WriteJSONMarker :: "bytes \<Rightarrow> bytes \<Rightarrow> fcontent \<Rightarrow> blocks_dir \<Rightarrow> marker_err option \<times> blocks_dir" where
  "WriteJSONMarker rnd path content d0 =
     (let tmp = marker_tmp rnd path in
      case next_ok d0 of (ok, d) \<Rightarrow> if \<not> ok then (Some (MarkerIO ''mkdir marker dir''), d)
      else case os_CreateTemp tmp d of (ok1, d1) \<Rightarrow> if \<not> ok1 then (Some (MarkerIO ''create marker temp file''), d1)
      else case tmp_Write tmp content d1 of (ok2, d2) \<Rightarrow> if \<not> ok2 then drop_tmp tmp ''write marker temp file'' d2
      else case next_ok d2 of (ok3, d3) \<Rightarrow> if \<not> ok3 then drop_tmp tmp ''sync marker temp file'' d3
      else case next_ok d3 of (ok4, d4) \<Rightarrow> if \<not> ok4 then drop_tmp tmp ''close marker temp file'' d4
      else case os_Rename tmp path d4 of (ok5, d5) \<Rightarrow> if \<not> ok5 then drop_tmp tmp ''publish marker file'' d5
      else case SyncDirectory d5 of (ok6, d6) \<Rightarrow> (if ok6 then None else Some (MarkerIO ''sync marker directory''), d6))"

text \<open>\<open>ReadJSONMarker\<close>, with the strict decoder of the wanted type.\<close>

definition ReadJSONMarker :: "(fcontent \<Rightarrow> 'm option) \<Rightarrow> bytes \<Rightarrow> blocks_dir \<Rightarrow> (marker_err + 'm) \<times> blocks_dir" where
  "ReadJSONMarker decode path d =
     (case next_ok d of (ok, d1) \<Rightarrow>
        if \<not> ok then (Inl (MarkerIO ''open''), d1)
        else case dfiles d1 path of
          None \<Rightarrow> (Inl MarkerNotExist, d1)
        | Some content \<Rightarrow> (case next_ok d1 of (ok2, d2) \<Rightarrow>
            (if \<not> ok2 then Inl (ErrMarkerInvalid ''decode'')
             else case decode content of None \<Rightarrow> Inl (ErrMarkerInvalid ''decode'') | Some m \<Rightarrow> Inr m, d2)))"

fun eviction_of :: "fcontent \<Rightarrow> EvictionMarker option" where
  "eviction_of (EvictionFile m) = Some m"
| "eviction_of _ = None"

fun restore_of :: "fcontent \<Rightarrow> RestoreMarker option" where
  "restore_of (RestoreFile m) = Some m"
| "restore_of _ = None"

fun scan_of :: "fcontent \<Rightarrow> RestoreScanRecord option" where
  "scan_of (ScanFile m) = Some m"
| "scan_of _ = None"

section \<open>Validation\<close>

definition ValidateMarkerHeader :: "int \<Rightarrow> u64 \<Rightarrow> u64 \<Rightarrow> marker_err option" where
  "ValidateMarkerHeader version markerBlockID blockID =
     (if version \<noteq> MarkerVersion then Some (ErrMarkerInvalid ''marker version'')
      else if markerBlockID \<noteq> blockID then Some (ErrMarkerInvalid ''block_id mismatch'')
      else if markerBlockID = 0 then Some (ErrMarkerInvalid ''block_id is required'')
      else None)"

definition validateEvictionMarker :: "EvictionMarker \<Rightarrow> u64 \<Rightarrow> marker_err option" where
  "validateEvictionMarker m blockID =
     (case ValidateMarkerHeader (emVersion m) (emBlockID m) blockID of Some e \<Rightarrow> Some e | None \<Rightarrow>
        if emBackendKey m = [] then Some (ErrMarkerInvalid ''backend_key is required'')
        else if emSizeBytes m < 0 then Some (ErrMarkerInvalid ''size_bytes is negative'')
        else if emValidationToken m = [] then Some (ErrMarkerInvalid ''validation_token is required'')
        else if emEvictedAtUs m \<le> 0 then Some (ErrMarkerInvalid ''evicted_at_us is required'')
        else if emTrigger m = [] then Some (ErrMarkerInvalid ''trigger is required'')
        else if emReason m = [] then Some (ErrMarkerInvalid ''reason is required'')
        else None)"

definition validateRestoreMarker :: "RestoreMarker \<Rightarrow> u64 \<Rightarrow> marker_err option" where
  "validateRestoreMarker m blockID =
     (case ValidateMarkerHeader (rmVersion m) (rmBlockID m) blockID of Some e \<Rightarrow> Some e | None \<Rightarrow>
        if rmRestoredAtUs m \<le> 0 then Some (ErrMarkerInvalid ''restored_at_us is required'')
        else if rmSource m = [] then Some (ErrMarkerInvalid ''source is required'')
        else if rmReason m = [] then Some (ErrMarkerInvalid ''reason is required'')
        else None)"

definition validateRestoreScanRecord :: "RestoreScanRecord \<Rightarrow> u64 \<Rightarrow> marker_err option" where
  "validateRestoreScanRecord r blockID =
     (case ValidateMarkerHeader (rsVersion r) (rsBlockID r) blockID of Some e \<Rightarrow> Some e | None \<Rightarrow>
        if rsRestoredAtUs r \<le> 0 then Some (ErrMarkerInvalid ''restored_at_us is required'')
        else if rsScannedAtUs r \<le> 0 then Some (ErrMarkerInvalid ''scanned_at_us is required'')
        else None)"

section \<open>Reading and writing markers\<close>

definition WriteEvictionMarker :: "bytes \<Rightarrow> EvictionMarker \<Rightarrow> blocks_dir \<Rightarrow> marker_err option \<times> blocks_dir" where
  "WriteEvictionMarker rnd m0 d =
     (let m = m0\<lparr>emVersion := MarkerVersion\<rparr> in
      case validateEvictionMarker m (emBlockID m) of Some e \<Rightarrow> (Some e, d)
      | None \<Rightarrow> WriteJSONMarker rnd (EvictionMarkerPath (emBlockID m)) (EvictionFile m) d)"

definition WriteRestoreMarker :: "bytes \<Rightarrow> RestoreMarker \<Rightarrow> blocks_dir \<Rightarrow> marker_err option \<times> blocks_dir" where
  "WriteRestoreMarker rnd m0 d =
     (let m = m0\<lparr>rmVersion := MarkerVersion\<rparr> in
      case validateRestoreMarker m (rmBlockID m) of Some e \<Rightarrow> (Some e, d)
      | None \<Rightarrow> WriteJSONMarker rnd (RestoreMarkerPath (rmBlockID m)) (RestoreFile m) d)"

definition WriteRestoreScanRecord :: "bytes \<Rightarrow> RestoreScanRecord \<Rightarrow> blocks_dir \<Rightarrow> marker_err option \<times> blocks_dir" where
  "WriteRestoreScanRecord rnd r0 d =
     (let r = r0\<lparr>rsVersion := MarkerVersion\<rparr> in
      case validateRestoreScanRecord r (rsBlockID r) of Some e \<Rightarrow> (Some e, d)
      | None \<Rightarrow> WriteJSONMarker rnd (RestoreScanRecordPath (rsBlockID r)) (ScanFile r) d)"

definition read_validated ::
  "(fcontent \<Rightarrow> 'm option) \<Rightarrow> ('m \<Rightarrow> u64 \<Rightarrow> marker_err option) \<Rightarrow> (u64 \<Rightarrow> bytes) \<Rightarrow> u64 \<Rightarrow> blocks_dir \<Rightarrow>
   (marker_err + 'm) \<times> blocks_dir" where
  "read_validated decode validate path blockID d =
     (case ReadJSONMarker decode (path blockID) d of
        (Inl e, d1) \<Rightarrow> (Inl e, d1)
      | (Inr m, d1) \<Rightarrow> (case validate m blockID of Some e \<Rightarrow> Inl e | None \<Rightarrow> Inr m, d1))"

definition ReadEvictionMarker :: "u64 \<Rightarrow> blocks_dir \<Rightarrow> (marker_err + EvictionMarker) \<times> blocks_dir" where
  "ReadEvictionMarker = read_validated eviction_of validateEvictionMarker EvictionMarkerPath"

definition ReadRestoreMarker :: "u64 \<Rightarrow> blocks_dir \<Rightarrow> (marker_err + RestoreMarker) \<times> blocks_dir" where
  "ReadRestoreMarker = read_validated restore_of validateRestoreMarker RestoreMarkerPath"

definition ReadRestoreScanRecord :: "u64 \<Rightarrow> blocks_dir \<Rightarrow> (marker_err + RestoreScanRecord) \<times> blocks_dir" where
  "ReadRestoreScanRecord = read_validated scan_of validateRestoreScanRecord RestoreScanRecordPath"

text \<open>The optional readers turn a missing file into \<open>None\<close>.\<close>

definition optional_marker :: "(marker_err + 'm) \<times> blocks_dir \<Rightarrow> (marker_err + 'm option) \<times> blocks_dir" where
  "optional_marker res =
     (case res of (Inr m, d) \<Rightarrow> (Inr (Some m), d) | (Inl e, d) \<Rightarrow> (if e = MarkerNotExist then Inr None else Inl e, d))"

definition readOptionalEvictionMarker :: "u64 \<Rightarrow> blocks_dir \<Rightarrow> (marker_err + EvictionMarker option) \<times> blocks_dir" where
  "readOptionalEvictionMarker blockID d = optional_marker (ReadEvictionMarker blockID d)"

definition readOptionalRestoreMarker :: "u64 \<Rightarrow> blocks_dir \<Rightarrow> (marker_err + RestoreMarker option) \<times> blocks_dir" where
  "readOptionalRestoreMarker blockID d = optional_marker (ReadRestoreMarker blockID d)"

section \<open>Classification\<close>

datatype lb_state = StateHot | StateEvicted | StateHotCleanupNeeded | StateMetadataLoss | StateUnexpectedLoss | StateZero

record Lifecycle =
  lcBlockID :: u64
  lcState :: lb_state
  ServingAllowed :: bool
  HealthDegraded :: bool
  lcEvictionMarker :: "EvictionMarker option"
  lcRestoreMarker :: "RestoreMarker option"

definition lifecycle_of :: "u64 \<Rightarrow> lb_state \<Rightarrow> bool \<Rightarrow> bool \<Rightarrow> Lifecycle" where
  "lifecycle_of blockID st serving degraded =
     \<lparr>lcBlockID = blockID, lcState = st, ServingAllowed = serving, HealthDegraded = degraded,
      lcEvictionMarker = None, lcRestoreMarker = None\<rparr>"

definition zero_lifecycle :: Lifecycle where
  "zero_lifecycle = lifecycle_of 0 StateZero False False"

text \<open>\<open>readMarkers\<close>: both markers, or the lifecycle to report with the error.\<close>

definition readMarkers ::
  "u64 \<Rightarrow> bool \<Rightarrow> blocks_dir \<Rightarrow> ((Lifecycle \<times> marker_err) + EvictionMarker option \<times> RestoreMarker option) \<times> blocks_dir" where
  "readMarkers blockID blkExists d =
     (case readOptionalEvictionMarker blockID d of
        (Inl e, d1) \<Rightarrow> (Inl (lifecycle_of blockID StateUnexpectedLoss False True, e), d1)
      | (Inr ev, d1) \<Rightarrow>
          (case readOptionalRestoreMarker blockID d1 of
             (Inl e, d2) \<Rightarrow> (Inl (lifecycle_of blockID StateHot blkExists True, e), d2)
           | (Inr rs, d2) \<Rightarrow> (Inr (ev, rs), d2)))"

definition classifyState :: "u64 \<Rightarrow> bool \<Rightarrow> EvictionMarker option \<Rightarrow> RestoreMarker option \<Rightarrow> Lifecycle" where
  "classifyState blockID blkExists ev rs =
     (let l = (if blkExists \<and> ev \<noteq> None then lifecycle_of blockID StateHotCleanupNeeded True True
               else if blkExists then lifecycle_of blockID StateHot True False
               else if ev \<noteq> None then lifecycle_of blockID StateEvicted False False
               else lifecycle_of blockID StateUnexpectedLoss False True)
      in l\<lparr>lcEvictionMarker := ev, lcRestoreMarker := rs\<rparr>)"

definition fileExists :: "bytes \<Rightarrow> 'c dirfs \<Rightarrow> bool option \<times> 'c dirfs" where
  "fileExists path d =
     (case os_Stat path d of (st, d1) \<Rightarrow>
        (case st of StatExists \<Rightarrow> Some True | StatNotExist \<Rightarrow> Some False | StatError \<Rightarrow> None, d1))"

text \<open>The lifecycle and the error, as the source returns both.\<close>

definition Classify :: "u64 \<Rightarrow> blocks_dir \<Rightarrow> (Lifecycle \<times> marker_err option) \<times> blocks_dir" where
  "Classify blockID d =
     (case fileExists (FilePath blockID) d of
        (None, d1) \<Rightarrow> ((zero_lifecycle, Some (MarkerIO ''stat'')), d1)
      | (Some blkExists, d1) \<Rightarrow>
          (case fileExists (IdxFilePath blockID) d1 of
             (None, d2) \<Rightarrow> ((zero_lifecycle, Some (MarkerIO ''stat'')), d2)
           | (Some idxExists, d2) \<Rightarrow>
               if \<not> idxExists then ((lifecycle_of blockID StateMetadataLoss False True, None), d2)
               else (case readMarkers blockID blkExists d2 of
                   (Inl (failure, e), d3) \<Rightarrow> ((failure, Some e), d3)
                 | (Inr (ev, rs), d3) \<Rightarrow> ((classifyState blockID blkExists ev rs, None), d3))))"

definition ParseEvictionMarkerBlockID :: "bytes \<Rightarrow> u64 option" where
  "ParseEvictionMarkerBlockID name =
     (if \<not> HasSuffix name evictionSuffix then None else ParseUint16 (TrimSuffix name evictionSuffix))"

definition cleanupHotMarker :: "u64 \<Rightarrow> blocks_dir \<Rightarrow> (marker_err + bool) \<times> blocks_dir" where
  "cleanupHotMarker blockID d =
     (case Classify blockID d of ((lc, e), d1) \<Rightarrow>
        case e of Some err \<Rightarrow> (Inl err, d1)
        | None \<Rightarrow>
            if lcState lc \<noteq> StateHotCleanupNeeded then (Inr False, d1)
            else (case os_Remove (EvictionMarkerPath blockID) d1 of (r, d2) \<Rightarrow>
                (if r = RemoveError then Inl (MarkerIO ''remove stale eviction marker'') else Inr True, d2)))"

primrec cleanup_loop ::
  "bytes list \<Rightarrow> (u64 \<times> marker_err) list \<Rightarrow> bool \<Rightarrow> blocks_dir \<Rightarrow> ((u64 \<times> marker_err) list \<times> bool) \<times> blocks_dir" where
  "cleanup_loop [] failures removed d = ((failures, removed), d)"
| "cleanup_loop (name # names) failures removed d =
     (case ParseEvictionMarkerBlockID name of
        None \<Rightarrow> cleanup_loop names failures removed d
      | Some blockID \<Rightarrow>
          (case cleanupHotMarker blockID d of
             (Inl e, d1) \<Rightarrow> cleanup_loop names (failures @ [(blockID, e)]) removed d1
           | (Inr r, d1) \<Rightarrow> cleanup_loop names failures (removed \<or> r) d1))"

datatype read_dir = DirEntries "bytes list" | DirNotExist | DirError

text \<open>\<open>CleanupHotMarkers\<close> for what \<open>os.ReadDir\<close> returned; the flag is the error of the sweep itself.\<close>

definition CleanupHotMarkers :: "read_dir \<Rightarrow> blocks_dir \<Rightarrow> ((u64 \<times> marker_err) list \<times> marker_err option) \<times> blocks_dir" where
  "CleanupHotMarkers entries d =
     (case entries of
        DirNotExist \<Rightarrow> (([], None), d)
      | DirError \<Rightarrow> (([], Some (MarkerIO ''read lifecycle markers'')), d)
      | DirEntries names \<Rightarrow>
          (case cleanup_loop names [] False d of ((failures, removed), d1) \<Rightarrow>
             if removed then (case SyncDirectory d1 of (ok, d2) \<Rightarrow>
               ((failures, if ok then None else Some (MarkerIO ''sync marker cleanup'')), d2))
             else ((failures, None), d1)))"

section \<open>Transitions\<close>

record EvictionMarkerExpectation =
  exBlockID :: u64
  exBackendKey :: bytes
  exSizeBytes :: int
  exValidationToken :: bytes

definition PrepareEviction ::
  "bytes \<Rightarrow> EvictionMarkerExpectation \<Rightarrow> int \<Rightarrow> bytes \<Rightarrow> bytes \<Rightarrow> blocks_dir \<Rightarrow> marker_err option \<times> blocks_dir" where
  "PrepareEviction rnd ex evictedAtUs trigger reason =
     WriteEvictionMarker rnd
       \<lparr>emVersion = 0, emBlockID = exBlockID ex, emBackendKey = exBackendKey ex, emSizeBytes = exSizeBytes ex,
        emValidationToken = exValidationToken ex, emEvictedAtUs = evictedAtUs, emTrigger = trigger, emReason = reason\<rparr>"

datatype match_err = MissingEvictionMarker | BackendKeyMismatch | SizeMismatch | TokenMismatch

definition ValidateEvictionMarkerMatches :: "Lifecycle \<Rightarrow> EvictionMarkerExpectation \<Rightarrow> match_err option" where
  "ValidateEvictionMarkerMatches lc ex =
     (case lcEvictionMarker lc of
        None \<Rightarrow> Some MissingEvictionMarker
      | Some m \<Rightarrow>
          if emBackendKey m \<noteq> exBackendKey ex then Some BackendKeyMismatch
          else if emSizeBytes m \<noteq> exSizeBytes ex then Some SizeMismatch
          else if emValidationToken m \<noteq> exValidationToken ex then Some TokenMismatch
          else None)"

definition RemoveEvictionMarker :: "u64 \<Rightarrow> blocks_dir \<Rightarrow> marker_err option \<times> blocks_dir" where
  "RemoveEvictionMarker blockID d =
     (case os_Remove (EvictionMarkerPath blockID) d of
        (RemoveNotExist, d1) \<Rightarrow> (None, d1)
      | (RemoveError, d1) \<Rightarrow> (Some (MarkerIO ''remove eviction marker''), d1)
      | (RemoveDone, d1) \<Rightarrow> (case SyncDirectory d1 of (ok, d2) \<Rightarrow>
          (if ok then None else Some (MarkerIO ''sync lifecycle marker removal''), d2)))"

text \<open>Whether the file was removed, and the error.\<close>

definition UnlinkBlockData :: "u64 \<Rightarrow> blocks_dir \<Rightarrow> (bool \<times> marker_err option) \<times> blocks_dir" where
  "UnlinkBlockData blockID d =
     (case os_Remove (FilePath blockID) d of
        (RemoveNotExist, d1) \<Rightarrow> ((False, None), d1)
      | (RemoveError, d1) \<Rightarrow> ((False, Some (MarkerIO ''remove Block'')), d1)
      | (RemoveDone, d1) \<Rightarrow> (case SyncDirectory d1 of (ok, d2) \<Rightarrow>
          ((True, if ok then None else Some (MarkerIO ''sync blocks directory'')), d2)))"

text \<open>The temporary file is one of the Blocks directory; \<open>rnd\<close> names the marker's own temporary file.\<close>

definition PublishRestoredBlock ::
  "bytes \<Rightarrow> u64 \<Rightarrow> bytes \<Rightarrow> RestoreMarker \<Rightarrow> blocks_dir \<Rightarrow> (bool \<times> marker_err option) \<times> blocks_dir" where
  "PublishRestoredBlock rnd blockID tmpPath m d =
     (case WriteRestoreMarker rnd (m\<lparr>rmBlockID := blockID\<rparr>) d of
        (Some e, d1) \<Rightarrow> ((False, Some e), d1)
      | (None, d1) \<Rightarrow>
          (case os_Rename tmpPath (FilePath blockID) d1 of (ok, d2) \<Rightarrow>
             if \<not> ok then ((False, Some (MarkerIO ''publish restored Block'')), d2)
             else case SyncDirectory d2 of (ok2, d3) \<Rightarrow>
               if \<not> ok2 then ((True, Some (MarkerIO ''sync restored Block'')), d3)
               else case RemoveEvictionMarker blockID d3 of (e, d4) \<Rightarrow> ((True, e), d4)))"

definition RecordSuccessfulRestore :: "bytes \<Rightarrow> u64 \<Rightarrow> RestoreMarker \<Rightarrow> blocks_dir \<Rightarrow> marker_err option \<times> blocks_dir" where
  "RecordSuccessfulRestore rnd blockID m d =
     (case WriteRestoreMarker rnd (m\<lparr>rmBlockID := blockID\<rparr>) d of
        (Some e, d1) \<Rightarrow> (Some e, d1)
      | (None, d1) \<Rightarrow> RemoveEvictionMarker blockID d1)"

definition RecordRestoreScan :: "bytes \<Rightarrow> u64 \<Rightarrow> int \<Rightarrow> blocks_dir \<Rightarrow> marker_err option \<times> blocks_dir" where
  "RecordRestoreScan rnd blockID scannedAtUs d =
     (if scannedAtUs \<le> 0 then (Some (ErrMarkerInvalid ''scanned_at_us is required''), d)
      else case ReadRestoreMarker blockID d of
        (Inl e, d1) \<Rightarrow> (if e = MarkerNotExist then None else Some e, d1)
      | (Inr m, d1) \<Rightarrow> WriteRestoreScanRecord rnd
          \<lparr>rsVersion = 0, rsBlockID = blockID, rsRestoredAtUs = rmRestoredAtUs m, rsScannedAtUs = scannedAtUs\<rparr> d1)"

definition RestorePendingScan :: "u64 \<Rightarrow> blocks_dir \<Rightarrow> bool \<times> blocks_dir" where
  "RestorePendingScan blockID d =
     (case ReadRestoreMarker blockID d of
        (Inl e, d1) \<Rightarrow> (e \<noteq> MarkerNotExist, d1)
      | (Inr m, d1) \<Rightarrow>
          (case ReadRestoreScanRecord blockID d1 of
             (Inl _, d2) \<Rightarrow> (True, d2)
           | (Inr r, d2) \<Rightarrow> (rsRestoredAtUs r \<noteq> rmRestoredAtUs m, d2)))"

primrec remove_all :: "bytes list \<Rightarrow> bool \<Rightarrow> blocks_dir \<Rightarrow> (marker_err + bool) \<times> blocks_dir" where
  "remove_all [] removed d = (Inr removed, d)"
| "remove_all (path # paths) removed d =
     (case os_Remove path d of
        (RemoveNotExist, d1) \<Rightarrow> remove_all paths removed d1
      | (RemoveError, d1) \<Rightarrow> (Inl (MarkerIO ''remove restore marker''), d1)
      | (RemoveDone, d1) \<Rightarrow> remove_all paths True d1)"

definition RemoveRestoreMarker :: "u64 \<Rightarrow> blocks_dir \<Rightarrow> marker_err option \<times> blocks_dir" where
  "RemoveRestoreMarker blockID d =
     (case remove_all [RestoreMarkerPath blockID, RestoreScanRecordPath blockID] False d of
        (Inl e, d1) \<Rightarrow> (Some e, d1)
      | (Inr removed, d1) \<Rightarrow>
          if \<not> removed then (None, d1)
          else (case SyncDirectory d1 of (ok, d2) \<Rightarrow>
            (if ok then None else Some (MarkerIO ''sync lifecycle marker removal''), d2)))"

section \<open>Names\<close>

lemma hex16_append_eq [simp]: "hex16 a @ s = hex16 b @ t \<longleftrightarrow> a = b \<and> s = t"
  using append_eq_append_conv [of "hex16 a" "hex16 b" s t] by auto

lemma marker_suffixes_distinct:
  "distinct [blkSuffix, idxSuffix, evictionSuffix, restoreSuffix, scannedSuffix]"
  by (simp add: blkSuffix_def idxSuffix_def evictionSuffix_def restoreSuffix_def scannedSuffix_def lit_def)

lemmas block_path_defs = FilePath_def IdxFilePath_def EvictionMarkerPath_def RestoreMarkerPath_def RestoreScanRecordPath_def

lemma block_paths_distinct [simp]:
  "FilePath a \<noteq> EvictionMarkerPath b" "FilePath a \<noteq> RestoreMarkerPath b" "FilePath a \<noteq> RestoreScanRecordPath b"
  "IdxFilePath a \<noteq> EvictionMarkerPath b" "IdxFilePath a \<noteq> RestoreMarkerPath b" "IdxFilePath a \<noteq> RestoreScanRecordPath b"
  "EvictionMarkerPath a \<noteq> RestoreMarkerPath b" "EvictionMarkerPath a \<noteq> RestoreScanRecordPath b"
  "RestoreMarkerPath a \<noteq> RestoreScanRecordPath b"
  "EvictionMarkerPath a \<noteq> FilePath b" "RestoreMarkerPath a \<noteq> FilePath b" "RestoreScanRecordPath a \<noteq> FilePath b"
  "EvictionMarkerPath a \<noteq> IdxFilePath b" "RestoreMarkerPath a \<noteq> IdxFilePath b" "RestoreScanRecordPath a \<noteq> IdxFilePath b"
  "RestoreMarkerPath a \<noteq> EvictionMarkerPath b" "RestoreScanRecordPath a \<noteq> EvictionMarkerPath b"
  "RestoreScanRecordPath a \<noteq> RestoreMarkerPath b"
  using marker_suffixes_distinct by (auto simp: block_path_defs)

lemma block_paths_inject [simp]:
  "FilePath a = FilePath b \<longleftrightarrow> a = b" "IdxFilePath a = IdxFilePath b \<longleftrightarrow> a = b"
  "EvictionMarkerPath a = EvictionMarkerPath b \<longleftrightarrow> a = b" "RestoreMarkerPath a = RestoreMarkerPath b \<longleftrightarrow> a = b"
  "RestoreScanRecordPath a = RestoreScanRecordPath b \<longleftrightarrow> a = b"
  by (simp_all add: block_path_defs)

lemma hex_digit_not_dot: "c \<in> set (hex_digits k n) \<Longrightarrow> c \<noteq> 46"
proof (induction k arbitrary: n)
  case (Suc k)
  have "list_all (\<lambda>m. hex_digit m \<noteq> 46) [0..<16]" by code_simp
  then have "hex_digit (n mod 16) \<noteq> 46" by (auto simp: list_all_iff)
  then show ?case using Suc by auto
qed simp

lemma marker_tmp_fresh: "marker_tmp rnd path \<noteq> hex16 blockID @ s"
proof
  assume eq: "marker_tmp rnd path = hex16 blockID @ s"
  have "hex16 blockID \<noteq> []" using length_hex16 [of blockID] by (metis list.size(3) zero_neq_numeral)
  then have "hd (hex16 blockID @ s) \<in> set (hex_digits 16 (unat blockID))" by (simp add: hex16_def)
  moreover have "hd (marker_tmp rnd path) = 46" by (simp add: marker_tmp_def lit_def)
  ultimately show False using eq hex_digit_not_dot by metis
qed

lemma marker_tmp_paths [simp]:
  "marker_tmp rnd p \<noteq> FilePath b" "marker_tmp rnd p \<noteq> IdxFilePath b" "marker_tmp rnd p \<noteq> EvictionMarkerPath b"
  "marker_tmp rnd p \<noteq> RestoreMarkerPath b" "marker_tmp rnd p \<noteq> RestoreScanRecordPath b"
  "FilePath b \<noteq> marker_tmp rnd p" "IdxFilePath b \<noteq> marker_tmp rnd p" "EvictionMarkerPath b \<noteq> marker_tmp rnd p"
  "RestoreMarkerPath b \<noteq> marker_tmp rnd p" "RestoreScanRecordPath b \<noteq> marker_tmp rnd p"
  using marker_tmp_fresh by (metis block_path_defs(1), metis block_path_defs(2), metis block_path_defs(3),
    metis block_path_defs(4), metis block_path_defs(5), metis block_path_defs(1), metis block_path_defs(2),
    metis block_path_defs(3), metis block_path_defs(4), metis block_path_defs(5))

section \<open>Effects on the directory\<close>

definition touches :: "bytes set \<Rightarrow> 'c dirfs \<Rightarrow> 'c dirfs \<Rightarrow> bool" where
  "touches S d d' \<longleftrightarrow> (\<forall>n. n \<notin> S \<longrightarrow> dfiles d' n = dfiles d n)"

lemma touches_same: "dfiles d' = dfiles d \<Longrightarrow> touches S d d'"
  by (simp add: touches_def)

lemma touches_trans: "touches S d d1 \<Longrightarrow> touches S d1 d2 \<Longrightarrow> touches S d d2"
  by (simp add: touches_def)

lemma touches_mono: "touches S d d' \<Longrightarrow> S \<subseteq> T \<Longrightarrow> touches T d d'"
  by (auto simp: touches_def)

lemma os_Remove_files:
  "os_Remove n d = (r, d1) \<Longrightarrow>
     dfiles d1 = (if r = RemoveDone then (dfiles d)(n := None) else dfiles d) \<and>
     (r = RemoveNotExist \<longrightarrow> dfiles d n = None) \<and> (r = RemoveDone \<longrightarrow> dfiles d n \<noteq> None)"
  by (auto simp: os_Remove_def dest: next_ok_same split: prod.splits if_splits)

lemma os_CreateTemp_files:
  "os_CreateTemp n d = (ok, d1) \<Longrightarrow> touches {n} d d1"
  by (auto simp: os_CreateTemp_def touches_def dest: next_ok_same split: prod.splits if_splits)

lemma tmp_Write_files:
  "tmp_Write n c d = (ok, d1) \<Longrightarrow> touches {n} d d1 \<and> (ok \<longrightarrow> dfiles d1 n = Some c)"
  by (auto simp: tmp_Write_def touches_def dest: next_ok_same split: prod.splits if_splits)

lemma SyncDirectory_same: "SyncDirectory d = (ok, d1) \<Longrightarrow> dfiles d1 = dfiles d"
  by (auto simp: SyncDirectory_def dest!: next_ok_same split: prod.splits if_splits)

lemma drop_tmp_files: "drop_tmp tmp what d = (e, d1) \<Longrightarrow> touches {tmp} d d1 \<and> e \<noteq> None"
  using os_Remove_files [of tmp d "fst (os_Remove tmp d)" "snd (os_Remove tmp d)"]
  by (auto simp: drop_tmp_def touches_def)

lemma WriteJSONMarker_files:
  assumes w: "WriteJSONMarker rnd path content d = (e, d')" and ne: "marker_tmp rnd path \<noteq> path"
  shows "touches {path, marker_tmp rnd path} d d' \<and>
         (dfiles d' path = dfiles d path \<and> e \<noteq> None \<or> dfiles d' path = Some content)"
proof -
  let ?t = "marker_tmp rnd path"
  obtain ok0 d0 where s0: "next_ok d = (ok0, d0)" by (cases "next_ok d")
  obtain ok1 d1 where s1: "os_CreateTemp ?t d0 = (ok1, d1)" by (cases "os_CreateTemp ?t d0")
  obtain ok2 d2 where s2: "tmp_Write ?t content d1 = (ok2, d2)" by (cases "tmp_Write ?t content d1")
  obtain ok3 d3 where s3: "next_ok d2 = (ok3, d3)" by (cases "next_ok d2")
  obtain ok4 d4 where s4: "next_ok d3 = (ok4, d4)" by (cases "next_ok d3")
  obtain ok5 d5 where s5: "os_Rename ?t path d4 = (ok5, d5)" by (cases "os_Rename ?t path d4")
  obtain ok6 d6 where s6: "SyncDirectory d5 = (ok6, d6)" by (cases "SyncDirectory d5")
  note same = next_ok_same [OF s0] next_ok_same [OF s3] next_ok_same [OF s4] SyncDirectory_same [OF s6]
  have t2: "touches {?t} d d0" "touches {?t} d d1" "touches {?t} d d2"
    using same os_CreateTemp_files [OF s1] tmp_Write_files [OF s2] by (auto simp: touches_def)
  have t4: "touches {?t} d d3" "touches {?t} d d4" "\<not> ok5 \<Longrightarrow> touches {?t} d d5"
    using t2 same os_Rename_files [OF s5] by (auto simp: touches_def)
  have failed: "touches {?t} d d' \<and> e \<noteq> None" if "touches {?t} d x" "drop_tmp ?t what x = (e, d')" for x what
    using that drop_tmp_files [OF that(2)] touches_trans by blast
  have "(touches {?t} d d' \<and> e \<noteq> None) \<or> (ok2 \<and> ok5 \<and> d' = d6)"
  proof (cases "ok0 \<and> ok1 \<and> ok2 \<and> ok3 \<and> ok4 \<and> ok5")
    case True
    then show ?thesis using w by (simp add: WriteJSONMarker_def Let_def s0 s1 s2 s3 s4 s5 s6)
  next
    case False
    then consider "\<not> ok0" | "ok0" "\<not> ok1" | "ok0" "ok1" "\<not> ok2" | "ok0" "ok1" "ok2" "\<not> ok3"
      | "ok0" "ok1" "ok2" "ok3" "\<not> ok4" | "ok0" "ok1" "ok2" "ok3" "ok4" "\<not> ok5" by blast
    then show ?thesis
    proof cases
      case 1
      then show ?thesis using w t2(1) by (auto simp: WriteJSONMarker_def Let_def s0)
    next
      case 2
      then show ?thesis using w t2(2) by (auto simp: WriteJSONMarker_def Let_def s0 s1)
    next
      case 3
      then show ?thesis using w by (simp add: WriteJSONMarker_def Let_def s0 s1 s2 failed [OF t2(3)])
    next
      case 4
      then show ?thesis using w by (simp add: WriteJSONMarker_def Let_def s0 s1 s2 s3 failed [OF t4(1)])
    next
      case 5
      then show ?thesis using w by (simp add: WriteJSONMarker_def Let_def s0 s1 s2 s3 s4 failed [OF t4(2)])
    next
      case 6
      then show ?thesis using w by (simp add: WriteJSONMarker_def Let_def s0 s1 s2 s3 s4 s5 failed [OF t4(3)])
    qed
  qed
  then show ?thesis
  proof
    assume "touches {?t} d d' \<and> e \<noteq> None"
    then show ?thesis using ne by (simp add: touches_def)
  next
    assume moved: "ok2 \<and> ok5 \<and> d' = d6"
    have "dfiles d4 ?t = Some content" using tmp_Write_files [OF s2] same moved by simp
    then have "dfiles d5 = (dfiles d4)(?t := None, path := Some content)"
      using os_Rename_files [OF s5] moved by (simp add: renamed_def)
    then show ?thesis using t4(2) same moved by (simp add: touches_def)
  qed
qed

lemma RemoveEvictionMarker_files:
  "RemoveEvictionMarker blockID d = (e, d') \<Longrightarrow>
     touches {EvictionMarkerPath blockID} d d' \<and> (e = None \<longrightarrow> dfiles d' (EvictionMarkerPath blockID) = None) \<and>
     (dfiles d' (EvictionMarkerPath blockID) = dfiles d (EvictionMarkerPath blockID) \<or> dfiles d' (EvictionMarkerPath blockID) = None)"
  by (cases "os_Remove (EvictionMarkerPath blockID) d")
    (auto simp: RemoveEvictionMarker_def touches_def dest!: os_Remove_files SyncDirectory_same
      split: remove_result.splits prod.splits if_splits)

lemma UnlinkBlockData_files:
  "UnlinkBlockData blockID d = ((removed, e), d') \<Longrightarrow>
     touches {FilePath blockID} d d' \<and> (removed \<longrightarrow> dfiles d' (FilePath blockID) = None) \<and>
     (\<not> removed \<longrightarrow> dfiles d' = dfiles d) \<and> (e = None \<longrightarrow> dfiles d' (FilePath blockID) = None)"
  by (cases "os_Remove (FilePath blockID) d")
    (auto simp: UnlinkBlockData_def touches_def dest!: os_Remove_files SyncDirectory_same
      split: remove_result.splits prod.splits if_splits)

end
