(* ===== verification/Local_Lifecycle.thy ===== *)
theory Local_Lifecycle
  imports Local_Block
begin

text \<open>
  The lifecycle of local Blocks as a whole: what a reader of the directory sees after a restore was
  published under any faults, after the sweep of stale eviction markers, and after a restored Block
  was scanned.
\<close>

section \<open>Classification of a directory\<close>

text \<open>The marker of a Block, if a valid one is in the directory, and what a reader without faults sees.\<close>

definition valid_marker :: "(fcontent \<Rightarrow> 'm option) \<Rightarrow> ('m \<Rightarrow> u64 \<Rightarrow> marker_err option) \<Rightarrow> u64 \<Rightarrow> fcontent \<Rightarrow> 'm option" where
  "valid_marker decode validate blockID c =
     (case decode c of None \<Rightarrow> None | Some m \<Rightarrow> if validate m blockID = None then Some m else None)"

definition eviction_marker :: "u64 \<Rightarrow> blocks_dir \<Rightarrow> EvictionMarker option" where
  "eviction_marker blockID d = Option.bind (dfiles d (EvictionMarkerPath blockID)) (valid_marker eviction_of validateEvictionMarker blockID)"

definition restore_marker :: "u64 \<Rightarrow> blocks_dir \<Rightarrow> RestoreMarker option" where
  "restore_marker blockID d = Option.bind (dfiles d (RestoreMarkerPath blockID)) (valid_marker restore_of validateRestoreMarker blockID)"

definition scan_record :: "u64 \<Rightarrow> blocks_dir \<Rightarrow> RestoreScanRecord option" where
  "scan_record blockID d = Option.bind (dfiles d (RestoreScanRecordPath blockID)) (valid_marker scan_of validateRestoreScanRecord blockID)"

text \<open>A marker file that is present is valid.\<close>

definition markers_ok :: "u64 \<Rightarrow> blocks_dir \<Rightarrow> bool" where
  "markers_ok blockID d \<longleftrightarrow>
     (dfiles d (EvictionMarkerPath blockID) \<noteq> None \<longrightarrow> eviction_marker blockID d \<noteq> None) \<and>
     (dfiles d (RestoreMarkerPath blockID) \<noteq> None \<longrightarrow> restore_marker blockID d \<noteq> None)"

definition calm :: "'c dirfs \<Rightarrow> 'c dirfs" where
  "calm d = d\<lparr>dsched := []\<rparr>"

lemma calm_sel [simp]: "dfiles (calm d) = dfiles d" "dsched (calm d) = []"
  by (simp_all add: calm_def)

lemma next_ok_calm [simp]: "dsched d = [] \<Longrightarrow> next_ok d = (True, d)"
  by (simp add: next_ok_def)

lemma read_validated_calm:
  assumes "dsched d = []"
  shows "read_validated decode validate path blockID d =
    (case dfiles d (path blockID) of
       None \<Rightarrow> Inl MarkerNotExist
     | Some c \<Rightarrow> (case decode c of None \<Rightarrow> Inl (ErrMarkerInvalid ''decode'')
         | Some m \<Rightarrow> (case validate m blockID of Some e \<Rightarrow> Inl e | None \<Rightarrow> Inr m)), d)"
  using assms by (auto simp: read_validated_def ReadJSONMarker_def split: option.split)

lemma Classify_calm:
  assumes "dsched d = []" and "markers_ok blockID d"
  shows "Classify blockID d =
    ((if dfiles d (IdxFilePath blockID) = None then lifecycle_of blockID StateMetadataLoss False True
      else classifyState blockID (dfiles d (FilePath blockID) \<noteq> None) (eviction_marker blockID d) (restore_marker blockID d), None), d)"
  using assms
  by (auto simp: Classify_def fileExists_def readMarkers_def readOptionalEvictionMarker_def readOptionalRestoreMarker_def
      optional_marker_def ReadEvictionMarker_def ReadRestoreMarker_def read_validated_calm
      markers_ok_def eviction_marker_def restore_marker_def valid_marker_def split: option.splits if_splits)

lemma classifyState_state:
  "lcState (classifyState blockID blk ev rs) =
     (if blk then if ev \<noteq> None then StateHotCleanupNeeded else StateHot else if ev \<noteq> None then StateEvicted else StateUnexpectedLoss)"
  "ServingAllowed (classifyState blockID blk ev rs) = blk"
  "lcEvictionMarker (classifyState blockID blk ev rs) = ev" "lcRestoreMarker (classifyState blockID blk ev rs) = rs"
  by (simp_all add: classifyState_def lifecycle_of_def Let_def)

lemma Classify_calm_dir: "dsched d = [] \<Longrightarrow> snd (Classify blockID d) = d"
  by (auto simp: Classify_def fileExists_def readMarkers_def readOptionalEvictionMarker_def readOptionalRestoreMarker_def
      optional_marker_def ReadEvictionMarker_def ReadRestoreMarker_def read_validated_calm split: option.splits sum.splits if_splits)

lemma Classify_cleanup_needed:
  assumes "dsched d = []" and "Classify blockID d = ((lc, None), d')" and "lcState lc = StateHotCleanupNeeded"
  shows "dfiles d (FilePath blockID) \<noteq> None \<and> dfiles d (IdxFilePath blockID) \<noteq> None"
  using assms
  by (auto simp: Classify_def fileExists_def readMarkers_def readOptionalEvictionMarker_def readOptionalRestoreMarker_def
      optional_marker_def ReadEvictionMarker_def ReadRestoreMarker_def read_validated_calm classifyState_state lifecycle_of_def
      split: option.splits sum.splits if_splits)

section \<open>Writing a restore marker\<close>

definition stamped :: "u64 \<Rightarrow> RestoreMarker \<Rightarrow> RestoreMarker" where
  "stamped blockID m = m\<lparr>rmBlockID := blockID, rmVersion := MarkerVersion\<rparr>"

lemma WriteRestoreMarker_files:
  assumes "WriteRestoreMarker rnd (m\<lparr>rmBlockID := blockID\<rparr>) d = (e, d')"
  shows "touches {RestoreMarkerPath blockID, marker_tmp rnd (RestoreMarkerPath blockID)} d d' \<and>
         (dfiles d' (RestoreMarkerPath blockID) = dfiles d (RestoreMarkerPath blockID) \<and> e \<noteq> None \<or>
          dfiles d' (RestoreMarkerPath blockID) = Some (RestoreFile (stamped blockID m)) \<and>
          validateRestoreMarker (stamped blockID m) blockID = None)"
proof (cases "validateRestoreMarker (stamped blockID m) blockID")
  case None
  then show ?thesis
    using assms WriteJSONMarker_files [of rnd "RestoreMarkerPath blockID" "RestoreFile (stamped blockID m)" d e d']
    by (simp add: WriteRestoreMarker_def stamped_def Let_def)
next
  case (Some err)
  then show ?thesis using assms by (auto simp: WriteRestoreMarker_def stamped_def Let_def touches_def)
qed

text \<open>A directory that agrees on the files of a Block has the same markers.\<close>

lemma markers_cong:
  "dfiles d' (EvictionMarkerPath blockID) = dfiles d (EvictionMarkerPath blockID) \<Longrightarrow> eviction_marker blockID d' = eviction_marker blockID d"
  "dfiles d' (RestoreMarkerPath blockID) = dfiles d (RestoreMarkerPath blockID) \<Longrightarrow> restore_marker blockID d' = restore_marker blockID d"
  "dfiles d' (EvictionMarkerPath blockID) = None \<Longrightarrow> eviction_marker blockID d' = None"
  by (simp_all add: eviction_marker_def restore_marker_def)

lemma restore_marker_written:
  "dfiles d (RestoreMarkerPath blockID) = Some (RestoreFile m) \<Longrightarrow> validateRestoreMarker m blockID = None \<Longrightarrow>
     restore_marker blockID d = Some m"
  by (simp add: restore_marker_def valid_marker_def)

lemma WriteJSONMarker_calm:
  assumes "dsched d = []" and "dfiles d (marker_tmp rnd path) = None" and "marker_tmp rnd path \<noteq> path"
  shows "WriteJSONMarker rnd path c d = (None, d\<lparr>dfiles := (dfiles d)(path \<mapsto> c)\<rparr>)"
proof -
  have "(dfiles d)(marker_tmp rnd path := None) = dfiles d" using assms(2) by (rule fun_upd_idem)
  then show ?thesis
    using assms by (simp add: WriteJSONMarker_def os_CreateTemp_def tmp_Write_def SyncDirectory_def renamed_def fun_upd_twist Let_def)
qed

section \<open>Publishing a restored Block\<close>

text \<open>The states in which the steps of \<open>PublishRestoredBlock\<close> can leave the directory.\<close>

datatype publish_state = Unpublished | Published | Cleaned

definition publish_result :: "u64 \<Rightarrow> bytes \<Rightarrow> RestoreMarker \<Rightarrow> fcontent \<Rightarrow> blocks_dir \<Rightarrow> blocks_dir \<Rightarrow> publish_state \<Rightarrow> bool" where
  "publish_result blockID tmpPath m c d d' st \<longleftrightarrow>
     dfiles d' (IdxFilePath blockID) = dfiles d (IdxFilePath blockID) \<and>
     (case st of
        Unpublished \<Rightarrow> dfiles d' (FilePath blockID) = dfiles d (FilePath blockID) \<and> dfiles d' tmpPath = Some c \<and>
          dfiles d' (EvictionMarkerPath blockID) = dfiles d (EvictionMarkerPath blockID) \<and>
          (restore_marker blockID d' = Some (stamped blockID m) \<or>
           dfiles d' (RestoreMarkerPath blockID) = dfiles d (RestoreMarkerPath blockID))
      | Published \<Rightarrow> dfiles d' (FilePath blockID) = Some c \<and> restore_marker blockID d' = Some (stamped blockID m) \<and>
          dfiles d' (EvictionMarkerPath blockID) = dfiles d (EvictionMarkerPath blockID)
      | Cleaned \<Rightarrow> dfiles d' (FilePath blockID) = Some c \<and> restore_marker blockID d' = Some (stamped blockID m) \<and>
          dfiles d' (EvictionMarkerPath blockID) = None)"

definition foreign_path :: "bytes \<Rightarrow> u64 \<Rightarrow> bytes \<Rightarrow> bool" where
  "foreign_path rnd blockID tmpPath \<longleftrightarrow>
     tmpPath \<notin> {FilePath blockID, IdxFilePath blockID, EvictionMarkerPath blockID, RestoreMarkerPath blockID,
       marker_tmp rnd (RestoreMarkerPath blockID)}"

lemma PublishRestoredBlock_result:
  assumes tmp: "dfiles d tmpPath = Some c" and foreign: "foreign_path rnd blockID tmpPath"
    and run: "PublishRestoredBlock rnd blockID tmpPath m d = ((published, e), d')"
  shows "(\<not> published \<and> e \<noteq> None \<and> publish_result blockID tmpPath m c d d' Unpublished) \<or>
         (published \<and> e \<noteq> None \<and> publish_result blockID tmpPath m c d d' Published) \<or>
         (published \<and> publish_result blockID tmpPath m c d d' Cleaned)"
proof -
  let ?r = "RestoreMarkerPath blockID" and ?b = "FilePath blockID" and ?v = "EvictionMarkerPath blockID"
  obtain e1 d1 where w: "WriteRestoreMarker rnd (m\<lparr>rmBlockID := blockID\<rparr>) d = (e1, d1)"
    by (cases "WriteRestoreMarker rnd (m\<lparr>rmBlockID := blockID\<rparr>) d")
  note w1 = WriteRestoreMarker_files [OF w]
  have d1: "dfiles d1 (IdxFilePath blockID) = dfiles d (IdxFilePath blockID)" "dfiles d1 ?b = dfiles d ?b"
    "dfiles d1 ?v = dfiles d ?v" "dfiles d1 tmpPath = Some c"
    using w1 foreign tmp by (auto simp: touches_def foreign_path_def)
  have rm: "restore_marker blockID d1 = Some (stamped blockID m) \<or> dfiles d1 ?r = dfiles d ?r \<and> e1 \<noteq> None"
    using w1 restore_marker_written by blast
  have un: "publish_result blockID tmpPath m c d d1 Unpublished" using d1 rm by (auto simp: publish_result_def)
  show ?thesis
  proof (cases e1)
    case (Some err)
    then show ?thesis using run w un by (auto simp: PublishRestoredBlock_def)
  next
    case None
    obtain ok d2 where r: "os_Rename tmpPath ?b d1 = (ok, d2)" by (cases "os_Rename tmpPath ?b d1")
    obtain ok2 d3 where y: "SyncDirectory d2 = (ok2, d3)" by (cases "SyncDirectory d2")
    obtain e4 d4 where v: "RemoveEvictionMarker blockID d3 = (e4, d4)" by (cases "RemoveEvictionMarker blockID d3")
    note f = os_Rename_files [OF r] SyncDirectory_same [OF y] RemoveEvictionMarker_files [OF v]
    show ?thesis
    proof (cases ok)
      case False
      then have "publish_result blockID tmpPath m c d d2 Unpublished"
        using un f(1) markers_cong(2) [of d2 blockID d1] by (auto simp: publish_result_def)
      then show ?thesis using run w None r False by (auto simp: PublishRestoredBlock_def)
    next
      case True
      then have d3: "dfiles d3 = (dfiles d1)(tmpPath := None, ?b := Some c)" using f d1(4) by (simp add: renamed_def)
      have p3: "publish_result blockID tmpPath m c d d3 Published"
        using rm None d1 d3 foreign markers_cong(2) [of d3 blockID d1] by (auto simp: publish_result_def foreign_path_def)
      have p4: "publish_result blockID tmpPath m c d d4 Published \<and> e4 \<noteq> None \<or> publish_result blockID tmpPath m c d d4 Cleaned"
        using p3 f(3) markers_cong(2) [of d4 blockID d3] by (auto simp: publish_result_def touches_def)
      show ?thesis
        using run w None r True y v p3 p4 by (auto simp: PublishRestoredBlock_def split: if_splits)
    qed
  qed
qed

section \<open>The sweep of stale markers\<close>

lemma ParseEvictionMarkerBlockID_path: "ParseEvictionMarkerBlockID (EvictionMarkerPath blockID) = Some blockID"
  using parse_hex16 [of blockID]
  by (simp add: ParseEvictionMarkerBlockID_def EvictionMarkerPath_def parseCanonicalBlockID_def split: if_splits)

definition served :: "u64 \<Rightarrow> 'c dirfs \<Rightarrow> bool" where
  "served blockID d \<longleftrightarrow> dfiles d (FilePath blockID) \<noteq> None \<and> dfiles d (IdxFilePath blockID) \<noteq> None"

lemma os_Remove_calm:
  "dsched d = [] \<Longrightarrow> os_Remove n d =
     (if dfiles d n = None then (RemoveNotExist, d) else (RemoveDone, d\<lparr>dfiles := (dfiles d)(n := None)\<rparr>))"
  by (simp add: os_Remove_def)

lemma cleanupHotMarker_calm:
  assumes "dsched d = []" and "cleanupHotMarker blockID d = (r, d')"
  shows "dsched d' = [] \<and> (d' = d \<or> served blockID d \<and> dfiles d' = (dfiles d)(EvictionMarkerPath blockID := None)) \<and>
         (served blockID d \<and> markers_ok blockID d \<longrightarrow> dfiles d' (EvictionMarkerPath blockID) = None)"
proof -
  obtain lc e d1 where c: "Classify blockID d = ((lc, e), d1)" by (metis surj_pair)
  have d1: "d1 = d" using Classify_calm_dir [OF assms(1), of blockID] c by simp
  have "served blockID d" if "e = None" "lcState lc = StateHotCleanupNeeded"
    using Classify_cleanup_needed [OF assms(1)] c that by (auto simp: served_def)
  moreover have "e = None \<and> (lcState lc = StateHotCleanupNeeded \<or> dfiles d (EvictionMarkerPath blockID) = None)"
    if "served blockID d" "markers_ok blockID d"
    using Classify_calm [OF assms(1) that(2)] that c by (auto simp: served_def classifyState_state markers_ok_def eviction_marker_def)
  ultimately show ?thesis
    using assms(2) c d1 assms(1)
    by (cases e) (auto simp: cleanupHotMarker_def os_Remove_calm split: if_splits)
qed

text \<open>What a sweep over some names has done: only markers of served Blocks are gone, and those of the names are.\<close>

definition swept :: "bytes list \<Rightarrow> blocks_dir \<Rightarrow> blocks_dir \<Rightarrow> bool" where
  "swept names d d' \<longleftrightarrow>
     (\<forall>n. dfiles d' n \<noteq> dfiles d n \<longrightarrow> (\<exists>blockID. n = EvictionMarkerPath blockID \<and> served blockID d \<and> dfiles d' n = None)) \<and>
     (\<forall>blockID. EvictionMarkerPath blockID \<in> set names \<and> served blockID d \<and> markers_ok blockID d \<longrightarrow>
        dfiles d' (EvictionMarkerPath blockID) = None)"

lemma swept_served: "swept names d d' \<Longrightarrow> served blockID d' = served blockID d"
  unfolding swept_def served_def by (metis block_paths_distinct(1,4))

lemma swept_markers_ok: "swept names d d' \<Longrightarrow> markers_ok blockID d \<Longrightarrow> markers_ok blockID d'"
  unfolding swept_def markers_ok_def eviction_marker_def restore_marker_def
  by (metis block_paths_distinct(7) bind_eq_None_conv)

lemma swept_step:
  assumes "swept names d d1" and "dsched d1 = []" and "cleanupHotMarker blockID d1 = (r, d2)"
    and "\<And>k. name = EvictionMarkerPath k \<Longrightarrow> k = blockID"
  shows "swept (names @ [name]) d d2 \<and> dsched d2 = []"
proof -
  note c = cleanupHotMarker_calm [OF assms(2,3)]
  have sv: "served k d1 = served k d" for k using swept_served [OF assms(1)] .
  have mk: "markers_ok k d \<Longrightarrow> markers_ok k d1" for k using swept_markers_ok [OF assms(1)] .
  have gone: "\<exists>blockID. n = EvictionMarkerPath blockID \<and> served blockID d \<and> dfiles d2 n = None" if "dfiles d2 n \<noteq> dfiles d n" for n
    using that c assms(1) sv unfolding swept_def by (metis fun_upd_apply)
  have clean: "dfiles d2 (EvictionMarkerPath k) = None"
    if "EvictionMarkerPath k \<in> set (names @ [name])" "served k d" "markers_ok k d" for k
  proof (cases "k = blockID")
    case True
    then show ?thesis using c that sv mk by simp
  next
    case False
    then have "EvictionMarkerPath k \<in> set names" using that(1) assms(4) by auto
    then have "dfiles d1 (EvictionMarkerPath k) = None" using assms(1) that(2,3) by (simp add: swept_def)
    then show ?thesis using c by (metis fun_upd_apply)
  qed
  show ?thesis unfolding swept_def using gone clean c by simp
qed

lemma cleanup_loop_swept:
  assumes "cleanup_loop names failures removed d1 = (res, d2)" and "swept seen d d1" and "dsched d1 = []"
  shows "swept (seen @ names) d d2 \<and> dsched d2 = []"
  using assms
proof (induction names arbitrary: seen failures removed d1)
  case (Cons name names)
  show ?case
  proof (cases "ParseEvictionMarkerBlockID name")
    case None
    then have "\<nexists>k. name = EvictionMarkerPath k" using ParseEvictionMarkerBlockID_path by auto
    then have "swept (seen @ [name]) d d1" using Cons.prems(2) by (auto simp: swept_def)
    then show ?thesis using Cons.IH [of failures removed d1 "seen @ [name]"] Cons.prems None by simp
  next
    case (Some blockID)
    obtain r d3 where c: "cleanupHotMarker blockID d1 = (r, d3)" by (cases "cleanupHotMarker blockID d1")
    have "k = blockID" if "name = EvictionMarkerPath k" for k using that Some ParseEvictionMarkerBlockID_path by auto
    note s = swept_step [OF Cons.prems(2,3) c this]
    then show ?thesis
      using Cons.IH [of _ _ d3 "seen @ [name]"] Cons.prems(1) Some c by (cases r) auto
  qed
qed simp

lemma SyncDirectory_calm: "dsched d = [] \<Longrightarrow> SyncDirectory d = (True, d)"
  by (simp add: SyncDirectory_def)

section \<open>Scan records\<close>

lemma RestorePendingScan_calm:
  "dsched d = [] \<Longrightarrow> restore_marker blockID d = Some m \<Longrightarrow>
     fst (RestorePendingScan blockID d) = (\<nexists>r. scan_record blockID d = Some r \<and> rsRestoredAtUs r = rmRestoredAtUs m)"
  by (auto simp: RestorePendingScan_def ReadRestoreMarker_def ReadRestoreScanRecord_def read_validated_calm restore_marker_def
      scan_record_def valid_marker_def bind_eq_Some_conv split: option.splits if_splits)

lemma validateRestoreMarker_not_missing: "validateRestoreMarker m blockID \<noteq> Some MarkerNotExist"
  by (simp add: validateRestoreMarker_def ValidateMarkerHeader_def)

lemma ReadRestoreMarker_dir: "ReadRestoreMarker blockID d = (res, d1) \<Longrightarrow> dfiles d1 = dfiles d"
  by (auto simp: ReadRestoreMarker_def read_validated_def ReadJSONMarker_def dest!: next_ok_same
      split: prod.splits option.splits sum.splits if_splits)

lemma ReadRestoreMarker_value: "ReadRestoreMarker blockID d = (Inr m, d1) \<Longrightarrow> restore_marker blockID d = Some m"
  by (auto simp: ReadRestoreMarker_def read_validated_def ReadJSONMarker_def restore_marker_def valid_marker_def dest!: next_ok_same
      split: prod.splits option.splits sum.splits if_splits)

lemma RecordRestoreScan_files:
  assumes "RecordRestoreScan rnd blockID at d = (None, d')" and "restore_marker blockID d = Some m"
  shows "restore_marker blockID d' = Some m \<and> (\<exists>r. scan_record blockID d' = Some r \<and> rsRestoredAtUs r = rmRestoredAtUs m)"
proof -
  obtain res d1 where r: "ReadRestoreMarker blockID d = (res, d1)" by (cases "ReadRestoreMarker blockID d")
  have d1: "dfiles d1 = dfiles d" using ReadRestoreMarker_dir [OF r] .
  have "res = Inr m"
    using r assms ReadRestoreMarker_value validateRestoreMarker_not_missing
    by (cases res) (auto simp: RecordRestoreScan_def ReadRestoreMarker_def read_validated_def ReadJSONMarker_def restore_marker_def
        dest!: next_ok_same split: prod.splits option.splits if_splits)
  let ?s = "\<lparr>rsVersion = MarkerVersion, rsBlockID = blockID, rsRestoredAtUs = rmRestoredAtUs m, rsScannedAtUs = at\<rparr>"
  have v: "validateRestoreScanRecord ?s blockID = None"
    and w: "WriteJSONMarker rnd (RestoreScanRecordPath blockID) (ScanFile ?s) d1 = (None, d')"
    using assms(1) r \<open>res = Inr m\<close>
    by (auto simp: RecordRestoreScan_def WriteRestoreScanRecord_def Let_def split: if_splits option.splits)
  note f = WriteJSONMarker_files [OF w]
  have "restore_marker blockID d' = restore_marker blockID d"
    by (rule markers_cong(2)) (use f d1 in \<open>auto simp: touches_def\<close>)
  moreover have "scan_record blockID d' = Some ?s" using f v by (auto simp: scan_record_def valid_marker_def)
  ultimately show ?thesis using assms(2) by auto
qed

section \<open>Properties\<close>

text \<open>
  C20: publishing a restored Block is safe at every point of failure. Starting from an evicted Block
  whose data was fetched to a temporary file, whatever call of \<open>PublishRestoredBlock\<close> fails, the
  Block is classified as evicted, hot or hot with a stale marker, never as lost. It is served exactly
  when the function reports the rename; then the data is that of the temporary file and the restore
  marker is in place. Otherwise the temporary file is still there and the restore can be repeated.
  Success means a hot Block without an eviction marker.
\<close>

theorem publish_restored_safe:
  assumes "dfiles d tmpPath = Some c" and "foreign_path rnd blockID tmpPath"
    and "markers_ok blockID d" and "eviction_marker blockID d \<noteq> None"
    and "dfiles d (FilePath blockID) = None" and "dfiles d (IdxFilePath blockID) \<noteq> None"
    and "PublishRestoredBlock rnd blockID tmpPath m d = ((published, e), d')"
    and "Classify blockID (calm d') = ((lc, ce), dc)"
  shows "ce = None \<and> lcState lc \<in> {StateEvicted, StateHotCleanupNeeded, StateHot} \<and> ServingAllowed lc = published \<and>
         (published \<longrightarrow> dfiles d' (FilePath blockID) = Some c \<and> lcRestoreMarker lc = Some (stamped blockID m)) \<and>
         (\<not> published \<longrightarrow> lcState lc = StateEvicted \<and> dfiles d' tmpPath = Some c) \<and>
         (e = None \<longrightarrow> lcState lc = StateHot)"
proof -
  consider (un) "\<not> published" "e \<noteq> None" "publish_result blockID tmpPath m c d d' Unpublished"
    | (pub) "published" "e \<noteq> None" "publish_result blockID tmpPath m c d d' Published"
    | (clean) "published" "publish_result blockID tmpPath m c d d' Cleaned"
    using PublishRestoredBlock_result [OF assms(1,2,7)] by blast
  then have "markers_ok blockID d'"
    by cases (use assms(3,4) markers_cong(1,2) [of d' blockID d] in
      \<open>auto simp: publish_result_def markers_ok_def\<close>)
  then have cl: "Classify blockID (calm d') =
    ((if dfiles d' (IdxFilePath blockID) = None then lifecycle_of blockID StateMetadataLoss False True
      else classifyState blockID (dfiles d' (FilePath blockID) \<noteq> None) (eviction_marker blockID d') (restore_marker blockID d'), None), calm d')"
    using Classify_calm [of "calm d'" blockID] by (simp add: markers_ok_def eviction_marker_def restore_marker_def)
  show ?thesis
    using PublishRestoredBlock_result [OF assms(1,2,7)]
  proof (elim disjE conjE)
    assume un: "\<not> published" "e \<noteq> None" "publish_result blockID tmpPath m c d d' Unpublished"
    then have "eviction_marker blockID d' \<noteq> None" using assms(4) markers_cong(1) [of d' blockID d] by (simp add: publish_result_def)
    then show ?thesis using un cl assms(5,6,8) by (auto simp: publish_result_def classifyState_state)
  next
    assume pub: "published" "e \<noteq> None" "publish_result blockID tmpPath m c d d' Published"
    then show ?thesis using cl assms(6,8) by (auto simp: publish_result_def classifyState_state)
  next
    assume "published" "publish_result blockID tmpPath m c d d' Cleaned"
    then show ?thesis using cl assms(6,8) markers_cong(3) [of d' blockID] by (auto simp: publish_result_def classifyState_state)
  qed
qed

definition sample_eviction :: EvictionMarker where
  "sample_eviction = \<lparr>emVersion = 1, emBlockID = 5, emBackendKey = [9], emSizeBytes = 2, emValidationToken = [8], emEvictedAtUs = 10,
     emTrigger = [1], emReason = [1]\<rparr>"

definition sample_restore :: "int \<Rightarrow> RestoreMarker" where
  "sample_restore at = \<lparr>rmVersion = 1, rmBlockID = 5, rmRestoredAtUs = at, rmSource = [1], rmReason = [1]\<rparr>"

definition evicted_dir :: "bool list \<Rightarrow> blocks_dir" where
  "evicted_dir sched = \<lparr>dfiles = [IdxFilePath 5 \<mapsto> Raw [3], EvictionMarkerPath 5 \<mapsto> EvictionFile sample_eviction, [1] \<mapsto> Raw [1, 2]],
     dsched = sched\<rparr>"

lemma short_name [simp]: "[x] \<noteq> hex16 b @ s" "hex16 b @ s \<noteq> [x]"
proof -
  show "[x] \<noteq> hex16 b @ s"
  proof
    assume "[x] = hex16 b @ s"
    then have "length [x] = length (hex16 b @ s)" by (rule arg_cong)
    then show False by simp
  qed
  then show "hex16 b @ s \<noteq> [x]" by metis
qed

lemma evicted_dir_facts:
  "dfiles (evicted_dir s) [1] = Some (Raw [1, 2])" "foreign_path r 5 [1]" "markers_ok 5 (evicted_dir s)"
  "eviction_marker 5 (evicted_dir s) = Some sample_eviction" "dfiles (evicted_dir s) (FilePath 5) = None"
  "dfiles (evicted_dir s) (IdxFilePath 5) \<noteq> None"
proof -
  have v: "validateEvictionMarker sample_eviction 5 = None"
    by (simp add: validateEvictionMarker_def ValidateMarkerHeader_def sample_eviction_def MarkerVersion_def)
  have n: "[1] \<noteq> FilePath b" "[1] \<noteq> IdxFilePath b" "[1] \<noteq> EvictionMarkerPath b" "[1] \<noteq> RestoreMarkerPath b" for b
    by (simp_all add: block_path_defs)
  have "[1] \<noteq> marker_tmp r p" for r p by (simp add: marker_tmp_def lit_def)
  then show "foreign_path r 5 [1]" using n by (simp add: foreign_path_def)
  show e: "eviction_marker 5 (evicted_dir s) = Some sample_eviction"
    using v n(3) [symmetric] by (simp add: eviction_marker_def evicted_dir_def valid_marker_def)
  show "markers_ok 5 (evicted_dir s)" using e n(4) [symmetric] by (simp add: markers_ok_def evicted_dir_def)
  show "dfiles (evicted_dir s) [1] = Some (Raw [1, 2])" "dfiles (evicted_dir s) (FilePath 5) = None"
    "dfiles (evicted_dir s) (IdxFilePath 5) \<noteq> None"
    using n [symmetric] by (simp_all add: evicted_dir_def)
qed

text \<open>The rename is done and every later call fails.\<close>

theorem publish_restored_safe_witness:
  "\<exists>lc ce dc. Classify 5 (calm (snd (PublishRestoredBlock [] 5 [1] (sample_restore 20)
      (evicted_dir [True, True, True, True, True, True, True, True, True, False])))) = ((lc, ce), dc) \<and>
     ce = None \<and> lcState lc \<in> {StateEvicted, StateHotCleanupNeeded, StateHot}"
proof -
  let ?d = "evicted_dir [True, True, True, True, True, True, True, True, True, False]"
  obtain p e d' where r: "PublishRestoredBlock [] 5 [1] (sample_restore 20) ?d = ((p, e), d')" by (metis surj_pair)
  obtain lc ce dc where c: "Classify 5 (calm d') = ((lc, ce), dc)" by (metis surj_pair)
  have "eviction_marker 5 ?d \<noteq> None" using evicted_dir_facts(4) by simp
  from publish_restored_safe [OF evicted_dir_facts(1,2,3) this evicted_dir_facts(5,6) r c] show ?thesis using r c by simp
qed

text \<open>
  The sweep at start-up. Run over the names of the directory without faults, it removes exactly
  eviction markers of Blocks that are served, reports no error of its own, and afterwards no Block
  with readable markers is left in the state that needs the clean-up; a hot or evicted Block keeps
  its state.
\<close>

theorem cleanup_sweeps:
  assumes "dsched d = []" and "set names = dom (dfiles d)"
    and "CleanupHotMarkers (DirEntries names) d = ((failures, e), d')"
  shows "e = None \<and>
         (\<forall>n. dfiles d' n \<noteq> dfiles d n \<longrightarrow> (\<exists>blockID. n = EvictionMarkerPath blockID \<and> served blockID d \<and> dfiles d' n = None)) \<and>
         (\<forall>blockID. markers_ok blockID d \<longrightarrow>
            lcState (fst (fst (Classify blockID d'))) =
              (if lcState (fst (fst (Classify blockID d))) = StateHotCleanupNeeded then StateHot
               else lcState (fst (fst (Classify blockID d)))))"
proof -
  obtain res d1 where l: "cleanup_loop names [] False d = (res, d1)" by (cases "cleanup_loop names [] False d")
  have "swept [] d d" by (simp add: swept_def)
  from cleanup_loop_swept [OF l this assms(1)] have sw: "swept names d d1" "dsched d1 = []" by simp_all
  have d': "d' = d1" "e = None"
    using assms(3) l sw(2) by (auto simp: CleanupHotMarkers_def SyncDirectory_calm split: prod.splits if_splits)
  have "lcState (fst (fst (Classify blockID d1))) =
      (if lcState (fst (fst (Classify blockID d))) = StateHotCleanupNeeded then StateHot else lcState (fst (fst (Classify blockID d))))"
    if ok: "markers_ok blockID d" for blockID
  proof -
    let ?v = "EvictionMarkerPath blockID"
    have same: "dfiles d1 (FilePath blockID) = dfiles d (FilePath blockID)" "dfiles d1 (IdxFilePath blockID) = dfiles d (IdxFilePath blockID)"
      using sw(1) unfolding swept_def by (metis block_paths_distinct(1,4))+
    have ev: "dfiles d1 ?v = (if served blockID d then None else dfiles d ?v)"
      using sw(1) ok assms(2) unfolding swept_def by (metis block_paths_inject(3) domIff)
    have "eviction_marker blockID d1 = (if served blockID d then None else eviction_marker blockID d)"
      using ev by (simp add: eviction_marker_def)
    then show ?thesis
      using Classify_calm [OF sw(2) swept_markers_ok [OF sw(1) ok]] Classify_calm [OF assms(1) ok] same
      by (simp add: classifyState_state served_def lifecycle_of_def)
  qed
  then show ?thesis using sw(1) d' by (simp add: swept_def)
qed

theorem cleanup_sweeps_witness:
  "\<exists>failures d'. CleanupHotMarkers (DirEntries [IdxFilePath 5, EvictionMarkerPath 5, [1]]) (evicted_dir []) = ((failures, None), d') \<and>
     lcState (fst (fst (Classify 5 d'))) = StateEvicted"
proof -
  let ?d = "evicted_dir []"
  obtain failures e d' where r: "CleanupHotMarkers (DirEntries [IdxFilePath 5, EvictionMarkerPath 5, [1]]) ?d = ((failures, e), d')"
    by (metis surj_pair)
  have s: "dsched ?d = []" "set [IdxFilePath 5, EvictionMarkerPath 5, [1]] = dom (dfiles ?d)" by (auto simp: evicted_dir_def)
  have "lcState (fst (fst (Classify 5 ?d))) = StateEvicted"
    using Classify_calm [OF s(1) evicted_dir_facts(3)] evicted_dir_facts(4,5,6) by (simp add: classifyState_state)
  then show ?thesis using cleanup_sweeps [OF s r] evicted_dir_facts(3) [of "[]"] r by auto
qed

text \<open>
  A restored Block is scanned once per restore. After \<open>RecordRestoreScan\<close> reports success, under
  any faults, the Block is no longer pending; after a later restore at another time it is pending
  again, whatever record the earlier scan left.
\<close>

theorem scan_once_per_restore:
  assumes "restore_marker blockID d = Some m" and "RecordRestoreScan rnd blockID at d = (None, d1)"
    and "WriteRestoreMarker rnd2 (m2\<lparr>rmBlockID := blockID\<rparr>) d1 = (None, d2)" and "rmRestoredAtUs m2 \<noteq> rmRestoredAtUs m"
  shows "\<not> fst (RestorePendingScan blockID (calm d1)) \<and> fst (RestorePendingScan blockID (calm d2))"
proof -
  obtain r where r: "restore_marker blockID d1 = Some m" "scan_record blockID d1 = Some r" "rsRestoredAtUs r = rmRestoredAtUs m"
    using RecordRestoreScan_files [OF assms(2,1)] by blast
  note w = WriteRestoreMarker_files [OF assms(3)]
  have "restore_marker blockID d2 = Some (stamped blockID m2)" using w restore_marker_written by blast
  moreover have "scan_record blockID d2 = scan_record blockID d1" using w by (simp add: scan_record_def touches_def)
  moreover have calm: "restore_marker blockID (calm x) = restore_marker blockID x" "scan_record blockID (calm x) = scan_record blockID x" for x
    by (simp_all add: restore_marker_def scan_record_def)
  ultimately show ?thesis
    using r assms(4) by (simp add: RestorePendingScan_calm stamped_def)
qed

definition restored_dir :: blocks_dir where
  "restored_dir = \<lparr>dfiles = [RestoreMarkerPath 5 \<mapsto> RestoreFile (sample_restore 20)], dsched = []\<rparr>"

lemma sample_restore_valid: "0 < at \<Longrightarrow> validateRestoreMarker (sample_restore at) 5 = None"
  by (simp add: validateRestoreMarker_def ValidateMarkerHeader_def sample_restore_def MarkerVersion_def)

theorem scan_once_per_restore_witness:
  "\<exists>d1 d2. RecordRestoreScan [] 5 30 restored_dir = (None, d1) \<and>
     WriteRestoreMarker [] ((sample_restore 40)\<lparr>rmBlockID := 5\<rparr>) d1 = (None, d2) \<and>
     \<not> fst (RestorePendingScan 5 (calm d1)) \<and> fst (RestorePendingScan 5 (calm d2))"
proof -
  have m: "restore_marker 5 restored_dir = Some (sample_restore 20)"
    using sample_restore_valid [of 20] by (simp add: restore_marker_def restored_dir_def valid_marker_def)
  let ?s = "\<lparr>rsVersion = MarkerVersion, rsBlockID = 5, rsRestoredAtUs = 20, rsScannedAtUs = 30\<rparr>"
  let ?d1 = "restored_dir\<lparr>dfiles := (dfiles restored_dir)(RestoreScanRecordPath 5 \<mapsto> ScanFile ?s)\<rparr>"
  have r: "RecordRestoreScan [] 5 30 restored_dir = (None, ?d1)"
    using sample_restore_valid [of 20]
    by (simp add: RecordRestoreScan_def ReadRestoreMarker_def read_validated_calm WriteRestoreScanRecord_def validateRestoreScanRecord_def
        ValidateMarkerHeader_def WriteJSONMarker_calm restored_dir_def sample_restore_def Let_def)
  obtain d2 where w: "WriteRestoreMarker [] ((sample_restore 40)\<lparr>rmBlockID := 5\<rparr>) ?d1 = (None, d2)"
    by (simp add: WriteRestoreMarker_def validateRestoreMarker_def ValidateMarkerHeader_def WriteJSONMarker_calm restored_dir_def
        sample_restore_def Let_def)
  have "rmRestoredAtUs (sample_restore 40) \<noteq> rmRestoredAtUs (sample_restore 20)" by (simp add: sample_restore_def)
  from scan_once_per_restore [OF m r w this] show ?thesis using r w by blast
qed

end
