(* ===== verification/Store_Validation.thy ===== *)
theory Store_Validation
  imports Scrap_Prelude
begin

text \<open>
  \<open>internal/store/validation.go\<close>: the limits on the texts and the body of a write. Ranging over a Go
  string decodes UTF-8; the decoding and the control characters of package \<open>unicode\<close> are modelled in
  full. The reader that delivers a body is a script: how many bytes each call returns, whether the end
  is reported together with the last bytes, and where it fails.
\<close>

section \<open>Runes of a string\<close>

definition RuneError :: nat where "RuneError = 0xFFFD"

text \<open>The length of the sequence that a first byte announces, and the range of the second byte.\<close>

definition first_byte :: "u8 \<Rightarrow> (nat \<times> u8 \<times> u8) option" where
  "first_byte p =
     (if 0xC2 \<le> p \<and> p \<le> 0xDF then Some (2, 0x80, 0xBF)
      else if p = 0xE0 then Some (3, 0xA0, 0xBF)
      else if p = 0xED then Some (3, 0x80, 0x9F)
      else if 0xE1 \<le> p \<and> p \<le> 0xEF then Some (3, 0x80, 0xBF)
      else if p = 0xF0 then Some (4, 0x90, 0xBF)
      else if 0xF1 \<le> p \<and> p \<le> 0xF3 then Some (4, 0x80, 0xBF)
      else if p = 0xF4 then Some (4, 0x80, 0x8F)
      else None)"

definition cont :: "u8 \<Rightarrow> bool" where
  "cont b \<longleftrightarrow> 0x80 \<le> b \<and> b \<le> 0xBF"

definition decode_rune :: "bytes \<Rightarrow> nat \<times> nat" where
  "decode_rune s =
     (if s = [] then (RuneError, 0)
      else let p = s ! 0 in
      if p < 0x80 then (unat p, 1)
      else case first_byte p of
        None \<Rightarrow> (RuneError, 1)
      | Some (sz, lo, hi) \<Rightarrow>
          if length s < sz then (RuneError, 1)
          else if s ! 1 < lo \<or> hi < s ! 1 then (RuneError, 1)
          else if sz = 2 then (unat p mod 32 * 64 + unat (s ! 1) mod 64, 2)
          else if \<not> cont (s ! 2) then (RuneError, 1)
          else if sz = 3 then (unat p mod 16 * 4096 + unat (s ! 1) mod 64 * 64 + unat (s ! 2) mod 64, 3)
          else if \<not> cont (s ! 3) then (RuneError, 1)
          else (unat p mod 8 * 262144 + unat (s ! 1) mod 64 * 4096 + unat (s ! 2) mod 64 * 64 + unat (s ! 3) mod 64, 4))"

lemma decode_rune_width: "s \<noteq> [] \<Longrightarrow> 0 < snd (decode_rune s)"
  by (simp add: decode_rune_def Let_def split: option.split)

lemma decode_rune_shrinks: "(r, w) = decode_rune s \<Longrightarrow> s \<noteq> [] \<Longrightarrow> length s - w < length s"
  using decode_rune_width [of s] by (metis diff_less length_greater_0_conv snd_conv)

function runes :: "bytes \<Rightarrow> nat list" where
  "runes s = (if s = [] then [] else case decode_rune s of (r, w) \<Rightarrow> r # runes (drop w s))"
  by pat_completeness auto
termination
  by (relation "measure length") (auto dest: decode_rune_shrinks)

declare runes.simps [simp del]

definition IsControl :: "nat \<Rightarrow> bool" where
  "IsControl r \<longleftrightarrow> r < 0x20 \<or> (0x7F \<le> r \<and> r \<le> 0x9F)"

section \<open>Texts\<close>

definition MaxTransactionIDBytes :: nat where "MaxTransactionIDBytes = 256"
definition MaxDocumentNameBytes :: nat where "MaxDocumentNameBytes = 512"
definition MaxContentTypeBytes :: nat where "MaxContentTypeBytes = 255"
definition MaxTenantIDBytes :: nat where "MaxTenantIDBytes = 256"
definition MaxIdempotencyKeyBytes :: nat where "MaxIdempotencyKeyBytes = 256"
definition MaxClientChunkBytes :: nat where "MaxClientChunkBytes = 1048576"
definition MaxDocumentBytes :: nat where "MaxDocumentBytes = 134217728"

datatype invalid_reason = FieldRequired | FieldTooLong | FieldControlCharacter | BodyEmpty

datatype store_err = ErrInvalidArgument string invalid_reason | ResourceExhausted string

record textField =
  tfName :: string
  tfValue :: bytes
  tfMaxBytes :: nat
  tfRequired :: bool

definition validateTextField :: "textField \<Rightarrow> store_err option" where
  "validateTextField f =
     (if tfRequired f \<and> tfValue f = [] then Some (ErrInvalidArgument (tfName f) FieldRequired)
      else if length (tfValue f) > tfMaxBytes f then Some (ErrInvalidArgument (tfName f) FieldTooLong)
      else if list_ex IsControl (runes (tfValue f)) then Some (ErrInvalidArgument (tfName f) FieldControlCharacter)
      else None)"

primrec validate_fields :: "textField list \<Rightarrow> store_err option" where
  "validate_fields [] = None"
| "validate_fields (f # fs) = (case validateTextField f of Some e \<Rightarrow> Some e | None \<Rightarrow> validate_fields fs)"

definition text_field :: "string \<Rightarrow> bytes \<Rightarrow> nat \<Rightarrow> bool \<Rightarrow> textField" where
  "text_field name val maxBytes required = \<lparr>tfName = name, tfValue = val, tfMaxBytes = maxBytes, tfRequired = required\<rparr>"

definition ValidateWriteMetadata :: "bytes \<Rightarrow> bytes \<Rightarrow> bytes \<Rightarrow> bytes \<Rightarrow> bytes \<Rightarrow> store_err option" where
  "ValidateWriteMetadata txID docName contentType tenantID idempotencyKey =
     validate_fields
       [text_field ''transaction_id'' txID MaxTransactionIDBytes True,
        text_field ''document_name'' docName MaxDocumentNameBytes True,
        text_field ''content_type'' contentType MaxContentTypeBytes True,
        text_field ''tenant_id'' tenantID MaxTenantIDBytes False,
        text_field ''idempotency_key'' idempotencyKey MaxIdempotencyKeyBytes False]"

definition ValidateDocumentIdentity :: "bytes \<Rightarrow> bytes \<Rightarrow> bytes \<Rightarrow> store_err option" where
  "ValidateDocumentIdentity txID docName tenantID =
     validate_fields
       [text_field ''transaction_id'' txID MaxTransactionIDBytes True,
        text_field ''document_name'' docName MaxDocumentNameBytes True,
        text_field ''tenant_id'' tenantID MaxTenantIDBytes False]"

definition ValidateTransactionLookup :: "bytes \<Rightarrow> bytes \<Rightarrow> store_err option" where
  "ValidateTransactionLookup txID tenantID =
     validate_fields
       [text_field ''transaction_id'' txID MaxTransactionIDBytes True,
        text_field ''tenant_id'' tenantID MaxTenantIDBytes False]"

definition ValidateClientChunk :: "bytes \<Rightarrow> store_err option" where
  "ValidateClientChunk chunk =
     (if length chunk > MaxClientChunkBytes then Some (ResourceExhausted ''chunk_too_large'') else None)"

section \<open>The body reader\<close>

datatype body_step = Give nat bool | Fail nat

record body_src =
  bpending :: bytes
  bscript :: "body_step list"

datatype body_err = BodyEOF | BodyIOError

text \<open>One \<open>Read\<close> into a buffer of \<open>m\<close> bytes.\<close>

definition body_Read :: "nat \<Rightarrow> body_src \<Rightarrow> (bytes \<times> body_err option) \<times> body_src" where
  "body_Read m src =
     (case bscript src of
        [] \<Rightarrow> ((take m (bpending src), if bpending src = [] then Some BodyEOF else None), src\<lparr>bpending := drop m (bpending src)\<rparr>)
      | Give k eof # rest \<Rightarrow>
          ((take (min k m) (bpending src), if eof \<and> length (bpending src) \<le> min k m then Some BodyEOF else None),
           \<lparr>bpending = drop (min k m) (bpending src), bscript = rest\<rparr>)
      | Fail k # rest \<Rightarrow>
          ((take (min k m) (bpending src), Some BodyIOError), \<lparr>bpending = drop (min k m) (bpending src), bscript = rest\<rparr>))"

record documentBodyReader =
  drBody :: body_src
  drMaxBytes :: nat
  drTotalBytes :: nat

datatype doc_read_err = DocSource body_err | DocStore store_err

definition newDocumentBodyReader :: "body_src \<Rightarrow> nat \<Rightarrow> documentBodyReader" where
  "newDocumentBodyReader body maxBytes = \<lparr>drBody = body, drMaxBytes = maxBytes, drTotalBytes = 0\<rparr>"

definition NewDocumentBodyReader :: "body_src \<Rightarrow> documentBodyReader" where
  "NewDocumentBodyReader body = newDocumentBodyReader body MaxDocumentBytes"

definition readLimitProbe :: "documentBodyReader \<Rightarrow> (bytes \<times> doc_read_err option) \<times> documentBodyReader" where
  "readLimitProbe r =
     (case body_Read 1 (drBody r) of ((data, err), src) \<Rightarrow>
        (([], if data \<noteq> [] then Some (DocStore (ResourceExhausted ''document_too_large'')) else map_option DocSource err),
         r\<lparr>drBody := src\<rparr>))"

definition documentBodyReader_Read :: "nat \<Rightarrow> documentBodyReader \<Rightarrow> (bytes \<times> doc_read_err option) \<times> documentBodyReader" where
  "documentBodyReader_Read m r =
     (if m = 0 then (([], None), r)
      else if drTotalBytes r \<ge> drMaxBytes r then readLimitProbe r
      else case body_Read (min m (drMaxBytes r - drTotalBytes r)) (drBody r) of ((data, err), src) \<Rightarrow>
        if drTotalBytes r = 0 \<and> data = [] \<and> err = Some BodyEOF
        then (([], Some (DocStore (ErrInvalidArgument ''document body'' BodyEmpty))), r\<lparr>drBody := src\<rparr>)
        else ((data, map_option DocSource err), r\<lparr>drBody := src, drTotalBytes := drTotalBytes r + length data\<rparr>))"

section \<open>Draining a reader\<close>

text \<open>Reading to the first error with buffers of any positive sizes: the bytes received and the error.\<close>

definition src_size :: "body_src \<Rightarrow> nat" where
  "src_size src = length (bpending src) + length (bscript src)"

lemma body_Read_size:
  "body_Read (Suc m) src = ((data, err), src') \<Longrightarrow> err = None \<Longrightarrow> src_size src' < src_size src"
  by (auto simp: body_Read_def src_size_def split: list.splits body_step.splits if_splits)

lemma Read_size:
  assumes "documentBodyReader_Read (Suc m) r = ((data, None), r')"
  shows "src_size (drBody r') < src_size (drBody r)"
proof (cases "drTotalBytes r \<ge> drMaxBytes r")
  case True
  obtain d e src where b: "body_Read (Suc 0) (drBody r) = ((d, e), src)" by (metis surj_pair)
  then show ?thesis using assms True body_Read_size [OF b]
    by (auto simp: documentBodyReader_Read_def readLimitProbe_def split: if_splits)
next
  case False
  then obtain n where n: "min (Suc m) (drMaxBytes r - drTotalBytes r) = Suc n"
    by (metis Suc_diff_1 diff_is_0_eq gr_zeroI min_def zero_less_Suc)
  obtain d e src where b: "body_Read (Suc n) (drBody r) = ((d, e), src)" by (metis surj_pair)
  then show ?thesis using assms False n body_Read_size [OF b]
    by (auto simp: documentBodyReader_Read_def split: if_splits)
qed

function drain :: "(nat \<Rightarrow> nat) \<Rightarrow> nat \<Rightarrow> documentBodyReader \<Rightarrow> bytes \<times> doc_read_err" where
  "drain sz k r =
     (case documentBodyReader_Read (Suc (sz k)) r of ((data, err), r') \<Rightarrow>
        case err of Some e \<Rightarrow> (data, e) | None \<Rightarrow> (case drain sz (Suc k) r' of (more1, e) \<Rightarrow> (data @ more1, e)))"
  by pat_completeness auto
termination
  by (relation "measure (\<lambda>(sz, k, r). src_size (drBody r))") (auto dest!: Read_size [OF sym])

declare drain.simps [simp del]

section \<open>Control bytes\<close>

text \<open>Every byte below 128 of a string is one of its runes.\<close>

lemma decode_rune_multi:
  assumes "decode_rune s = (r, w)" and "1 < w"
  shows "w \<le> length s \<and> (\<forall>i<w. 0x80 \<le> s ! i)"
proof -
  have s: "s \<noteq> []" using assms by (auto simp: decode_rune_def)
  have p: "\<not> s ! 0 < 0x80" using assms s by (auto simp: decode_rune_def Let_def split: if_splits)
  obtain sz lo hi where f: "first_byte (s ! 0) = Some (sz, lo, hi)"
    using assms s p by (cases "first_byte (s ! 0)") (auto simp: decode_rune_def Let_def)
  have lo: "0x80 \<le> lo" "sz \<in> {2, 3, 4}" using f by (auto simp: first_byte_def split: if_splits)
  have w: "w = sz" "sz \<le> length s" "lo \<le> s ! 1" "2 < sz \<Longrightarrow> cont (s ! 2)" "3 < sz \<Longrightarrow> cont (s ! 3)"
    using assms s p f lo(2) by (auto simp: decode_rune_def Let_def not_less split: if_splits)
  have "0x80 \<le> s ! i" if "i < w" for i
  proof -
    have "i = 0 \<or> i = 1 \<or> (i = 2 \<and> 2 < sz) \<or> (i = 3 \<and> 3 < sz)" using that w(1) lo(2) by auto
    then show ?thesis using p w(3-5) lo(1) by (auto simp: cont_def not_less)
  qed
  then show ?thesis using w by simp
qed

lemma ascii_rune: "b \<in> set s \<Longrightarrow> b < 0x80 \<Longrightarrow> unat b \<in> set (runes s)"
proof (induction s rule: runes.induct)
  case (1 s)
  have s: "s \<noteq> []" using 1 by auto
  obtain r w where d: "decode_rune s = (r, w)" by (cases "decode_rune s")
  have w: "0 < w" using decode_rune_width [OF s] d by simp
  have u: "runes s = r # runes (drop w s)" using s d by (simp add: runes.simps [of s])
  obtain i where i: "i < length s" "s ! i = b" using 1(2) by (auto simp: in_set_conv_nth)
  show ?case
  proof (cases "i < w")
    case True
    have "\<not> 1 < w"
    proof
      assume "1 < w"
      from decode_rune_multi [OF d this] have "0x80 \<le> b" using i True by blast
      then show False using 1(3) by simp
    qed
    then have "i = 0" using w True by simp
    then have "r = unat b" using d s i 1(3) by (simp add: decode_rune_def Let_def split: if_splits)
    then show ?thesis using u by simp
  next
    case False
    then have "drop w s ! (i - w) = b" "i - w < length (drop w s)" using i by auto
    then have "b \<in> set (drop w s)" using nth_mem by blast
    then show ?thesis using 1(1) [OF s d [symmetric]] 1(3) u by simp
  qed
qed

definition control_free :: "bytes \<Rightarrow> bool" where
  "control_free s \<longleftrightarrow> (\<forall>b\<in>set s. 0x20 \<le> b \<and> b \<noteq> 0x7F)"

lemma no_control_runes: "\<not> list_ex IsControl (runes s) \<Longrightarrow> control_free s"
  unfolding control_free_def
proof
  fix b assume a: "\<not> list_ex IsControl (runes s)" "b \<in> set s"
  show "0x20 \<le> b \<and> b \<noteq> 0x7F"
  proof (cases "b < 0x80")
    case True
    then have "\<not> IsControl (unat b)" using ascii_rune [OF a(2)] a(1) by (auto simp: list_ex_iff)
    then show ?thesis by (auto simp: IsControl_def word_le_nat_alt)
  next
    case False
    then show ?thesis by (auto simp: word_le_nat_alt word_less_nat_alt)
  qed
qed

lemma validateTextField_ok:
  "validateTextField f = None \<Longrightarrow>
     control_free (tfValue f) \<and> length (tfValue f) \<le> tfMaxBytes f \<and> (tfRequired f \<longrightarrow> tfValue f \<noteq> [])"
  using no_control_runes by (auto simp: validateTextField_def split: if_splits)

section \<open>What a drained reader delivered\<close>

definition faultless :: "body_src \<Rightarrow> bool" where
  "faultless src \<longleftrightarrow> (\<forall>st\<in>set (bscript src). case st of Give k eof \<Rightarrow> True | Fail k \<Rightarrow> False)"

lemma body_Read_data:
  "body_Read m src = ((data, err), src') \<Longrightarrow> bpending src = data @ bpending src' \<and> length data \<le> m"
  by (auto simp: body_Read_def split: list.splits body_step.splits if_splits)

lemma body_Read_faultless:
  "body_Read m src = ((data, err), src') \<Longrightarrow> faultless src \<Longrightarrow>
     faultless src' \<and> err \<noteq> Some BodyIOError \<and> (err = Some BodyEOF \<longrightarrow> bpending src' = [])"
  by (auto simp: body_Read_def faultless_def split: list.splits body_step.splits if_splits)

text \<open>The bytes delivered are a prefix of the body within the limit, on any source.\<close>

lemma drain_prefix:
  "drain sz k r = (bs, e) \<Longrightarrow> drTotalBytes r \<le> drMaxBytes r \<Longrightarrow>
     drTotalBytes r + length bs \<le> drMaxBytes r \<and> (\<exists>rest. bpending (drBody r) = bs @ rest)"
proof (induction sz k r arbitrary: bs e rule: drain.induct)
  case (1 sz k r)
  obtain data err r' where rd: "documentBodyReader_Read (Suc (sz k)) r = ((data, err), r')" by (metis surj_pair)
  have step: "drTotalBytes r + length data \<le> drMaxBytes r \<and> (\<exists>rest. bpending (drBody r) = data @ rest) \<and>
      (err = None \<longrightarrow> bpending (drBody r) = data @ bpending (drBody r') \<and>
         drTotalBytes r' = drTotalBytes r + length data \<and> drMaxBytes r' = drMaxBytes r)"
    using rd 1(3)
    by (auto simp: documentBodyReader_Read_def readLimitProbe_def dest!: body_Read_data split: if_splits prod.splits)
  show ?case
  proof (cases err)
    case (Some x)
    then show ?thesis using 1(2) rd step by (simp add: drain.simps [of sz k r])
  next
    case None
    obtain bs1 e1 where d: "drain sz (Suc k) r' = (bs1, e1)" by (cases "drain sz (Suc k) r'")
    from 1(1) [OF rd [symmetric] refl None d] step None
    have "drTotalBytes r' + length bs1 \<le> drMaxBytes r'" "\<exists>rest. bpending (drBody r') = bs1 @ rest" by auto
    then show ?thesis using 1(2) rd None d step by (auto simp: drain.simps [of sz k r]) metis
  qed
qed

text \<open>The verdict on the bytes that are left after \<open>total\<close> were delivered.\<close>

definition body_verdict :: "nat \<Rightarrow> nat \<Rightarrow> bytes \<Rightarrow> bytes \<times> doc_read_err" where
  "body_verdict maxBytes delivered left =
     (if delivered = 0 \<and> left = [] then ([], DocStore (ErrInvalidArgument ''document body'' BodyEmpty))
      else if delivered + length left > maxBytes then (take (maxBytes - delivered) left, DocStore (ResourceExhausted ''document_too_large''))
      else (left, DocSource BodyEOF))"

lemma readLimitProbe_faultless:
  assumes "readLimitProbe r = ((data, err), r')" and "faultless (drBody r)"
  shows "data = [] \<and> drTotalBytes r' = drTotalBytes r \<and> drMaxBytes r' = drMaxBytes r \<and> faultless (drBody r') \<and>
    (case err of None \<Rightarrow> bpending (drBody r') = bpending (drBody r)
     | Some e \<Rightarrow> (if bpending (drBody r) = [] then e = DocSource BodyEOF else e = DocStore (ResourceExhausted ''document_too_large'')))"
proof -
  obtain d e src where b: "body_Read 1 (drBody r) = ((d, e), src)" by (metis surj_pair)
  note f = body_Read_faultless [OF b assms(2)] and g = body_Read_data [OF b]
  have e: "e = None \<or> e = Some BodyEOF" using f by (cases e) (auto intro: body_err.exhaust)
  show ?thesis using assms(1) b e f g by (auto simp: readLimitProbe_def split: if_splits)
qed

lemma Read_below_limit:
  assumes "documentBodyReader_Read (Suc m) r = ((data, err), r')" and "faultless (drBody r)" and "drTotalBytes r < drMaxBytes r"
  shows "(drTotalBytes r = 0 \<and> bpending (drBody r) = [] \<and> data = [] \<and> err = Some (DocStore (ErrInvalidArgument ''document body'' BodyEmpty))) \<or>
    (bpending (drBody r) = data @ bpending (drBody r') \<and> drTotalBytes r' = drTotalBytes r + length data \<and>
     drTotalBytes r' \<le> drMaxBytes r \<and> drMaxBytes r' = drMaxBytes r \<and> faultless (drBody r') \<and>
     (err = None \<or> err = Some (DocSource BodyEOF) \<and> bpending (drBody r') = [] \<and> (drTotalBytes r = 0 \<longrightarrow> data \<noteq> [])))"
proof -
  obtain d e src where b: "body_Read (min (Suc m) (drMaxBytes r - drTotalBytes r)) (drBody r) = ((d, e), src)" by (metis surj_pair)
  note f = body_Read_faultless [OF b assms(2)] and g = body_Read_data [OF b]
  have e: "e = None \<or> e = Some BodyEOF" using f by (cases e) (auto intro: body_err.exhaust)
  have r: "documentBodyReader_Read (Suc m) r =
      (if drTotalBytes r = 0 \<and> d = [] \<and> e = Some BodyEOF
       then (([], Some (DocStore (ErrInvalidArgument ''document body'' BodyEmpty))), r\<lparr>drBody := src\<rparr>)
       else ((d, map_option DocSource e), r\<lparr>drBody := src, drTotalBytes := drTotalBytes r + length d\<rparr>))"
    using b assms(3) by (simp add: documentBodyReader_Read_def)
  show ?thesis
  proof (cases "drTotalBytes r = 0 \<and> d = [] \<and> e = Some BodyEOF")
    case True
    then show ?thesis using assms(1) r f g by simp
  next
    case False
    have "data = d" "err = map_option DocSource e" "drBody r' = src" "drTotalBytes r' = drTotalBytes r + length d" "drMaxBytes r' = drMaxBytes r"
      using assms(1) r False by auto
    moreover have "drTotalBytes r + length d \<le> drMaxBytes r" using g assms(3) by auto
    ultimately show ?thesis using e f g False by (elim disjE) auto
  qed
qed

lemma drain_faultless:
  "faultless (drBody r) \<Longrightarrow> drTotalBytes r \<le> drMaxBytes r \<Longrightarrow> 0 < drMaxBytes r \<Longrightarrow>
     drain sz k r = body_verdict (drMaxBytes r) (drTotalBytes r) (bpending (drBody r))"
proof (induction sz k r rule: drain.induct)
  case (1 sz k r)
  obtain data err r' where rd: "documentBodyReader_Read (Suc (sz k)) r = ((data, err), r')" by (metis surj_pair)
  show ?case
  proof (cases "drTotalBytes r < drMaxBytes r")
    case True
    from Read_below_limit [OF rd 1(2) True] show ?thesis
    proof (elim disjE conjE)
      assume "drTotalBytes r = 0" "bpending (drBody r) = []" "data = []"
        "err = Some (DocStore (ErrInvalidArgument ''document body'' BodyEmpty))"
      then show ?thesis using rd by (simp add: drain.simps [of sz k r] body_verdict_def)
    next
      assume h: "bpending (drBody r) = data @ bpending (drBody r')" "drTotalBytes r' = drTotalBytes r + length data"
        "drTotalBytes r' \<le> drMaxBytes r" "drMaxBytes r' = drMaxBytes r" "faultless (drBody r')" "err = None"
      then have "drain sz (Suc k) r' = body_verdict (drMaxBytes r') (drTotalBytes r') (bpending (drBody r'))"
        using 1(1) [OF rd [symmetric] refl] 1(4) by simp
      then show ?thesis
        using h rd by (auto simp: drain.simps [of sz k r] body_verdict_def)
    next
      assume "bpending (drBody r) = data @ bpending (drBody r')" "drTotalBytes r' = drTotalBytes r + length data"
        "drTotalBytes r' \<le> drMaxBytes r" "err = Some (DocSource BodyEOF)" "bpending (drBody r') = []" "drTotalBytes r = 0 \<longrightarrow> data \<noteq> []"
      then show ?thesis using rd by (auto simp: drain.simps [of sz k r] body_verdict_def)
    qed
  next
    case False
    then have t: "drTotalBytes r = drMaxBytes r" and p: "readLimitProbe r = ((data, err), r')"
      using 1(3) rd by (simp_all add: documentBodyReader_Read_def)
    note q = readLimitProbe_faultless [OF p 1(2)]
    show ?thesis
    proof (cases err)
      case None
      then have "drain sz (Suc k) r' = body_verdict (drMaxBytes r') (drTotalBytes r') (bpending (drBody r'))"
        using 1(1) [OF rd [symmetric] refl None] q t 1(4) by simp
      then show ?thesis using None q rd by (simp add: drain.simps [of sz k r] split: prod.split)
    next
      case (Some e)
      then show ?thesis using q rd t 1(4) by (auto simp: drain.simps [of sz k r] body_verdict_def split: if_splits)
    qed
  qed
qed

section \<open>Properties\<close>

text \<open>
  A write whose metadata is accepted has only texts without control bytes: no byte below 32 and
  no 127 in any of the five fields, so in particular no zero byte that could forge a separator in a
  key. The required fields are not empty and every field is within its limit.
\<close>

theorem accepted_metadata_clean:
  assumes "ValidateWriteMetadata txID docName contentType tenantID idempotencyKey = None"
  shows "(\<forall>s\<in>{txID, docName, contentType, tenantID, idempotencyKey}. control_free s) \<and>
         txID \<noteq> [] \<and> docName \<noteq> [] \<and> contentType \<noteq> [] \<and>
         length txID \<le> 256 \<and> length docName \<le> 512 \<and> length contentType \<le> 255 \<and> length tenantID \<le> 256 \<and>
         length idempotencyKey \<le> 256"
proof -
  have "validateTextField (text_field ''transaction_id'' txID MaxTransactionIDBytes True) = None"
    "validateTextField (text_field ''document_name'' docName MaxDocumentNameBytes True) = None"
    "validateTextField (text_field ''content_type'' contentType MaxContentTypeBytes True) = None"
    "validateTextField (text_field ''tenant_id'' tenantID MaxTenantIDBytes False) = None"
    "validateTextField (text_field ''idempotency_key'' idempotencyKey MaxIdempotencyKeyBytes False) = None"
    using assms by (auto simp: ValidateWriteMetadata_def split: option.splits)
  from this [THEN validateTextField_ok] show ?thesis
    by (simp add: text_field_def MaxTransactionIDBytes_def MaxDocumentNameBytes_def MaxContentTypeBytes_def
        MaxTenantIDBytes_def MaxIdempotencyKeyBytes_def)
qed

theorem accepted_metadata_clean_witness:
  "control_free (lit ''tx-1'') \<and> length (lit ''tx-1'') \<le> 256"
proof -
  have "ValidateWriteMetadata (lit ''tx-1'') (lit ''a.txt'') (lit ''text/plain'') [] [] = None" by code_simp
  from accepted_metadata_clean [OF this] show ?thesis by simp
qed

text \<open>
  C35: the body limit. However the source cuts the body into pieces and whatever buffers the caller
  uses, a body of 1 to 128 MiB is delivered unchanged and ends with the source's end of file, an
  empty one is refused, and of a longer one exactly the first 128 MiB are delivered before it is
  refused. On a source that fails, what was delivered is still a prefix within the limit.
\<close>

theorem document_body_bounded:
  assumes "drain sz 0 (NewDocumentBodyReader src) = (bs, e)"
  shows "length bs \<le> 134217728 \<and> (\<exists>left. bpending src = bs @ left) \<and>
         (faultless src \<longrightarrow>
            (bs, e) = (if bpending src = [] then ([], DocStore (ErrInvalidArgument ''document body'' BodyEmpty))
                       else if length (bpending src) > 134217728
                       then (take 134217728 (bpending src), DocStore (ResourceExhausted ''document_too_large''))
                       else (bpending src, DocSource BodyEOF)))"
proof -
  let ?r = "NewDocumentBodyReader src"
  have r: "drTotalBytes ?r = 0" "drMaxBytes ?r = 134217728" "drBody ?r = src"
    by (simp_all add: NewDocumentBodyReader_def newDocumentBodyReader_def MaxDocumentBytes_def)
  have "drain sz 0 ?r = body_verdict 134217728 0 (bpending src)" if "faultless src"
    using drain_faultless [of ?r sz 0] that r by simp
  then show ?thesis using assms drain_prefix [OF assms] r by (simp add: body_verdict_def)
qed

theorem document_body_bounded_witness:
  "fst (drain (\<lambda>_. 3) 0 (NewDocumentBodyReader \<lparr>bpending = [1, 2, 3, 4, 5], bscript = [Give 2 False, Give 0 False, Give 9 True]\<rparr>)) = [1, 2, 3, 4, 5]"
proof -
  let ?src = "\<lparr>bpending = [1, 2, 3, 4, 5], bscript = [Give 2 False, Give 0 False, Give 9 True]\<rparr>"
  obtain bs e where d: "drain (\<lambda>_. 3) 0 (NewDocumentBodyReader ?src) = (bs, e)" by (metis surj_pair)
  have "faultless ?src" by (simp add: faultless_def)
  then show ?thesis using document_body_bounded [OF d] d by simp
qed

end
