(* ===== verification/Projection_Store.thy ===== *)
theory Projection_Store
  imports Go_Hash "HOL-Library.List_Lexorder" "HOL-Library.AList" "HOL-Library.Sublist"
begin

text \<open>
  \<open>internal/index/index.go\<close> and \<open>applied_index.go\<close>: the Projection, a key-value store that maps each
  Transaction to the Blocks holding its Documents. The store is the Pebble library: its operations
  are a parameter, and \<open>pebble_ok\<close> states what its documentation promises of them, with every call
  allowed to fail. The tables kept in the store share one contract, the locale \<open>kv_table\<close>.
\<close>

section \<open>The key-value store\<close>

text \<open>
  A read returns an error, or the value if there is one; a write reports whether it was made
  durable; an iteration between bounds returns the pairs it has seen and whether it reached the end.
\<close>

record 's pebble =
  pb_Get :: "bytes \<Rightarrow> 's \<Rightarrow> unit + bytes option"
  pb_Set :: "bytes \<Rightarrow> bytes \<Rightarrow> 's \<Rightarrow> bool \<times> 's"
  pb_Delete :: "bytes \<Rightarrow> 's \<Rightarrow> bool \<times> 's"
  pb_Iter :: "bytes \<Rightarrow> bytes option \<Rightarrow> 's \<Rightarrow> (bytes \<times> bytes) list \<times> bool"

definition in_bounds :: "bytes \<Rightarrow> bytes option \<Rightarrow> bytes \<Rightarrow> bool" where
  "in_bounds lo hi k \<longleftrightarrow> lo \<le> k \<and> (case hi of None \<Rightarrow> True | Some h \<Rightarrow> k < h)"

definition pebble_ok :: "('s \<Rightarrow> bytes \<rightharpoonup> bytes) \<Rightarrow> 's pebble \<Rightarrow> bool" where
  "pebble_ok contents db \<longleftrightarrow>
     (\<forall>k s v. pb_Get db k s = Inr v \<longrightarrow> v = contents s k) \<and>
     (\<forall>k v s ok s'. pb_Set db k v s = (ok, s') \<longrightarrow> contents s' = (contents s)(k \<mapsto> v) \<or> \<not> ok \<and> contents s' = contents s) \<and>
     (\<forall>k s ok s'. pb_Delete db k s = (ok, s') \<longrightarrow> contents s' = (contents s)(k := None) \<or> \<not> ok \<and> contents s' = contents s) \<and>
     (\<forall>lo hi s xs ok. pb_Iter db lo hi s = (xs, ok) \<longrightarrow>
        sorted_wrt (<) (map fst xs) \<and>
        (\<forall>(k, v)\<in>set xs. in_bounds lo hi k \<and> contents s k = Some v) \<and>
        (ok \<longrightarrow> (\<forall>k v. in_bounds lo hi k \<and> contents s k = Some v \<longrightarrow> (k, v) \<in> set xs)))"

text \<open>A store in memory that never fails.\<close>

definition mem_pebble :: "(bytes \<times> bytes) list pebble" where
  "mem_pebble =
     \<lparr>pb_Get = (\<lambda>k s. Inr (map_of s k)),
      pb_Set = (\<lambda>k v s. (True, AList.update k v s)),
      pb_Delete = (\<lambda>k s. (True, AList.delete k s)),
      pb_Iter = (\<lambda>lo hi s. (sort_key fst (filter (\<lambda>(k, v). in_bounds lo hi k) (AList.clearjunk s)), True))\<rparr>"

text \<open>A store in which no call fails.\<close>

definition pebble_total :: "'s pebble \<Rightarrow> bool" where
  "pebble_total db \<longleftrightarrow>
     (\<forall>k s. \<exists>v. pb_Get db k s = Inr v) \<and> (\<forall>k v s. fst (pb_Set db k v s)) \<and> (\<forall>k s. fst (pb_Delete db k s)) \<and>
     (\<forall>lo hi s. snd (pb_Iter db lo hi s))"

lemma mem_pebble_total: "pebble_total mem_pebble"
  by (simp add: pebble_total_def mem_pebble_def)

section \<open>The Projection\<close>

definition valueVersion :: u8 where "valueVersion = 1"
definition headerLen :: nat where "headerLen = 3"
definition trailerLen :: nat where "trailerLen = 3"
definition minEncodedLen :: nat where "minEncodedLen = 6"
definition sizeBlockID :: nat where "sizeBlockID = 8"
definition txKeyPrefix :: bytes where "txKeyPrefix = [0] @ lit ''tx'' @ [0]"
definition appliedIndexKey :: bytes where "appliedIndexKey = [0] @ lit ''applied-index'' @ [0]"
definition appliedIndexValueLen :: nat where "appliedIndexValueLen = 8"
definition scannerWatermarkPrefix :: bytes where "scannerWatermarkPrefix = [0] @ lit ''scanner-watermark'' @ [0]"

record Entry =
  BlockIDs :: "u64 list"
  DocCount :: u16
  Completed :: bool

record 's Index =
  idxdb :: 's
  appliedIndex :: u64
  durableAppliedIndex :: u64

datatype proj_err =
    ErrNotFound
  | ProjIO
  | ValueTooShort
  | UnknownVersion
  | ValueLengthMismatch
  | DocCountAtMaximum
  | AppliedIndexLength

definition txKey :: "bytes \<Rightarrow> bytes" where
  "txKey txID = txKeyPrefix @ txID"

definition encodeEntry :: "Entry \<Rightarrow> bytes" where
  "encodeEntry e =
     [valueVersion] @ put_u16 (of_nat (length (BlockIDs e))) @ concat (map put_u64 (BlockIDs e)) @
     put_u16 (DocCount e) @ [if Completed e then 1 else 0]"

primrec decode_ids :: "nat \<Rightarrow> nat \<Rightarrow> bytes \<Rightarrow> u64 list" where
  "decode_ids 0 off val = []"
| "decode_ids (Suc n) off val = get_u64 (slice off (off + 8) val) # decode_ids n (off + 8) val"

definition decodeEntry :: "bytes \<Rightarrow> proj_err + Entry" where
  "decodeEntry val =
     (if length val < minEncodedLen then Inl ValueTooShort
      else if val ! 0 \<noteq> valueVersion then Inl UnknownVersion
      else let n = unat (get_u16 (slice 1 headerLen val)) in
      if length val \<noteq> headerLen + sizeBlockID * n + trailerLen then Inl ValueLengthMismatch
      else let off = headerLen + sizeBlockID * n in
        Inr \<lparr>BlockIDs = decode_ids n headerLen val, DocCount = get_u16 (slice off (off + 2) val), Completed = (val ! (off + 2) = 1)\<rparr>)"

definition Index_put :: "'s pebble \<Rightarrow> bytes \<Rightarrow> Entry \<Rightarrow> 's Index \<Rightarrow> proj_err option \<times> 's Index" where
  "Index_put db txID e ix =
     (case pb_Set db (txKey txID) (encodeEntry e) (idxdb ix) of (ok, s) \<Rightarrow> (if ok then None else Some ProjIO, ix\<lparr>idxdb := s\<rparr>))"

definition Index_Put :: "'s pebble \<Rightarrow> bytes \<Rightarrow> u64 \<Rightarrow> u16 \<Rightarrow> bool \<Rightarrow> 's Index \<Rightarrow> proj_err option \<times> 's Index" where
  "Index_Put db txID blockID docCount completed =
     Index_put db txID \<lparr>BlockIDs = [blockID], DocCount = docCount, Completed = completed\<rparr>"

definition Index_Get :: "'s pebble \<Rightarrow> bytes \<Rightarrow> 's Index \<Rightarrow> proj_err + Entry" where
  "Index_Get db txID ix =
     (case pb_Get db (txKey txID) (idxdb ix) of Inl _ \<Rightarrow> Inl ProjIO | Inr None \<Rightarrow> Inl ErrNotFound | Inr (Some val) \<Rightarrow> decodeEntry val)"

definition Index_Exists :: "'s pebble \<Rightarrow> bytes \<Rightarrow> 's Index \<Rightarrow> bool" where
  "Index_Exists db txID ix =
     (case pb_Get db (txKey txID) (idxdb ix) of Inl _ \<Rightarrow> False | Inr v \<Rightarrow> v \<noteq> None)"

definition Index_AddBlockID :: "'s pebble \<Rightarrow> bytes \<Rightarrow> u64 \<Rightarrow> 's Index \<Rightarrow> proj_err option \<times> 's Index" where
  "Index_AddBlockID db txID blockID ix =
     (case Index_Get db txID ix of Inl e \<Rightarrow> (Some e, ix)
      | Inr entry \<Rightarrow> Index_put db txID (entry\<lparr>BlockIDs := BlockIDs entry @ [blockID]\<rparr>) ix)"

definition Index_IncrementDocCount :: "'s pebble \<Rightarrow> bytes \<Rightarrow> 's Index \<Rightarrow> proj_err option \<times> 's Index" where
  "Index_IncrementDocCount db txID ix =
     (case Index_Get db txID ix of Inl e \<Rightarrow> (Some e, ix)
      | Inr entry \<Rightarrow>
          if DocCount entry = 0xFFFF then (Some DocCountAtMaximum, ix)
          else Index_put db txID (entry\<lparr>DocCount := DocCount entry + 1\<rparr>) ix)"

definition SetAppliedIndex :: "u64 \<Rightarrow> 's Index \<Rightarrow> 's Index" where
  "SetAppliedIndex ai ix = ix\<lparr>appliedIndex := ai\<rparr>"

definition PersistAppliedIndex :: "'s pebble \<Rightarrow> u64 \<Rightarrow> 's Index \<Rightarrow> proj_err option \<times> 's Index" where
  "PersistAppliedIndex db ai ix =
     (case pb_Set db appliedIndexKey (put_be64 ai) (idxdb ix) of (ok, s) \<Rightarrow>
        if \<not> ok then (Some ProjIO, ix\<lparr>idxdb := s\<rparr>) else (None, ix\<lparr>idxdb := s, durableAppliedIndex := ai\<rparr>))"

definition loadAppliedIndex :: "'s pebble \<Rightarrow> 's Index \<Rightarrow> proj_err + 's Index" where
  "loadAppliedIndex db ix =
     (case pb_Get db appliedIndexKey (idxdb ix) of
        Inl _ \<Rightarrow> Inl ProjIO
      | Inr None \<Rightarrow> Inr ix
      | Inr (Some val) \<Rightarrow>
          if length val \<noteq> appliedIndexValueLen then Inl AppliedIndexLength
          else Inr (ix\<lparr>durableAppliedIndex := get_be64 val\<rparr>))"

definition Index_Open :: "'s pebble \<Rightarrow> 's \<Rightarrow> proj_err + 's Index" where
  "Index_Open db s = loadAppliedIndex db \<lparr>idxdb = s, appliedIndex = 0, durableAppliedIndex = 0\<rparr>"

definition hashed_key :: "bytes \<Rightarrow> bool" where
  "hashed_key k \<longleftrightarrow> \<not> prefix scannerWatermarkPrefix k \<and> k \<noteq> appliedIndexKey"

definition StreamingHash :: "'s pebble \<Rightarrow> 's Index \<Rightarrow> proj_err + u64 \<times> bytes" where
  "StreamingHash db ix =
     (case pb_Iter db [] None (idxdb ix) of (xs, ok) \<Rightarrow>
        if \<not> ok then Inl ProjIO
        else Inr (appliedIndex ix, sha256 (concat (map (\<lambda>(k, v). k @ v) (filter (\<lambda>(k, v). hashed_key k) xs)))))"

section \<open>Tables in the store\<close>

text \<open>
  A table has a key function, injective on the keys it admits, and a value encoding that its decoder
  inverts on the values it accepts. What a client may rely on: the table is a map, a written value is
  read back, and a write to another row or under a key of no row changes nothing.
\<close>

locale kv_table =
  fixes key :: "'k \<Rightarrow> bytes" and encode :: "'v \<Rightarrow> bytes" and decode :: "'k \<Rightarrow> bytes \<Rightarrow> 'e + 'v"
    and admits :: "'k \<Rightarrow> bool" and valid :: "'k \<Rightarrow> 'v \<Rightarrow> bool"
  assumes key_inject: "admits j \<Longrightarrow> admits k \<Longrightarrow> key j = key k \<Longrightarrow> j = k"
    and valid_admits: "valid k v \<Longrightarrow> admits k"
    and decode_encode: "valid k v \<Longrightarrow> decode k (encode v) = Inr v"
begin

definition table :: "(bytes \<rightharpoonup> bytes) \<Rightarrow> 'k \<rightharpoonup> 'v" where
  "table m k = (if admits k then case m (key k) of None \<Rightarrow> None | Some c \<Rightarrow> (case decode k c of Inl _ \<Rightarrow> None | Inr v \<Rightarrow> Some v) else None)"

lemma table_put: "valid k v \<Longrightarrow> table (m(key k \<mapsto> encode v)) = (table m)(k \<mapsto> v)"
  using key_inject valid_admits [of k v] decode_encode [of k v] by (auto simp: table_def fun_eq_iff)

lemma table_delete: "admits k \<Longrightarrow> table (m(key k := None)) = (table m)(k := None)"
  using key_inject by (auto simp: table_def fun_eq_iff)

lemma table_foreign: "(\<And>j. admits j \<Longrightarrow> n \<noteq> key j) \<Longrightarrow> table (m(n := c)) = table m"
  by (auto simp: table_def fun_eq_iff)

end

text \<open>
  A table may be read by an iteration between two bounds: all its keys lie between them, and a pair
  decodes to a value that names its key. If nothing else is stored there, the iteration returns the
  table.
\<close>

fun decode_pairs :: "(bytes \<Rightarrow> bytes \<Rightarrow> 'e + 'v) \<Rightarrow> (bytes \<times> bytes) list \<Rightarrow> 'e + 'v list" where
  "decode_pairs f [] = Inr []"
| "decode_pairs f ((k, c) # xs) =
     (case f k c of Inl e \<Rightarrow> Inl e
      | Inr v \<Rightarrow> (case decode_pairs f xs of Inl e \<Rightarrow> Inl e | Inr vs \<Rightarrow> Inr (v # vs)))"

lemma decode_pairs_map: "(\<And>n c. (n, c) \<in> set xs \<Longrightarrow> f n c = Inr (g n c)) \<Longrightarrow> decode_pairs f xs = Inr (map (\<lambda>(n, c). g n c) xs)"
  by (induction f xs rule: decode_pairs.induct) simp_all

locale scan_table = kv_table key encode decode admits valid
  for key :: "'k \<Rightarrow> bytes" and encode :: "'v \<Rightarrow> bytes" and decode :: "'k \<Rightarrow> bytes \<Rightarrow> 'e + 'v"
    and admits :: "'k \<Rightarrow> bool" and valid :: "'k \<Rightarrow> 'v \<Rightarrow> bool" +
  fixes lo hi :: bytes and decode_kv :: "bytes \<Rightarrow> bytes \<Rightarrow> 'e + 'v" and ident :: "'v \<Rightarrow> 'k"
  assumes key_bounds: "admits k \<Longrightarrow> in_bounds lo (Some hi) (key k)"
    and valid_ident: "valid k v \<Longrightarrow> ident v = k"
    and decode_kv: "admits k \<Longrightarrow> decode_kv (key k) c = decode k c"
begin

definition rows_ok :: "(bytes \<rightharpoonup> bytes) \<Rightarrow> bool" where
  "rows_ok m \<longleftrightarrow> (\<forall>n c. in_bounds lo (Some hi) n \<longrightarrow> m n = Some c \<longrightarrow>
     (\<exists>v. decode_kv n c = Inr v \<and> valid (ident v) v \<and> n = key (ident v)))"

lemma rows_ok_put: "rows_ok m \<Longrightarrow> valid k v \<Longrightarrow> rows_ok (m(key k \<mapsto> encode v))"
  using decode_kv [OF valid_admits, of k v "encode v"] decode_encode [of k v] valid_ident [of k v] by (auto simp: rows_ok_def)

lemma rows_ok_delete: "rows_ok m \<Longrightarrow> rows_ok (m(n := None))"
  by (auto simp: rows_ok_def)

lemma rows_ok_foreign: "\<not> in_bounds lo (Some hi) n \<Longrightarrow> rows_ok (m(n := c)) = rows_ok m"
  by (auto simp: rows_ok_def)

lemma table_valid:
  assumes "rows_ok m" and "table m k = Some v"
  shows "valid k v"
proof -
  obtain c where c: "admits k" "m (key k) = Some c" "decode k c = Inr v"
    using assms(2) by (auto simp: table_def split: if_splits option.splits sum.splits)
  obtain v' where v': "decode_kv (key k) c = Inr v'" "valid (ident v') v'" "key k = key (ident v')"
    using assms(1) key_bounds [OF c(1)] c(2) unfolding rows_ok_def by blast
  have "k = ident v'" by (rule key_inject [OF c(1) valid_admits [OF v'(2)] v'(3)])
  moreover have "v' = v" using v'(1) decode_kv [OF c(1), of c] c(3) by simp
  ultimately show ?thesis using v'(2) by simp
qed

lemma rows_ok_absent:
  assumes "rows_ok m" and "admits k" and "table m k = None"
  shows "m (key k) = None"
proof (rule ccontr)
  assume "m (key k) \<noteq> None"
  then obtain c where c: "m (key k) = Some c" by blast
  then obtain v where "decode_kv (key k) c = Inr v" using assms(1) key_bounds [OF assms(2)] unfolding rows_ok_def by blast
  then show False using assms(2,3) c decode_kv [OF assms(2), of c] by (simp add: table_def)
qed

lemma scan_table:
  assumes "rows_ok m" and "sorted_wrt (<) (map fst xs)" and "set xs = {(n, c). in_bounds lo (Some hi) n \<and> m n = Some c}"
  shows "\<exists>vs. decode_pairs decode_kv xs = Inr vs \<and> sorted_wrt (<) (map (key \<circ> ident) vs) \<and> (\<forall>v. v \<in> set vs \<longleftrightarrow> table m (ident v) = Some v)"
proof -
  define g where "g n c = projr (decode_kv n c)" for n c
  have row: "decode_kv n c = Inr (g n c)" "valid (ident (g n c)) (g n c)" "key (ident (g n c)) = n" "m n = Some c" if "(n, c) \<in> set xs" for n c
  proof -
    have n: "in_bounds lo (Some hi) n" "m n = Some c" using that assms(3) by simp_all
    then obtain v where v: "decode_kv n c = Inr v" "valid (ident v) v" "n = key (ident v)" using assms(1) unfolding rows_ok_def by blast
    from v(1) have g: "g n c = v" by (simp add: g_def)
    show "decode_kv n c = Inr (g n c)" "valid (ident (g n c)) (g n c)" "key (ident (g n c)) = n" "m n = Some c" unfolding g by (rule v n v(3) [symmetric])+
  qed
  let ?vs = "map (\<lambda>(n, c). g n c) xs"
  have keys: "map (key \<circ> ident) ?vs = map fst xs" using row(3) by auto
  have "sorted_wrt (<) (map (key \<circ> ident) ?vs)" by (subst keys) (rule assms(2))
  moreover have "v \<in> set ?vs \<longleftrightarrow> table m (ident v) = Some v" for v
  proof
    assume "v \<in> set ?vs"
    then obtain n c where x: "(n, c) \<in> set xs" "v = g n c" by auto
    note r = row [OF x(1), folded x(2)] and a = valid_admits [OF row(2) [OF x(1), folded x(2)]]
    have "decode (ident v) c = Inr v" using decode_kv [OF a, of c] unfolding r(3) r(1) by (rule sym)
    then show "table m (ident v) = Some v" using a r(3,4) by (simp add: table_def)
  next
    assume "table m (ident v) = Some v"
    then obtain c where c: "admits (ident v)" "m (key (ident v)) = Some c" "decode (ident v) c = Inr v"
      by (auto simp: table_def split: if_splits option.splits sum.splits)
    have "(key (ident v), c) \<in> set xs" unfolding assms(3) using c(2) key_bounds [OF c(1)] by simp
    moreover have "g (key (ident v)) c = v" unfolding g_def decode_kv [OF c(1)] c(3) by simp
    ultimately show "v \<in> set ?vs" unfolding set_map by (intro image_eqI [where x = "(key (ident v), c)"]) simp_all
  qed
  moreover have "decode_pairs decode_kv xs = Inr ?vs" by (rule decode_pairs_map) (rule row(1))
  ultimately show ?thesis by (intro exI [of _ ?vs] conjI allI)
qed

end

section \<open>Ordered keys\<close>

text \<open>A prefix and its successor bound exactly the keys with that prefix.\<close>

lemma u8_bound: "unat (b :: u8) < 256"
  using unsigned_less [of b] by simp

lemma u8_successor: "b \<noteq> 0xFF \<Longrightarrow> c < b + 1 \<longleftrightarrow> c \<le> (b :: u8)"
proof -
  assume b: "b \<noteq> 0xFF"
  have "unat b \<noteq> 255"
  proof
    assume "unat b = 255"
    then show False using b by (simp add: word_unat_eq_iff)
  qed
  then have "unat (b + 1) = unat b + 1" using u8_bound [of b] by (simp add: unat_word_ariths)
  then show ?thesis by (simp add: word_less_nat_alt word_le_nat_alt less_Suc_eq_le)
qed

lemma max_bytes_le: "replicate n (0xFF :: u8) \<le> k \<longleftrightarrow> prefix (replicate n 0xFF) k"
proof (induction n arbitrary: k)
  case (Suc n)
  have "\<not> (0xFF :: u8) < b" for b using u8_bound [of b] by (simp add: word_less_nat_alt)
  then show ?case using Suc by (cases k) auto
qed simp

lemma in_bounds_Cons: "in_bounds (a # xs) (Some (a # ys)) (c # cs) \<longleftrightarrow> a = c \<and> in_bounds xs (Some ys) cs"
  by (cases c a rule: linorder_cases) (auto simp: in_bounds_def)

lemma in_bounds_last: "b \<noteq> 0xFF \<Longrightarrow> in_bounds (b # xs) (Some [b + 1]) (c # cs) \<longleftrightarrow> b = c \<and> xs \<le> (cs :: bytes)"
  using u8_successor [of b c] by (cases c b rule: linorder_cases) (auto simp: in_bounds_def)

lemma prefix_bounds:
  assumes "b \<noteq> 0xFF"
  shows "in_bounds (p @ [b] @ replicate n 0xFF) (Some (p @ [b + 1])) k \<longleftrightarrow> prefix (p @ [b] @ replicate n 0xFF) k"
proof (induction p arbitrary: k)
  case Nil
  show ?case
  proof (cases k)
    case (Cons c cs)
    then show ?thesis using in_bounds_last [OF assms, of "replicate n 0xFF" c cs] max_bytes_le [of n cs] by simp
  qed (simp add: in_bounds_def)
next
  case (Cons a p)
  show ?case
  proof (cases k)
    case Nil
    then show ?thesis by (simp add: in_bounds_def)
  next
    case (Cons c cs)
    then show ?thesis using Cons.IH [of cs] by (simp add: in_bounds_Cons)
  qed
qed

text \<open>The order of big-endian encodings is the order of the numbers.\<close>

lemma le_val_snoc: "le_val (bs @ [b]) = le_val bs + 256 ^ length bs * unat b"
  by (induction bs) (simp_all add: algebra_simps)

lemma digit_less: "(a :: nat) < p \<Longrightarrow> x < y \<Longrightarrow> a + p * x < b + p * y"
  using mult_le_mono2 [of "Suc x" y p] by simp

lemma rev_le_val_less:
  "length xs = length ys \<Longrightarrow> le_val (rev xs) < le_val (rev ys) \<longleftrightarrow> xs < ys"
proof (induction xs ys rule: list_induct2)
  case (Cons x xs y ys)
  let ?p = "256 ^ length ys :: nat"
  have b: "le_val (rev xs) < ?p" "le_val (rev ys) < ?p"
    using le_val_bound [of "rev xs"] le_val_bound [of "rev ys"] Cons.hyps by simp_all
  have v: "le_val (rev (x # xs)) = le_val (rev xs) + ?p * unat x" "le_val (rev (y # ys)) = le_val (rev ys) + ?p * unat y"
    using Cons.hyps by (simp_all add: le_val_snoc)
  show ?case
  proof (cases x y rule: linorder_cases)
    case less
    then have "le_val (rev (x # xs)) < le_val (rev (y # ys))" unfolding v by (intro digit_less b) (simp add: word_less_nat_alt)
    then show ?thesis using less by (simp del: rev.simps)
  next
    case equal
    then show ?thesis unfolding v using Cons.IH by simp
  next
    case greater
    then have "le_val (rev (y # ys)) < le_val (rev (x # xs))" unfolding v by (intro digit_less b) (simp add: word_less_nat_alt)
    moreover have "\<not> x < y" "x \<noteq> y" using greater by auto
    ultimately show ?thesis by (simp del: rev.simps)
  qed
qed simp

lemma put_be64_less: "put_be64 a < put_be64 b \<longleftrightarrow> a < b"
proof -
  have "le_val (rev (put_be64 x)) = unat x" for x
  proof -
    have "unat x < 2 ^ 64" using unsigned_less [of x] by simp
    then show ?thesis by (simp add: put_be64_def le_bytes_nat le_val_nat_bytes)
  qed
  then show ?thesis using rev_le_val_less [of "put_be64 a" "put_be64 b"] by (simp add: word_less_nat_alt)
qed

section \<open>The entry codec\<close>

lemma length_concat_u64 [simp]: "length (concat (map put_u64 ids)) = 8 * length ids"
  by (induction ids) simp_all

lemma decode_ids_encoded:
  "decode_ids (length ids) (length pre) (pre @ concat (map put_u64 ids) @ post) = ids"
proof (induction ids arbitrary: pre)
  case (Cons i ids)
  have "slice (length pre) (length pre + 8) (pre @ put_u64 i @ x) = put_u64 i" for x by (simp add: slice_def)
  moreover have "decode_ids (length ids) (length (pre @ put_u64 i)) ((pre @ put_u64 i) @ concat (map put_u64 ids) @ post) = ids"
    by (rule Cons.IH)
  ultimately show ?case by simp
qed simp

lemma length_encodeEntry: "length (encodeEntry e) = 6 + 8 * length (BlockIDs e)"
  by (simp add: encodeEntry_def)

lemma encodeEntry_version: "encodeEntry e ! 0 = valueVersion"
  by (simp add: encodeEntry_def)

text \<open>The encoding up to the count of Documents.\<close>

definition entry_head :: "Entry \<Rightarrow> bytes" where
  "entry_head e = [valueVersion] @ put_u16 (of_nat (length (BlockIDs e))) @ concat (map put_u64 (BlockIDs e))"

lemma length_entry_head [simp]: "length (entry_head e) = 3 + 8 * length (BlockIDs e)"
  by (simp add: entry_head_def)

lemma encodeEntry_split: "encodeEntry e = entry_head e @ put_u16 (DocCount e) @ [if Completed e then 1 else 0]"
  by (simp add: encodeEntry_def entry_head_def)

lemma encodeEntry_count_field: "get_u16 (slice (Suc 0) 3 (encodeEntry e)) = of_nat (length (BlockIDs e))"
  by (simp add: encodeEntry_def slice_def)

lemma decodeEntry_encodeEntry:
  assumes "length (BlockIDs e) < 65536"
  shows "decodeEntry (encodeEntry e) = Inr e"
proof -
  let ?n = "length (BlockIDs e)"
  have n: "unat (of_nat ?n :: u16) = ?n" using assms by (simp add: unat_of_nat)
  have ids: "decode_ids ?n headerLen (encodeEntry e) = BlockIDs e"
    using decode_ids_encoded [of "BlockIDs e" "[valueVersion] @ put_u16 (of_nat ?n)" "put_u16 (DocCount e) @ [if Completed e then 1 else 0]"]
    by (simp add: encodeEntry_def headerLen_def)
  have dc: "slice (3 + 8 * ?n) (3 + 8 * ?n + 2) (encodeEntry e) = put_u16 (DocCount e)"
    unfolding encodeEntry_split by (simp add: slice_def)
  have cp: "encodeEntry e ! (3 + 8 * ?n + 2) = (if Completed e then 1 else 0)"
    unfolding encodeEntry_split by (simp add: nth_append)
  show ?thesis
    using n ids dc cp
    by (simp add: decodeEntry_def length_encodeEntry encodeEntry_version minEncodedLen_def encodeEntry_count_field Let_def
        headerLen_def sizeBlockID_def trailerLen_def)
qed

lemma decodeEntry_overflow:
  assumes "65536 \<le> length (BlockIDs e)"
  shows "decodeEntry (encodeEntry e) = Inl ValueLengthMismatch"
proof -
  have "unat (of_nat (length (BlockIDs e)) :: u16) < 65536" using unsigned_less [of "of_nat (length (BlockIDs e)) :: u16"] by simp
  then show ?thesis
    using assms
    by (simp add: decodeEntry_def length_encodeEntry encodeEntry_version minEncodedLen_def encodeEntry_count_field Let_def
        headerLen_def sizeBlockID_def trailerLen_def)
qed

interpretation tx_table: kv_table txKey encodeEntry "\<lambda>_. decodeEntry" "\<lambda>_. True" "\<lambda>_ e. length (BlockIDs e) < 65536"
  by unfold_locales (simp_all add: txKey_def decodeEntry_encodeEntry)

section \<open>Facts of the store\<close>

lemma pebble_Get: "pebble_ok contents db \<Longrightarrow> pb_Get db k s = Inr v \<Longrightarrow> contents s k = v"
  by (simp add: pebble_ok_def)

lemma pebble_Set:
  "pebble_ok contents db \<Longrightarrow> pb_Set db k v s = (ok, s') \<Longrightarrow>
     contents s' = (contents s)(k \<mapsto> v) \<or> \<not> ok \<and> contents s' = contents s"
  unfolding pebble_ok_def by blast

lemma pebble_Delete:
  "pebble_ok contents db \<Longrightarrow> pb_Delete db k s = (ok, s') \<Longrightarrow>
     contents s' = (contents s)(k := None) \<or> \<not> ok \<and> contents s' = contents s"
  unfolding pebble_ok_def by blast

lemma pebble_Get_total:
  assumes "pebble_ok contents db" and "pebble_total db"
  shows "pb_Get db k s = Inr (contents s k)"
proof -
  obtain v where v: "pb_Get db k s = Inr v" using assms(2) unfolding pebble_total_def by blast
  show ?thesis using pebble_Get [OF assms(1) v] v by simp
qed

lemma pebble_Set_total:
  assumes "pebble_ok contents db" and "pebble_total db"
  shows "\<exists>s'. pb_Set db k v s = (True, s') \<and> contents s' = (contents s)(k \<mapsto> v)"
proof -
  obtain ok s' where r: "pb_Set db k v s = (ok, s')" by (cases "pb_Set db k v s")
  have "fst (pb_Set db k v s)" using assms(2) unfolding pebble_total_def by blast
  then show ?thesis using pebble_Set [OF assms(1) r] r by simp
qed

lemma pebble_Delete_total:
  assumes "pebble_ok contents db" and "pebble_total db"
  shows "\<exists>s'. pb_Delete db k s = (True, s') \<and> contents s' = (contents s)(k := None)"
proof -
  obtain ok s' where r: "pb_Delete db k s = (ok, s')" by (cases "pb_Delete db k s")
  have "fst (pb_Delete db k s)" using assms(2) unfolding pebble_total_def by blast
  then show ?thesis using pebble_Delete [OF assms(1) r] r by simp
qed

lemma pebble_Iter:
  assumes "pebble_ok contents db" and "pb_Iter db lo hi s = (xs, ok)"
  shows "sorted_wrt (<) (map fst xs)" and "(k, v) \<in> set xs \<Longrightarrow> in_bounds lo hi k \<and> contents s k = Some v"
    and "ok \<Longrightarrow> set xs = {(k, v). in_bounds lo hi k \<and> contents s k = Some v}"
  using assms unfolding pebble_ok_def by blast+

lemma mem_pebble_ok: "pebble_ok map_of mem_pebble"
proof -
  have iter: "sorted_wrt (<) (map fst (sort_key fst (filter (\<lambda>(k, v). in_bounds lo hi k) (AList.clearjunk s))))" for lo hi and s :: "(bytes \<times> bytes) list"
  proof -
    have "distinct (map fst (filter (\<lambda>(k, v). in_bounds lo hi k) (AList.clearjunk s)))"
      by (rule distinct_map_filter) (rule distinct_clearjunk)
    then have "distinct (map fst (sort_key fst (filter (\<lambda>(k, v). in_bounds lo hi k) (AList.clearjunk s))))"
      by (simp add: distinct_map)
    then show ?thesis unfolding strict_sorted_iff by simp
  qed
  have mem: "(k, v) \<in> set (AList.clearjunk s) \<longleftrightarrow> map_of s k = Some v" for k v and s :: "(bytes \<times> bytes) list"
    by (metis distinct_clearjunk map_of_clearjunk map_of_eq_Some_iff)
  show ?thesis
    unfolding pebble_ok_def mem_pebble_def by (auto simp: update_conv' delete_conv' restrict_map_def iter mem fun_eq_iff)
qed

lemma pebble_iter_unique:
  assumes "sorted_wrt (<) (map fst xs)" and "sorted_wrt (<) (map fst ys)" and "set xs = set ys"
  shows "xs = (ys :: ('k::linorder \<times> 'v) list)"
  using assms by (intro map_sorted_distinct_set_unique [of fst]) (simp_all add: strict_sorted_iff distinct_map)

section \<open>The Projection as a map\<close>

definition entries :: "('s \<Rightarrow> bytes \<rightharpoonup> bytes) \<Rightarrow> 's Index \<Rightarrow> bytes \<rightharpoonup> Entry" where
  "entries contents ix = tx_table.table (contents (idxdb ix))"

datatype proj_op = OpPut bytes u64 u16 bool | OpAddBlockID bytes u64 | OpIncrementDocCount bytes

fun run_op :: "'s pebble \<Rightarrow> proj_op \<Rightarrow> 's Index \<Rightarrow> proj_err option \<times> 's Index" where
  "run_op db (OpPut txID blockID n c) ix = Index_Put db txID blockID n c ix"
| "run_op db (OpAddBlockID txID blockID) ix = Index_AddBlockID db txID blockID ix"
| "run_op db (OpIncrementDocCount txID) ix = Index_IncrementDocCount db txID ix"

fun spec_op :: "proj_op \<Rightarrow> (bytes \<rightharpoonup> Entry) \<Rightarrow> (bytes \<rightharpoonup> Entry) option" where
  "spec_op (OpPut txID blockID n c) M = Some (M(txID \<mapsto> \<lparr>BlockIDs = [blockID], DocCount = n, Completed = c\<rparr>))"
| "spec_op (OpAddBlockID txID blockID) M =
     (case M txID of None \<Rightarrow> None | Some e \<Rightarrow> Some (M(txID \<mapsto> e\<lparr>BlockIDs := BlockIDs e @ [blockID]\<rparr>)))"
| "spec_op (OpIncrementDocCount txID) M =
     (case M txID of None \<Rightarrow> None
      | Some e \<Rightarrow> if DocCount e = 0xFFFF then None else Some (M(txID \<mapsto> e\<lparr>DocCount := DocCount e + 1\<rparr>)))"

lemma Index_Get_entries:
  "pebble_ok contents db \<Longrightarrow> Index_Get db txID ix = Inr e \<Longrightarrow> entries contents ix txID = Some e"
  by (auto simp: Index_Get_def entries_def tx_table.table_def dest!: pebble_Get split: sum.splits option.splits)

lemma Index_put_entries:
  assumes "pebble_ok contents db" and "Index_put db txID e ix = (err, ix')" and "length (BlockIDs e) < 65536"
  shows "entries contents ix' = (entries contents ix)(txID \<mapsto> e) \<or> err \<noteq> None \<and> entries contents ix' = entries contents ix"
proof -
  obtain ok s where st: "pb_Set db (txKey txID) (encodeEntry e) (idxdb ix) = (ok, s)" by (metis surj_pair)
  have ix': "idxdb ix' = s" "err = (if ok then None else Some ProjIO)" using assms(2) st by (auto simp: Index_put_def)
  show ?thesis
    using pebble_Set [OF assms(1) st] ix' tx_table.table_put [where k = txID and v = e] assms(3) by (auto simp: entries_def)
qed

section \<open>Properties\<close>

text \<open>
  C17: the Projection refines a map from Transactions to entries. On any store that behaves as Pebble
  documents and in which any call may fail, an operation that reports success has made exactly the
  change of the map it stands for, and one that reports an error has made it in full or left the map
  as it was; no operation touches another Transaction. The one condition is that no Transaction has
  more than 65534 Blocks.
\<close>

theorem projection_refines_map:
  assumes "pebble_ok contents db" and "run_op db op ix = (err, ix')"
    and "\<forall>txID e. entries contents ix txID = Some e \<longrightarrow> length (BlockIDs e) < 65535"
  shows "(err = None \<longrightarrow> spec_op op (entries contents ix) = Some (entries contents ix')) \<and>
         (err \<noteq> None \<longrightarrow> entries contents ix' = entries contents ix \<or> spec_op op (entries contents ix) = Some (entries contents ix'))"
proof (cases op)
  case (OpPut txID blockID n c)
  with assms(2) have "Index_put db txID \<lparr>BlockIDs = [blockID], DocCount = n, Completed = c\<rparr> ix = (err, ix')"
    by (simp add: Index_Put_def)
  from Index_put_entries [OF assms(1) this] show ?thesis using OpPut by auto
next
  case (OpAddBlockID txID blockID)
  show ?thesis
  proof (cases "Index_Get db txID ix")
    case (Inl e)
    then show ?thesis using assms(2) OpAddBlockID by (auto simp: Index_AddBlockID_def)
  next
    case (Inr e)
    note e = Index_Get_entries [OF assms(1) Inr]
    have "length (BlockIDs e) < 65535" using assms(3) e by blast
    then have "length (BlockIDs (e\<lparr>BlockIDs := BlockIDs e @ [blockID]\<rparr>)) < 65536" by simp
    moreover have "Index_put db txID (e\<lparr>BlockIDs := BlockIDs e @ [blockID]\<rparr>) ix = (err, ix')"
      using assms(2) OpAddBlockID Inr by (simp add: Index_AddBlockID_def)
    ultimately have "entries contents ix' = (entries contents ix)(txID \<mapsto> e\<lparr>BlockIDs := BlockIDs e @ [blockID]\<rparr>) \<or>
        err \<noteq> None \<and> entries contents ix' = entries contents ix"
      by (intro Index_put_entries [OF assms(1)])
    then show ?thesis using OpAddBlockID e by (elim disjE conjE exE) auto
  qed
next
  case (OpIncrementDocCount txID)
  show ?thesis
  proof (cases "Index_Get db txID ix")
    case (Inl e)
    then show ?thesis using assms(2) OpIncrementDocCount by (auto simp: Index_IncrementDocCount_def)
  next
    case (Inr e)
    note e = Index_Get_entries [OF assms(1) Inr]
    show ?thesis
    proof (cases "DocCount e = 0xFFFF")
      case True
      then show ?thesis using assms(2) OpIncrementDocCount Inr by (auto simp: Index_IncrementDocCount_def)
    next
      case False
      then have "Index_put db txID (e\<lparr>DocCount := DocCount e + 1\<rparr>) ix = (err, ix')"
        using assms(2) OpIncrementDocCount Inr by (simp add: Index_IncrementDocCount_def)
      moreover have "length (BlockIDs e) < 65535" using assms(3) e by blast
      then have "length (BlockIDs (e\<lparr>DocCount := DocCount e + 1\<rparr>)) < 65536" by simp
      ultimately have "entries contents ix' = (entries contents ix)(txID \<mapsto> e\<lparr>DocCount := DocCount e + 1\<rparr>) \<or>
          err \<noteq> None \<and> entries contents ix' = entries contents ix"
        by (intro Index_put_entries [OF assms(1)])
      then show ?thesis using OpIncrementDocCount e False by (elim disjE conjE exE) auto
    qed
  qed
qed

definition sample_index :: "(bytes \<times> bytes) list Index" where
  "sample_index = snd (Index_Put mem_pebble (lit ''t1'') 7 2 False \<lparr>idxdb = [], appliedIndex = 4, durableAppliedIndex = 0\<rparr>)"

lemma sample_entries: "entries map_of sample_index = [lit ''t1'' \<mapsto> \<lparr>BlockIDs = [7], DocCount = 2, Completed = False\<rparr>]"
proof -
  let ?e = "\<lparr>BlockIDs = [7], DocCount = 2, Completed = False\<rparr>" and ?ix = "\<lparr>idxdb = [], appliedIndex = 4, durableAppliedIndex = 0\<rparr>"
  have "Index_put mem_pebble (lit ''t1'') ?e ?ix = (None, sample_index)"
    by (simp add: sample_index_def Index_Put_def Index_put_def mem_pebble_def)
  from Index_put_entries [OF mem_pebble_ok this] have "entries map_of sample_index = (entries map_of ?ix)(lit ''t1'' \<mapsto> ?e)" by simp
  then show ?thesis by (simp add: entries_def tx_table.table_def fun_eq_iff)
qed

theorem projection_refines_map_witness:
  "spec_op (OpAddBlockID (lit ''t1'') 9) (entries map_of sample_index) =
     Some (entries map_of (snd (run_op mem_pebble (OpAddBlockID (lit ''t1'') 9) sample_index)))"
proof -
  have err: "fst (run_op mem_pebble (OpAddBlockID (lit ''t1'') 9) sample_index) = None"
  proof -
    have "Index_Get mem_pebble (lit ''t1'') sample_index = Inr \<lparr>BlockIDs = [7], DocCount = 2, Completed = False\<rparr>"
      by (simp add: Index_Get_def sample_index_def Index_Put_def Index_put_def mem_pebble_def decodeEntry_encodeEntry)
    then show ?thesis by (simp add: Index_AddBlockID_def Index_put_def mem_pebble_def)
  qed
  have "\<forall>txID e. entries map_of sample_index txID = Some e \<longrightarrow> length (BlockIDs e) < 65535"
    by (simp add: sample_entries)
  from projection_refines_map [OF mem_pebble_ok _ this, of "OpAddBlockID (lit ''t1'') 9"
      "fst (run_op mem_pebble (OpAddBlockID (lit ''t1'') 9) sample_index)" "snd (run_op mem_pebble (OpAddBlockID (lit ''t1'') 9) sample_index)"]
  show ?thesis using err by simp
qed

text \<open>
  The encoding of an entry counts its Blocks in 16 bits. Adding a Block to a Transaction that has
  65535 reports success, and no later read of that Transaction succeeds.
\<close>

theorem projection_block_count_overflow:
  assumes "pebble_ok contents db" and "Index_Get db txID ix = Inr e" and "length (BlockIDs e) = 65535"
    and "Index_AddBlockID db txID blockID ix = (None, ix')"
  shows "Index_Get db txID ix' = Inl ValueLengthMismatch \<or> Index_Get db txID ix' = Inl ProjIO"
proof -
  let ?e = "e\<lparr>BlockIDs := BlockIDs e @ [blockID]\<rparr>"
  have ix': "Index_put db txID ?e ix = (None, ix')" using assms by (simp add: Index_AddBlockID_def)
  then have "contents (idxdb ix') (txKey txID) = Some (encodeEntry ?e)"
    using pebble_Set [OF assms(1)] by (fastforce simp: Index_put_def split: prod.splits if_splits)
  then show ?thesis
    using assms(3) decodeEntry_overflow [of ?e] by (auto simp: Index_Get_def dest!: pebble_Get [OF assms(1)] split: sum.splits option.splits)
qed

theorem projection_block_count_overflow_witness:
  "Index_Get mem_pebble (lit ''t1'')
     (snd (Index_AddBlockID mem_pebble (lit ''t1'') 1
        \<lparr>idxdb = [(txKey (lit ''t1''), encodeEntry \<lparr>BlockIDs = replicate 65535 0, DocCount = 1, Completed = True\<rparr>)], appliedIndex = 0, durableAppliedIndex = 0\<rparr>)) \<in>
     {Inl ValueLengthMismatch, Inl ProjIO}"
proof -
  let ?e = "\<lparr>BlockIDs = replicate 65535 0, DocCount = 1, Completed = True\<rparr>"
  let ?ix = "\<lparr>idxdb = [(txKey (lit ''t1''), encodeEntry ?e)], appliedIndex = 0, durableAppliedIndex = 0\<rparr>"
  have n: "length (BlockIDs ?e) = 65535" by (simp only: Entry.simps length_replicate)
  have g: "Index_Get mem_pebble (lit ''t1'') ?ix = Inr ?e"
    using decodeEntry_encodeEntry [of ?e] n by (simp add: Index_Get_def mem_pebble_def)
  have "Index_AddBlockID mem_pebble (lit ''t1'') 1 ?ix = (None, snd (Index_AddBlockID mem_pebble (lit ''t1'') 1 ?ix))"
    using g by (simp add: Index_AddBlockID_def Index_put_def mem_pebble_def)
  from projection_block_count_overflow [OF mem_pebble_ok g n this] show ?thesis by blast
qed



text \<open>
  The applied index survives a restart and never runs ahead of the store. After a successful
  persist, opening the Projection reports that index; after a failed one it reports the new index or
  what it would have reported before; the rows of the Transactions are untouched in every case.
\<close>

theorem applied_index_durable:
  assumes "pebble_ok contents db" and "PersistAppliedIndex db ai ix = (err, ix')" and "Index_Open db (idxdb ix') = Inr ix''"
  shows "entries contents ix'' = entries contents ix \<and>
         (durableAppliedIndex ix'' = ai \<or> err \<noteq> None \<and> contents (idxdb ix') = contents (idxdb ix))"
proof -
  obtain ok s where st: "pb_Set db appliedIndexKey (put_be64 ai) (idxdb ix) = (ok, s)" by (metis surj_pair)
  have ix': "idxdb ix' = s" "ok \<or> err \<noteq> None" using assms(2) st by (auto simp: PersistAppliedIndex_def split: if_splits)
  have ix'': "idxdb ix'' = s" using assms(3) ix' by (auto simp: Index_Open_def loadAppliedIndex_def split: sum.splits option.splits if_splits)
  have foreign: "appliedIndexKey \<noteq> txKey t" for t by (simp add: appliedIndexKey_def txKey_def txKeyPrefix_def lit_def)
  show ?thesis
  proof (cases "contents s = (contents (idxdb ix))(appliedIndexKey \<mapsto> put_be64 ai)")
    case True
    have "durableAppliedIndex ix'' = ai"
      using assms(3) ix' True
      by (auto simp: Index_Open_def loadAppliedIndex_def appliedIndexValueLen_def dest!: pebble_Get [OF assms(1)] split: sum.splits option.splits if_splits)
    moreover have "entries contents ix'' = entries contents ix"
      unfolding entries_def ix'' True tx_table.table_foreign [OF foreign] ..
    ultimately show ?thesis by simp
  next
    case False
    then show ?thesis using pebble_Set [OF assms(1) st] ix' ix'' by (auto simp: entries_def)
  qed
qed

theorem applied_index_durable_witness:
  "entries map_of \<lparr>idxdb = [(appliedIndexKey, put_be64 12)], appliedIndex = 0, durableAppliedIndex = 12\<rparr> =
   entries map_of \<lparr>idxdb = [], appliedIndex = 12, durableAppliedIndex = 0\<rparr>"
  using applied_index_durable [OF mem_pebble_ok, of 12 "\<lparr>idxdb = [], appliedIndex = 12, durableAppliedIndex = 0\<rparr>" None
      "\<lparr>idxdb = [(appliedIndexKey, put_be64 12)], appliedIndex = 12, durableAppliedIndex = 12\<rparr>"
      "\<lparr>idxdb = [(appliedIndexKey, put_be64 12)], appliedIndex = 0, durableAppliedIndex = 12\<rparr>"]
  by (simp add: PersistAppliedIndex_def Index_Open_def loadAppliedIndex_def mem_pebble_def appliedIndexValueLen_def)

end
