(* ===== verification/Projection_Resolve.thy ===== *)
theory Projection_Resolve
  imports Projection_Store Block_Index_File
begin

text \<open>
  Resolving Documents through the Projection: \<open>internal/index/resolution.go\<close>. The Projection names
  the Blocks of a Transaction and the number of its Documents; the Documents themselves are in the
  index files of those Blocks. The path adapter of the resolver is the map from a Block id to the
  contents of the file at its path, and \<open>reads\<close> holds the outcomes of the file operations of the
  first, second, ... index file that is opened.
\<close>

section \<open>The resolver\<close>

datatype open_err = IdxNotExist | IdxOpenErr idx_err

definition open_index :: "(u64 \<rightharpoonup> bytes) \<Rightarrow> io_outcome list \<Rightarrow> u64 \<Rightarrow> open_err + IndexEntry list" where
  "open_index files sched blockID =
     (case files blockID of None \<Rightarrow> Inl IdxNotExist
      | Some content \<Rightarrow> (case OpenIndexReader content sched of Inl e \<Rightarrow> Inl (IdxOpenErr e) | Inr es \<Rightarrow> Inr es))"

datatype corrupt_cause =
    ProjectionNil
  | NoBlockIDs
  | EntryUnreadable proj_err
  | PathAdapterNil
  | BlockUnreadable u64 open_err
  | MissingFromBlock u64
  | DocCountMismatch u16 nat

datatype resolve_err =
    ResolveNotFound
  | ErrDocumentNotFound
  | ErrCorrupt corrupt_cause

record ResolvedDocument =
  rdEntry :: IndexEntry
  rdBlockID :: u64

record 's Resolver =
  projection :: "'s Index option"
  blockIndexPath :: "(u64 \<rightharpoonup> bytes) option"

definition transactionEntry :: "'s pebble \<Rightarrow> 's Resolver \<Rightarrow> bytes \<Rightarrow> resolve_err + Entry" where
  "transactionEntry db r txID =
     (case projection r of None \<Rightarrow> Inl (ErrCorrupt ProjectionNil)
      | Some ix \<Rightarrow>
          (case Index_Get db txID ix of
             Inr entry \<Rightarrow> if BlockIDs entry = [] then Inl (ErrCorrupt NoBlockIDs) else Inr entry
           | Inl e \<Rightarrow> Inl (if e = ErrNotFound then ResolveNotFound else ErrCorrupt (EntryUnreadable e))))"

definition blockEntries :: "'s Resolver \<Rightarrow> io_outcome list \<Rightarrow> bytes \<Rightarrow> u64 \<Rightarrow> resolve_err + IndexEntry list" where
  "blockEntries r sched txID blockID =
     (case blockIndexPath r of None \<Rightarrow> Inl (ErrCorrupt PathAdapterNil)
      | Some files \<Rightarrow>
          (case open_index files sched blockID of
             Inl e \<Rightarrow> Inl (ErrCorrupt (BlockUnreadable blockID e))
           | Inr es \<Rightarrow>
               (let found = IndexReader_FindByTransaction es txID in
                if found = [] then Inl (ErrCorrupt (MissingFromBlock blockID)) else Inr found)))"

text \<open>The loop of \<open>ListDocuments\<close> over the Block ids; \<open>k\<close> counts the files opened so far.\<close>

fun list_blocks :: "'s Resolver \<Rightarrow> (nat \<Rightarrow> io_outcome list) \<Rightarrow> bytes \<Rightarrow> nat \<Rightarrow> u64 list \<Rightarrow> resolve_err + ResolvedDocument list" where
  "list_blocks r reads txID k [] = Inr []"
| "list_blocks r reads txID k (blockID # ids) =
     (case blockEntries r (reads k) txID blockID of Inl e \<Rightarrow> Inl e
      | Inr es \<Rightarrow>
          (case list_blocks r reads txID (Suc k) ids of Inl e \<Rightarrow> Inl e
           | Inr docs \<Rightarrow> Inr (map (\<lambda>e. \<lparr>rdEntry = e, rdBlockID = blockID\<rparr>) es @ docs)))"

definition ListDocuments :: "'s pebble \<Rightarrow> 's Resolver \<Rightarrow> (nat \<Rightarrow> io_outcome list) \<Rightarrow> bytes \<Rightarrow> resolve_err + ResolvedDocument list" where
  "ListDocuments db r reads txID =
     (case transactionEntry db r txID of
        Inl e \<Rightarrow> if e = ResolveNotFound then Inr [] else Inl e
      | Inr entry \<Rightarrow>
          (case list_blocks r reads txID 0 (BlockIDs entry) of Inl e \<Rightarrow> Inl e
           | Inr docs \<Rightarrow>
               if length docs \<noteq> unat (DocCount entry) then Inl (ErrCorrupt (DocCountMismatch (DocCount entry) (length docs))) else Inr docs))"

definition ResolveDocument :: "'s pebble \<Rightarrow> 's Resolver \<Rightarrow> (nat \<Rightarrow> io_outcome list) \<Rightarrow> bytes \<Rightarrow> bytes \<Rightarrow> resolve_err + ResolvedDocument" where
  "ResolveDocument db r reads txID docName =
     (case ListDocuments db r reads txID of Inl e \<Rightarrow> Inl e
      | Inr docs \<Rightarrow> (case find (\<lambda>d. DocName (rdEntry d) = docName) docs of Some d \<Rightarrow> Inr d | None \<Rightarrow> Inl ErrDocumentNotFound))"

definition ContainsDocument :: "'s pebble \<Rightarrow> 's Resolver \<Rightarrow> (nat \<Rightarrow> io_outcome list) \<Rightarrow> bytes \<Rightarrow> bytes \<Rightarrow> resolve_err + bool" where
  "ContainsDocument db r reads txID docName =
     (case ResolveDocument db r reads txID docName of Inr _ \<Rightarrow> Inr True
      | Inl e \<Rightarrow> if e = ResolveNotFound \<or> e = ErrDocumentNotFound then Inr False else Inl e)"

definition blockContainsDocumentLenient :: "'s Resolver \<Rightarrow> io_outcome list \<Rightarrow> bytes \<Rightarrow> bytes \<Rightarrow> u64 \<Rightarrow> resolve_err + bool" where
  "blockContainsDocumentLenient r sched txID docName blockID =
     (case blockIndexPath r of None \<Rightarrow> Inl (ErrCorrupt PathAdapterNil)
      | Some files \<Rightarrow>
          (case open_index files sched blockID of Inl _ \<Rightarrow> Inr False
           | Inr es \<Rightarrow> Inr (\<not> isl (IndexReader_Find es txID docName))))"

fun lenient_blocks :: "'s Resolver \<Rightarrow> (nat \<Rightarrow> io_outcome list) \<Rightarrow> bytes \<Rightarrow> bytes \<Rightarrow> nat \<Rightarrow> u64 list \<Rightarrow> resolve_err + bool" where
  "lenient_blocks r reads txID docName k [] = Inr False"
| "lenient_blocks r reads txID docName k (blockID # ids) =
     (case blockContainsDocumentLenient r (reads k) txID docName blockID of Inl e \<Rightarrow> Inl e
      | Inr True \<Rightarrow> Inr True
      | Inr False \<Rightarrow> lenient_blocks r reads txID docName (Suc k) ids)"

definition ContainsDocumentLenient :: "'s pebble \<Rightarrow> 's Resolver \<Rightarrow> (nat \<Rightarrow> io_outcome list) \<Rightarrow> bytes \<Rightarrow> bytes \<Rightarrow> resolve_err + bool" where
  "ContainsDocumentLenient db r reads txID docName =
     (case transactionEntry db r txID of
        Inl e \<Rightarrow> if e = ResolveNotFound then Inr False else Inl e
      | Inr entry \<Rightarrow> lenient_blocks r reads txID docName 0 (BlockIDs entry))"

section \<open>What the index files hold\<close>

text \<open>\<open>F\<close> gives the entries of each index file; times are kept to the microsecond on disk.\<close>

definition indexed :: "(u64 \<rightharpoonup> bytes) \<Rightarrow> (u64 \<rightharpoonup> IndexEntry list) \<Rightarrow> bool" where
  "indexed files F \<longleftrightarrow> (\<forall>b. files b = map_option idx_file_bytes (F b)) \<and>
     (\<forall>b es. F b = Some es \<longrightarrow> (\<forall>e \<in> set es. entry_storable e \<and> stored_entry e = e))"

lemma open_index_indexed:
  assumes "indexed files F"
  shows "open_index files [] b = (case F b of None \<Rightarrow> Inl IdxNotExist | Some es \<Rightarrow> Inr es)"
    and "open_index files sched b = Inr es \<Longrightarrow> F b = Some es"
proof -
  show calm: "open_index files [] b = (case F b of None \<Rightarrow> Inl IdxNotExist | Some es \<Rightarrow> Inr es)"
  proof (cases "F b")
    case (Some es)
    then have "\<forall>e \<in> set es. entry_storable e" "map stored_entry es = es" using assms by (auto simp: indexed_def map_idI)
    then show ?thesis using assms OpenIndexReader_file [of es] Some by (simp add: open_index_def indexed_def)
  qed (use assms in \<open>simp add: open_index_def indexed_def\<close>)
  show "open_index files sched b = Inr es \<Longrightarrow> F b = Some es"
    using calm OpenIndexReader_quiet by (fastforce simp: open_index_def split: option.splits sum.splits)
qed

definition tx_entries :: "(u64 \<rightharpoonup> IndexEntry list) \<Rightarrow> bytes \<Rightarrow> u64 \<Rightarrow> IndexEntry list" where
  "tx_entries F txID b = (case F b of None \<Rightarrow> [] | Some es \<Rightarrow> filter (\<lambda>e. TransactionID e = txID) es)"

definition tx_docs :: "(u64 \<rightharpoonup> IndexEntry list) \<Rightarrow> bytes \<Rightarrow> u64 list \<Rightarrow> ResolvedDocument list" where
  "tx_docs F txID ids = concat (map (\<lambda>b. map (\<lambda>e. \<lparr>rdEntry = e, rdBlockID = b\<rparr>) (tx_entries F txID b)) ids)"

lemma tx_docs_simps [simp]:
  "tx_docs F txID [] = []" "tx_docs F txID (b # ids) = map (\<lambda>e. \<lparr>rdEntry = e, rdBlockID = b\<rparr>) (tx_entries F txID b) @ tx_docs F txID ids"
  "tx_docs F txID (ids @ ids') = tx_docs F txID ids @ tx_docs F txID ids'"
  by (simp_all add: tx_docs_def)

lemma tx_docs_length: "length (tx_docs F txID ids) = sum_list (map (\<lambda>b. length (tx_entries F txID b)) ids)"
  by (induction ids) simp_all

lemma list_blocks_sound:
  assumes "blockIndexPath r = Some files" and "indexed files F"
  shows "list_blocks r reads txID k ids = Inr docs \<Longrightarrow> docs = tx_docs F txID ids \<and> (\<forall>b \<in> set ids. tx_entries F txID b \<noteq> [])"
proof (induction ids arbitrary: k docs)
  case (Cons b ids)
  obtain es docs' where b: "blockEntries r (reads k) txID b = Inr es" and l: "list_blocks r reads txID (Suc k) ids = Inr docs'"
      "docs = map (\<lambda>e. \<lparr>rdEntry = e, rdBlockID = b\<rparr>) es @ docs'"
    using Cons.prems by (auto split: sum.splits)
  obtain all where a: "open_index files (reads k) b = Inr all" "es = filter (\<lambda>e. TransactionID e = txID) all" "es \<noteq> []"
    using b assms(1) by (auto simp: blockEntries_def IndexReader_FindByTransaction_def Let_def split: sum.splits if_splits)
  have "tx_entries F txID b = es" using open_index_indexed(2) [OF assms(2) a(1)] a(2) by (simp add: tx_entries_def)
  then show ?case using Cons.IH [OF l(1)] l(2) a(3) by simp
qed simp

lemma list_blocks_total:
  assumes "blockIndexPath r = Some files" and "indexed files F" and "\<forall>b \<in> set ids. tx_entries F txID b \<noteq> []"
  shows "list_blocks r (\<lambda>_. []) txID k ids = Inr (tx_docs F txID ids)"
  using assms(3)
proof (induction ids arbitrary: k)
  case (Cons b ids)
  then obtain es where es: "F b = Some es" by (cases "F b") (auto simp: tx_entries_def)
  then have "blockEntries r [] txID b = Inr (tx_entries F txID b)"
    using Cons.prems assms(1) open_index_indexed(1) [OF assms(2), of b]
    by (auto simp: blockEntries_def IndexReader_FindByTransaction_def tx_entries_def Let_def)
  then show ?case using Cons by simp
qed simp

lemma Index_Get_total:
  assumes "pebble_ok contents db" and "pebble_total db"
  shows "entries contents ix txID = Some e \<Longrightarrow> Index_Get db txID ix = Inr e"
  using pebble_Get_total [OF assms] by (auto simp: Index_Get_def entries_def tx_table.table_def split: option.splits sum.splits)

lemma Index_Get_missing:
  "pebble_ok contents db \<Longrightarrow> Index_Get db txID ix = Inl ErrNotFound \<Longrightarrow> entries contents ix txID = None"
  by (auto simp: Index_Get_def entries_def tx_table.table_def dest!: pebble_Get split: sum.splits option.splits)

section \<open>Properties\<close>

text \<open>
  C9: a Transaction is served whole or not at all. Whatever reads fail, a listing that succeeds returns
  exactly the index entries of the Transaction in the Blocks the Projection names, in that order, and
  as many as the Projection counts; every one of those Blocks has been read and holds at least one.
  A resolved Document is one of them and carries the requested name; and when nothing fails and the
  index files agree with the Projection, the listing does succeed.
\<close>

theorem resolve_whole_transaction:
  assumes "pebble_ok contents db" and "projection r = Some ix" and "blockIndexPath r = Some files" and "indexed files F"
  shows "(\<forall>docs. ListDocuments db r reads txID = Inr docs \<longrightarrow>
            (case entries contents ix txID of None \<Rightarrow> docs = []
             | Some e \<Rightarrow> docs = tx_docs F txID (BlockIDs e) \<and> length docs = unat (DocCount e) \<and> (\<forall>b \<in> set (BlockIDs e). tx_entries F txID b \<noteq> []))) \<and>
         (\<forall>d. ResolveDocument db r reads txID docName = Inr d \<longrightarrow>
            (\<exists>e. entries contents ix txID = Some e \<and> d \<in> set (tx_docs F txID (BlockIDs e)) \<and> DocName (rdEntry d) = docName)) \<and>
         (\<forall>e. pebble_total db \<and> entries contents ix txID = Some e \<and> BlockIDs e \<noteq> [] \<and> (\<forall>b \<in> set (BlockIDs e). tx_entries F txID b \<noteq> []) \<and>
              length (tx_docs F txID (BlockIDs e)) = unat (DocCount e) \<longrightarrow>
            ListDocuments db r (\<lambda>_. []) txID = Inr (tx_docs F txID (BlockIDs e)))"
proof -
  have sound: "case entries contents ix txID of None \<Rightarrow> docs = []
      | Some e \<Rightarrow> docs = tx_docs F txID (BlockIDs e) \<and> length docs = unat (DocCount e) \<and> (\<forall>b \<in> set (BlockIDs e). tx_entries F txID b \<noteq> [])"
    if l: "ListDocuments db r reads txID = Inr docs" for docs
  proof (cases "Index_Get db txID ix")
    case (Inl e)
    then have "e = ErrNotFound" "docs = []" using l assms(2) by (auto simp: ListDocuments_def transactionEntry_def split: if_splits)
    then show ?thesis using Index_Get_missing [OF assms(1)] Inl by simp
  next
    case (Inr e)
    then have "list_blocks r reads txID 0 (BlockIDs e) = Inr docs" "length docs = unat (DocCount e)"
      using l assms(2) by (auto simp: ListDocuments_def transactionEntry_def split: if_splits sum.splits)
    then show ?thesis using list_blocks_sound [OF assms(3,4)] Index_Get_entries [OF assms(1) Inr] by fastforce
  qed
  have resolved: "\<exists>e. entries contents ix txID = Some e \<and> d \<in> set (tx_docs F txID (BlockIDs e)) \<and> DocName (rdEntry d) = docName"
    if rd: "ResolveDocument db r reads txID docName = Inr d" for d
  proof -
    obtain docs where l: "ListDocuments db r reads txID = Inr docs" "find (\<lambda>d. DocName (rdEntry d) = docName) docs = Some d"
      using rd by (auto simp: ResolveDocument_def split: sum.splits option.splits)
    then have "d \<in> set docs" "DocName (rdEntry d) = docName" by (auto simp: find_Some_iff)
    then show ?thesis using sound [OF l(1)] by (cases "entries contents ix txID") auto
  qed
  have "ListDocuments db r (\<lambda>_. []) txID = Inr (tx_docs F txID (BlockIDs e))"
    if "pebble_total db" "entries contents ix txID = Some e" "BlockIDs e \<noteq> []" "\<forall>b \<in> set (BlockIDs e). tx_entries F txID b \<noteq> []"
      "length (tx_docs F txID (BlockIDs e)) = unat (DocCount e)" for e
    using list_blocks_total [OF assms(3,4) that(4)] Index_Get_total [OF assms(1) that(1,2)] that(3,5) assms(2)
    by (simp add: ListDocuments_def transactionEntry_def)
  then show ?thesis using sound resolved by blast
qed

text \<open>A Transaction of two Documents in Block 7.\<close>

definition sample_tx_entry :: "bytes \<Rightarrow> IndexEntry" where
  "sample_tx_entry name = sample_entry\<lparr>TransactionID := lit ''t1'', DocName := name\<rparr>"

definition sample_tx_files :: "u64 \<rightharpoonup> IndexEntry list" where
  "sample_tx_files = [7 \<mapsto> [sample_tx_entry (lit ''a''), sample_tx_entry (lit ''b'')]]"

lemma sample_tx_entry_storable:
  "length name < 100 \<Longrightarrow> entry_storable (sample_tx_entry name) \<and> stored_entry (sample_tx_entry name) = sample_tx_entry name"
  by (simp add: entry_storable_def sample_tx_entry_def sample_entry_def entry_typed_def int64_range_def stored_entry_def time_UnixMicro_def
      time_to_UnixMicro_def wrap64_def validateEntryFieldLens_def encodeIndexEntry_def idxMaxEntryLen_def maxUint16_def idxEntryVersion_def idxEntryVersionV2_def lit_def)

lemma sample_tx_indexed: "indexed (map_option idx_file_bytes \<circ> sample_tx_files) sample_tx_files"
  using sample_tx_entry_storable by (auto simp: indexed_def sample_tx_files_def lit_def)

theorem resolve_whole_transaction_witness:
  "ListDocuments mem_pebble \<lparr>projection = Some sample_index, blockIndexPath = Some (map_option idx_file_bytes \<circ> sample_tx_files)\<rparr> (\<lambda>_. []) (lit ''t1'') =
     Inr [\<lparr>rdEntry = sample_tx_entry (lit ''a''), rdBlockID = 7\<rparr>, \<lparr>rdEntry = sample_tx_entry (lit ''b''), rdBlockID = 7\<rparr>]"
proof -
  have d: "tx_entries sample_tx_files (lit ''t1'') 7 = [sample_tx_entry (lit ''a''), sample_tx_entry (lit ''b'')]"
    by (simp add: tx_entries_def sample_tx_files_def sample_tx_entry_def)
  let ?r = "\<lparr>projection = Some sample_index, blockIndexPath = Some (map_option idx_file_bytes \<circ> sample_tx_files)\<rparr>"
  have e: "entries map_of sample_index (lit ''t1'') = Some \<lparr>BlockIDs = [7], DocCount = 2, Completed = False\<rparr>" by (simp add: sample_entries)
  have "ListDocuments mem_pebble ?r (\<lambda>_. []) (lit ''t1'') = Inr (tx_docs sample_tx_files (lit ''t1'') (BlockIDs \<lparr>BlockIDs = [7], DocCount = 2, Completed = False\<rparr>))"
    by (rule resolve_whole_transaction [OF mem_pebble_ok _ _ sample_tx_indexed, of ?r sample_index "\<lambda>_. []" "lit ''t1''", THEN conjunct2, THEN conjunct2, rule_format])
      (simp_all add: mem_pebble_total e d)
  then show ?thesis by (simp add: d)
qed

end
