(* ===== verification/Projection_Uploads.thy ===== *)
theory Projection_Uploads
  imports Projection_Store Upload_Records
begin

text \<open>
  \<open>internal/index/upload_outbox.go\<close> and \<open>confirmed_upload_catalog.go\<close>: the two tables of the
  Projection that record which sealed Blocks still have to be uploaded and which are known to be
  stored by the Backend. Both are instances of \<open>scan_table\<close>. The JSON text of a confirmed upload is a
  parameter, with the law that decoding inverts encoding on UTF-8 text and 64-bit integers.
\<close>

section \<open>Signed fields\<close>

definition is_int64 :: "int \<Rightarrow> bool" where
  "is_int64 x \<longleftrightarrow> - (2 ^ 63) \<le> x \<and> x < 2 ^ 63"

definition putNonNegativeInt64 :: "int \<Rightarrow> bytes" where
  "putNonNegativeInt64 v = put_u64 (of_int v)"

datatype upload_err =
    UploadBlockIDRequired
  | SealedSizeNegative
  | SealedAtNegative
  | GenerationNegative
  | UploadIO
  | ErrPendingUploadNotFound
  | UploadKeyLength
  | UploadValueLength
  | UploadValueVersion
  | FieldOverflows string
  | ErrConfirmedUploadNotFound
  | ConfirmedAtNegative
  | ObjectKeyRequired
  | ObjectSizeNegative
  | ObjectTokenRequired
  | ConfirmedJSON
  | ConfirmedBlockIDMismatch

definition readNonNegativeInt64 :: "bytes \<Rightarrow> string \<Rightarrow> upload_err + int" where
  "readNonNegativeInt64 buf field =
     (let raw = get_u64 buf in if 0x7FFFFFFFFFFFFFFF < raw then Inl (FieldOverflows field) else Inr (uint raw))"

section \<open>Pending uploads\<close>

definition pendingUploadPrefix :: bytes where "pendingUploadPrefix = [0] @ lit ''upload'' @ [0]"
definition pendingUploadUpperBound :: bytes where "pendingUploadUpperBound = [0] @ lit ''upload'' @ [1]"
definition pendingUploadValueVersionV1 :: u8 where "pendingUploadValueVersionV1 = 1"
definition pendingUploadValueVersion :: u8 where "pendingUploadValueVersion = 2"
definition pendingUploadKeyLen :: nat where "pendingUploadKeyLen = length pendingUploadPrefix + sizeBlockID"
definition pendingUploadValueLenV1 :: nat where "pendingUploadValueLenV1 = 1 + sizeBlockID + 8 + 8"
definition pendingUploadValueLen :: nat where "pendingUploadValueLen = pendingUploadValueLenV1 + 8"

record PendingUpload =
  puBlockID :: u64
  puShardID :: u64
  puSealedSizeBytes :: int
  puSealedAtUs :: int
  puUploadGeneration :: int

definition pendingUploadKey :: "u64 \<Rightarrow> bytes" where
  "pendingUploadKey blockID = pendingUploadPrefix @ put_be64 blockID"

definition encodePendingUpload :: "PendingUpload \<Rightarrow> bytes" where
  "encodePendingUpload u =
     [pendingUploadValueVersion] @ put_u64 (puShardID u) @ putNonNegativeInt64 (puSealedSizeBytes u) @
     putNonNegativeInt64 (puSealedAtUs u) @ putNonNegativeInt64 (puUploadGeneration u)"

definition requirePendingUploadValueLen :: "bytes \<Rightarrow> nat \<Rightarrow> upload_err option" where
  "requirePendingUploadValueLen val want = (if length val \<noteq> want then Some UploadValueLength else None)"

definition pendingUploadValueVersionForDecode :: "bytes \<Rightarrow> upload_err + u8" where
  "pendingUploadValueVersionForDecode val =
     (if val = [] then Inl UploadValueLength
      else let version = val ! 0 in
        if version = pendingUploadValueVersionV1 then
          (case requirePendingUploadValueLen val pendingUploadValueLenV1 of Some e \<Rightarrow> Inl e | None \<Rightarrow> Inr version)
        else if version = pendingUploadValueVersion then
          (case requirePendingUploadValueLen val pendingUploadValueLen of Some e \<Rightarrow> Inl e | None \<Rightarrow> Inr version)
        else Inl UploadValueVersion)"

definition decodePendingUploadGeneration :: "u8 \<Rightarrow> bytes \<Rightarrow> upload_err + int" where
  "decodePendingUploadGeneration version val =
     (if version = pendingUploadValueVersionV1 then Inr 0 else readNonNegativeInt64 (slice 25 33 val) ''upload_generation'')"

definition decodePendingUpload :: "bytes \<Rightarrow> bytes \<Rightarrow> upload_err + PendingUpload" where
  "decodePendingUpload key val =
     (if length key \<noteq> pendingUploadKeyLen then Inl UploadKeyLength
      else case pendingUploadValueVersionForDecode val of Inl e \<Rightarrow> Inl e | Inr version \<Rightarrow>
      case readNonNegativeInt64 (slice 9 17 val) ''sealed_size'' of Inl e \<Rightarrow> Inl e | Inr sealedSize \<Rightarrow>
      case readNonNegativeInt64 (slice 17 25 val) ''sealed_at_us'' of Inl e \<Rightarrow> Inl e | Inr sealedAt \<Rightarrow>
      case decodePendingUploadGeneration version val of Inl e \<Rightarrow> Inl e | Inr uploadGeneration \<Rightarrow>
        Inr \<lparr>puBlockID = get_be64 (drop (length pendingUploadPrefix) key), puShardID = get_u64 (slice 1 9 val),
             puSealedSizeBytes = sealedSize, puSealedAtUs = sealedAt, puUploadGeneration = uploadGeneration\<rparr>)"

text \<open>The result of a durable write of the Projection.\<close>

definition durable :: "'s Index \<Rightarrow> bool \<times> 's \<Rightarrow> upload_err option \<times> 's Index" where
  "durable ix r = (if fst r then None else Some UploadIO, ix\<lparr>idxdb := snd r\<rparr>)"

definition PutPendingUpload :: "'s pebble \<Rightarrow> PendingUpload \<Rightarrow> 's Index \<Rightarrow> upload_err option \<times> 's Index" where
  "PutPendingUpload db u ix =
     (if puBlockID u = 0 then (Some UploadBlockIDRequired, ix)
      else if puSealedSizeBytes u < 0 then (Some SealedSizeNegative, ix)
      else if puSealedAtUs u < 0 then (Some SealedAtNegative, ix)
      else if puUploadGeneration u < 0 then (Some GenerationNegative, ix)
      else durable ix (pb_Set db (pendingUploadKey (puBlockID u)) (encodePendingUpload u) (idxdb ix)))"

definition DeletePendingUpload :: "'s pebble \<Rightarrow> u64 \<Rightarrow> 's Index \<Rightarrow> upload_err option \<times> 's Index" where
  "DeletePendingUpload db blockID ix =
     (if blockID = 0 then (Some UploadBlockIDRequired, ix)
      else durable ix (pb_Delete db (pendingUploadKey blockID) (idxdb ix)))"

definition GetPendingUpload :: "'s pebble \<Rightarrow> u64 \<Rightarrow> 's Index \<Rightarrow> upload_err + PendingUpload" where
  "GetPendingUpload db blockID ix =
     (if blockID = 0 then Inl UploadBlockIDRequired
      else case pb_Get db (pendingUploadKey blockID) (idxdb ix) of
        Inl _ \<Rightarrow> Inl UploadIO
      | Inr None \<Rightarrow> Inl ErrPendingUploadNotFound
      | Inr (Some val) \<Rightarrow> decodePendingUpload (pendingUploadKey blockID) val)"

text \<open>An iteration that decodes every pair; the first error, of a pair or of the iteration, is the result.\<close>

definition scan :: "(bytes \<Rightarrow> bytes \<Rightarrow> upload_err + 'v) \<Rightarrow> (bytes \<times> bytes) list \<times> bool \<Rightarrow> upload_err + 'v list" where
  "scan f r = (case decode_pairs f (fst r) of Inl e \<Rightarrow> Inl e | Inr vs \<Rightarrow> if snd r then Inr vs else Inl UploadIO)"

record 'v upload_iter =
  iterUploads :: "'v list"
  iterNext :: nat

definition upload_Next :: "'v upload_iter \<Rightarrow> 'v option \<times> 'v upload_iter" where
  "upload_Next i =
     (if length (iterUploads i) \<le> iterNext i then (None, i)
      else (Some (iterUploads i ! iterNext i), i\<lparr>iterNext := iterNext i + 1\<rparr>))"

definition PendingUploads :: "'s pebble \<Rightarrow> 's Index \<Rightarrow> upload_err + PendingUpload upload_iter" where
  "PendingUploads db ix =
     map_sum id (\<lambda>us. \<lparr>iterUploads = us, iterNext = 0\<rparr>)
       (scan decodePendingUpload (pb_Iter db pendingUploadPrefix (Some pendingUploadUpperBound) (idxdb ix)))"

section \<open>Confirmed uploads\<close>

definition confirmedUploadPrefix :: bytes where "confirmedUploadPrefix = [0] @ lit ''confirmed-upload'' @ [0]"
definition confirmedUploadUpperBound :: bytes where "confirmedUploadUpperBound = [0] @ lit ''confirmed-upload'' @ [1]"
definition confirmedUploadValueVersion :: u8 where "confirmedUploadValueVersion = 1"
definition confirmedUploadKeyLen :: nat where "confirmedUploadKeyLen = length confirmedUploadPrefix + sizeBlockID"

record confirmedUploadRecord = ConfirmedUpload +
  crVersion :: u8

text \<open>\<open>encoding/json\<close> on the record.\<close>

record record_json =
  json_Marshal :: "confirmedUploadRecord \<Rightarrow> bytes option"
  json_Unmarshal :: "bytes \<Rightarrow> confirmedUploadRecord option"

definition validateBackendObjectMetadata :: "BackendObjectMetadata \<Rightarrow> upload_err option" where
  "validateBackendObjectMetadata meta =
     (if objKey meta = [] then Some ObjectKeyRequired
      else if objSizeBytes meta < 0 then Some ObjectSizeNegative
      else if objValidationToken meta = [] then Some ObjectTokenRequired
      else None)"

definition validateConfirmedUpload :: "ConfirmedUpload \<Rightarrow> upload_err option" where
  "validateConfirmedUpload u =
     (if cuBlockID u = 0 then Some UploadBlockIDRequired
      else if cuConfirmedAtUs u < 0 then Some ConfirmedAtNegative
      else if cuSealedSizeBytes u < 0 then Some SealedSizeNegative
      else if cuUploadGeneration u < 0 then Some GenerationNegative
      else case validateBackendObjectMetadata (cuBlockObject u) of Some e \<Rightarrow> Some e
      | None \<Rightarrow> validateBackendObjectMetadata (cuIndexObject u))"

definition confirmedUploadKey :: "u64 \<Rightarrow> bytes" where
  "confirmedUploadKey blockID = confirmedUploadPrefix @ put_be64 blockID"

definition confirmedUploadBlockID :: "bytes \<Rightarrow> upload_err + u64" where
  "confirmedUploadBlockID key =
     (if length key \<noteq> confirmedUploadKeyLen then Inl UploadKeyLength
      else Inr (get_be64 (drop (length confirmedUploadPrefix) key)))"

definition encodeConfirmedUpload :: "record_json \<Rightarrow> ConfirmedUpload \<Rightarrow> bytes option" where
  "encodeConfirmedUpload J u = json_Marshal J (ConfirmedUpload.extend u \<lparr>crVersion = confirmedUploadValueVersion\<rparr>)"

definition decodeConfirmedUpload :: "record_json \<Rightarrow> u64 \<Rightarrow> bytes \<Rightarrow> upload_err + ConfirmedUpload" where
  "decodeConfirmedUpload J blockID val =
     (case json_Unmarshal J val of None \<Rightarrow> Inl ConfirmedJSON
      | Some record \<Rightarrow>
          if crVersion record \<noteq> confirmedUploadValueVersion then Inl UploadValueVersion
          else let upload = ConfirmedUpload.truncate record in
            if cuBlockID upload \<noteq> blockID then Inl ConfirmedBlockIDMismatch
            else case validateConfirmedUpload upload of Some e \<Rightarrow> Inl e | None \<Rightarrow> Inr upload)"

definition PutConfirmedUpload :: "record_json \<Rightarrow> 's pebble \<Rightarrow> ConfirmedUpload \<Rightarrow> 's Index \<Rightarrow> upload_err option \<times> 's Index" where
  "PutConfirmedUpload J db u ix =
     (case validateConfirmedUpload u of Some e \<Rightarrow> (Some e, ix)
      | None \<Rightarrow> (case encodeConfirmedUpload J u of None \<Rightarrow> (Some ConfirmedJSON, ix)
      | Some val \<Rightarrow> durable ix (pb_Set db (confirmedUploadKey (cuBlockID u)) val (idxdb ix))))"

definition GetConfirmedUpload :: "record_json \<Rightarrow> 's pebble \<Rightarrow> u64 \<Rightarrow> 's Index \<Rightarrow> upload_err + ConfirmedUpload" where
  "GetConfirmedUpload J db blockID ix =
     (if blockID = 0 then Inl UploadBlockIDRequired
      else case pb_Get db (confirmedUploadKey blockID) (idxdb ix) of
        Inl _ \<Rightarrow> Inl UploadIO
      | Inr None \<Rightarrow> Inl ErrConfirmedUploadNotFound
      | Inr (Some val) \<Rightarrow> decodeConfirmedUpload J blockID val)"

definition decode_confirmed_pair :: "record_json \<Rightarrow> bytes \<Rightarrow> bytes \<Rightarrow> upload_err + ConfirmedUpload" where
  "decode_confirmed_pair J key val =
     (case confirmedUploadBlockID key of Inl e \<Rightarrow> Inl e | Inr blockID \<Rightarrow> decodeConfirmedUpload J blockID val)"

definition ConfirmedUploads :: "record_json \<Rightarrow> 's pebble \<Rightarrow> 's Index \<Rightarrow> upload_err + ConfirmedUpload upload_iter" where
  "ConfirmedUploads J db ix =
     map_sum id (\<lambda>us. \<lparr>iterUploads = us, iterNext = 0\<rparr>)
       (scan (decode_confirmed_pair J) (pb_Iter db confirmedUploadPrefix (Some confirmedUploadUpperBound) (idxdb ix)))"

section \<open>The tables\<close>

lemma readNonNegativeInt64_put: "0 \<le> v \<Longrightarrow> is_int64 v \<Longrightarrow> readNonNegativeInt64 (putNonNegativeInt64 v) f = Inr v"
proof -
  assume v: "0 \<le> v" "is_int64 v"
  then have "uint (of_int v :: u64) = v" by (simp add: is_int64_def take_bit_int_eq_self unsigned_of_int)
  then show ?thesis using v by (simp add: readNonNegativeInt64_def putNonNegativeInt64_def is_int64_def Let_def word_less_def)
qed

lemma length_putNonNegativeInt64 [simp]: "length (putNonNegativeInt64 v) = 8"
  by (simp add: putNonNegativeInt64_def)

definition pending_valid :: "u64 \<Rightarrow> PendingUpload \<Rightarrow> bool" where
  "pending_valid k u \<longleftrightarrow>
     puBlockID u = k \<and> k \<noteq> 0 \<and> 0 \<le> puSealedSizeBytes u \<and> 0 \<le> puSealedAtUs u \<and> 0 \<le> puUploadGeneration u \<and>
     is_int64 (puSealedSizeBytes u) \<and> is_int64 (puSealedAtUs u) \<and> is_int64 (puUploadGeneration u)"

lemma length_pendingUploadKey [simp]: "length (pendingUploadKey k) = pendingUploadKeyLen"
  by (simp add: pendingUploadKey_def pendingUploadKeyLen_def sizeBlockID_def)

lemma decodePendingUpload_encode:
  assumes "pending_valid k u"
  shows "decodePendingUpload (pendingUploadKey k) (encodePendingUpload u) = Inr u"
proof -
  have len: "length (encodePendingUpload u) = pendingUploadValueLen"
    by (simp add: encodePendingUpload_def pendingUploadValueLen_def pendingUploadValueLenV1_def sizeBlockID_def)
  have ver: "pendingUploadValueVersionForDecode (encodePendingUpload u) = Inr pendingUploadValueVersion"
    using len by (simp add: pendingUploadValueVersionForDecode_def requirePendingUploadValueLen_def pendingUploadValueVersionV1_def
        pendingUploadValueVersion_def encodePendingUpload_def Let_def)
  have f: "slice 1 9 (encodePendingUpload u) = put_u64 (puShardID u)"
      "slice 9 17 (encodePendingUpload u) = putNonNegativeInt64 (puSealedSizeBytes u)"
      "slice 17 25 (encodePendingUpload u) = putNonNegativeInt64 (puSealedAtUs u)"
      "slice 25 33 (encodePendingUpload u) = putNonNegativeInt64 (puUploadGeneration u)"
    by (simp_all add: encodePendingUpload_def slice_def)
  have k: "get_be64 (drop (length pendingUploadPrefix) (pendingUploadKey k)) = k" by (simp add: pendingUploadKey_def)
  have gen: "decodePendingUploadGeneration pendingUploadValueVersion (encodePendingUpload u) = Inr (puUploadGeneration u)"
    using assms f by (simp add: decodePendingUploadGeneration_def readNonNegativeInt64_put pending_valid_def
        pendingUploadValueVersion_def pendingUploadValueVersionV1_def)
  show ?thesis using assms f k ver gen by (simp add: decodePendingUpload_def readNonNegativeInt64_put pending_valid_def)
qed

interpretation outbox: scan_table pendingUploadKey encodePendingUpload "\<lambda>k. decodePendingUpload (pendingUploadKey k)" "\<lambda>k. k \<noteq> 0" pending_valid
    pendingUploadPrefix pendingUploadUpperBound decodePendingUpload puBlockID
proof unfold_locales
  show "in_bounds pendingUploadPrefix (Some pendingUploadUpperBound) (pendingUploadKey k)" for k
    using prefix_bounds [of 0 "[0] @ lit ''upload''" 0] by (simp add: pendingUploadPrefix_def pendingUploadUpperBound_def pendingUploadKey_def)
qed (simp_all add: pendingUploadKey_def pending_valid_def decodePendingUpload_encode [unfolded pendingUploadKey_def])

definition json_fits :: "record_json \<Rightarrow> ConfirmedUpload \<Rightarrow> bool" where
  "json_fits J u \<longleftrightarrow>
     (case encodeConfirmedUpload J u of None \<Rightarrow> False
      | Some c \<Rightarrow> json_Unmarshal J c = Some (ConfirmedUpload.extend u \<lparr>crVersion = confirmedUploadValueVersion\<rparr>))"

definition confirmed_valid :: "record_json \<Rightarrow> u64 \<Rightarrow> ConfirmedUpload \<Rightarrow> bool" where
  "confirmed_valid J k u \<longleftrightarrow> cuBlockID u = k \<and> k \<noteq> 0 \<and> validateConfirmedUpload u = None \<and> json_fits J u"

lemma record_of_upload [simp]:
  "ConfirmedUpload.truncate (ConfirmedUpload.extend u \<lparr>crVersion = v\<rparr>) = u" "crVersion (ConfirmedUpload.extend u \<lparr>crVersion = v\<rparr>) = v"
  by (cases u; simp add: ConfirmedUpload.defs)+

lemma decodeConfirmedUpload_encode:
  "confirmed_valid J k u \<Longrightarrow> decodeConfirmedUpload J k (the (encodeConfirmedUpload J u)) = Inr u"
  by (auto simp: confirmed_valid_def json_fits_def decodeConfirmedUpload_def Let_def split: option.splits)

interpretation catalog: scan_table confirmedUploadKey "\<lambda>u. the (encodeConfirmedUpload J u)" "decodeConfirmedUpload J" "\<lambda>k. k \<noteq> 0" "confirmed_valid J"
    confirmedUploadPrefix confirmedUploadUpperBound "decode_confirmed_pair J" cuBlockID
  for J
proof unfold_locales
  show "in_bounds confirmedUploadPrefix (Some confirmedUploadUpperBound) (confirmedUploadKey k)" for k
    using prefix_bounds [of 0 "[0] @ lit ''confirmed-upload''" 0] by (simp add: confirmedUploadPrefix_def confirmedUploadUpperBound_def confirmedUploadKey_def)
  show "decode_confirmed_pair J (confirmedUploadKey k) c = decodeConfirmedUpload J k c" for k c
    by (simp add: decode_confirmed_pair_def confirmedUploadBlockID_def confirmedUploadKey_def confirmedUploadKeyLen_def sizeBlockID_def)
qed (simp_all add: confirmedUploadKey_def confirmed_valid_def decodeConfirmedUpload_encode [unfolded confirmed_valid_def])

section \<open>What the operations do to the tables\<close>

definition pending_rows :: "('s \<Rightarrow> bytes \<rightharpoonup> bytes) \<Rightarrow> 's Index \<Rightarrow> u64 \<rightharpoonup> PendingUpload" where
  "pending_rows contents ix = outbox.table (contents (idxdb ix))"

definition confirmed_rows :: "record_json \<Rightarrow> ('s \<Rightarrow> bytes \<rightharpoonup> bytes) \<Rightarrow> 's Index \<Rightarrow> u64 \<rightharpoonup> ConfirmedUpload" where
  "confirmed_rows J contents ix = catalog.table J (contents (idxdb ix))"

definition uploads_ok :: "record_json \<Rightarrow> ('s \<Rightarrow> bytes \<rightharpoonup> bytes) \<Rightarrow> 's Index \<Rightarrow> bool" where
  "uploads_ok J contents ix \<longleftrightarrow> outbox.rows_ok (contents (idxdb ix)) \<and> catalog.rows_ok J (contents (idxdb ix))"

lemma pending_bounds: "in_bounds pendingUploadPrefix (Some pendingUploadUpperBound) k \<longleftrightarrow> prefix pendingUploadPrefix k"
  using prefix_bounds [of 0 "[0] @ lit ''upload''" 0] by (simp add: pendingUploadPrefix_def pendingUploadUpperBound_def)

lemma confirmed_bounds: "in_bounds confirmedUploadPrefix (Some confirmedUploadUpperBound) k \<longleftrightarrow> prefix confirmedUploadPrefix k"
  using prefix_bounds [of 0 "[0] @ lit ''confirmed-upload''" 0] by (simp add: confirmedUploadPrefix_def confirmedUploadUpperBound_def)

text \<open>The tables are disjoint.\<close>

lemma upload_keys_disjoint:
  "pendingUploadKey k \<noteq> confirmedUploadKey j" "confirmedUploadKey j \<noteq> pendingUploadKey k"
  "pendingUploadKey k \<noteq> txKey t" "confirmedUploadKey k \<noteq> txKey t" "txKey t \<noteq> pendingUploadKey k" "txKey t \<noteq> confirmedUploadKey k"
  "\<not> prefix pendingUploadPrefix (confirmedUploadKey k)" "\<not> prefix confirmedUploadPrefix (pendingUploadKey k)"
  "\<not> prefix pendingUploadPrefix (txKey t)" "\<not> prefix confirmedUploadPrefix (txKey t)"
  by (simp_all add: pendingUploadKey_def confirmedUploadKey_def txKey_def pendingUploadPrefix_def confirmedUploadPrefix_def txKeyPrefix_def lit_def)

lemma durable_Set:
  assumes "pebble_ok contents db" and "durable ix (pb_Set db k v (idxdb ix)) = (err, ix')"
  shows "(contents (idxdb ix') = (contents (idxdb ix))(k \<mapsto> v) \<or> err \<noteq> None \<and> contents (idxdb ix') = contents (idxdb ix)) \<and>
    ix' = ix\<lparr>idxdb := idxdb ix'\<rparr>"
  using assms pebble_Set [OF assms(1), of k v "idxdb ix" "fst (pb_Set db k v (idxdb ix))" "snd (pb_Set db k v (idxdb ix))"]
  by (auto simp: durable_def)

lemma durable_Delete:
  assumes "pebble_ok contents db" and "durable ix (pb_Delete db k (idxdb ix)) = (err, ix')"
  shows "(contents (idxdb ix') = (contents (idxdb ix))(k := None) \<or> err \<noteq> None \<and> contents (idxdb ix') = contents (idxdb ix)) \<and>
    ix' = ix\<lparr>idxdb := idxdb ix'\<rparr>"
  using assms pebble_Delete [OF assms(1), of k "idxdb ix" "fst (pb_Delete db k (idxdb ix))" "snd (pb_Delete db k (idxdb ix))"]
  by (auto simp: durable_def)

text \<open>The tables of two states of the Projection agree on everything but the pending (confirmed) uploads.\<close>

definition pending_int64 :: "PendingUpload \<Rightarrow> bool" where
  "pending_int64 u \<longleftrightarrow> is_int64 (puSealedSizeBytes u) \<and> is_int64 (puSealedAtUs u) \<and> is_int64 (puUploadGeneration u)"

lemma tables_pending_write:
  assumes "pending_valid k u" and kv: "contents (idxdb ix') = (contents (idxdb ix))(pendingUploadKey k \<mapsto> encodePendingUpload u)"
  shows "pending_rows contents ix' = (pending_rows contents ix)(k \<mapsto> u)" and "confirmed_rows J contents ix' = confirmed_rows J contents ix"
    and "entries contents ix' = entries contents ix" and "uploads_ok J contents ix \<Longrightarrow> uploads_ok J contents ix'"
  unfolding pending_rows_def confirmed_rows_def entries_def uploads_ok_def kv
  by (simp_all add: outbox.table_put [OF assms(1)] catalog.table_foreign tx_table.table_foreign upload_keys_disjoint
      outbox.rows_ok_put [OF _ assms(1)] catalog.rows_ok_foreign confirmed_bounds)

lemma tables_pending_delete:
  assumes "k \<noteq> 0" and kv: "contents (idxdb ix') = (contents (idxdb ix))(pendingUploadKey k := None)"
  shows "pending_rows contents ix' = (pending_rows contents ix)(k := None)" and "confirmed_rows J contents ix' = confirmed_rows J contents ix"
    and "entries contents ix' = entries contents ix" and "uploads_ok J contents ix \<Longrightarrow> uploads_ok J contents ix'"
  unfolding pending_rows_def confirmed_rows_def entries_def uploads_ok_def kv
  by (simp_all add: outbox.table_delete assms(1) catalog.table_foreign tx_table.table_foreign upload_keys_disjoint
      outbox.rows_ok_delete catalog.rows_ok_foreign confirmed_bounds)

lemma tables_confirmed_write:
  assumes "confirmed_valid J k u" and kv: "contents (idxdb ix') = (contents (idxdb ix))(confirmedUploadKey k \<mapsto> the (encodeConfirmedUpload J u))"
  shows "confirmed_rows J contents ix' = (confirmed_rows J contents ix)(k \<mapsto> u)" and "pending_rows contents ix' = pending_rows contents ix"
    and "entries contents ix' = entries contents ix" and "uploads_ok J contents ix \<Longrightarrow> uploads_ok J contents ix'"
  unfolding pending_rows_def confirmed_rows_def entries_def uploads_ok_def kv
  by (simp_all add: catalog.table_put [OF assms(1)] outbox.table_foreign tx_table.table_foreign upload_keys_disjoint
      catalog.rows_ok_put [OF _ assms(1)] outbox.rows_ok_foreign pending_bounds)

lemma tables_same:
  assumes "contents (idxdb ix') = contents (idxdb ix)"
  shows "pending_rows contents ix' = pending_rows contents ix" and "confirmed_rows J contents ix' = confirmed_rows J contents ix"
    and "entries contents ix' = entries contents ix" and "uploads_ok J contents ix' = uploads_ok J contents ix"
  by (simp_all add: pending_rows_def confirmed_rows_def entries_def uploads_ok_def assms)

lemma PutPendingUpload_contents:
  assumes "pebble_ok contents db" and "PutPendingUpload db u ix = (err, ix')" and "pending_int64 u"
  shows "pending_valid (puBlockID u) u \<and> contents (idxdb ix') = (contents (idxdb ix))(pendingUploadKey (puBlockID u) \<mapsto> encodePendingUpload u) \<or>
    err \<noteq> None \<and> contents (idxdb ix') = contents (idxdb ix)"
  using assms durable_Set [OF assms(1)]
  by (auto simp: PutPendingUpload_def pending_valid_def pending_int64_def split: if_splits)

lemma DeletePendingUpload_contents:
  assumes "pebble_ok contents db" and "DeletePendingUpload db k ix = (err, ix')"
  shows "k \<noteq> 0 \<and> contents (idxdb ix') = (contents (idxdb ix))(pendingUploadKey k := None) \<or>
    err \<noteq> None \<and> contents (idxdb ix') = contents (idxdb ix)"
  using assms durable_Delete [OF assms(1)] by (auto simp: DeletePendingUpload_def split: if_splits)

lemma PutConfirmedUpload_contents:
  assumes "pebble_ok contents db" and "PutConfirmedUpload J db u ix = (err, ix')" and "json_fits J u"
  shows "confirmed_valid J (cuBlockID u) u \<and> contents (idxdb ix') = (contents (idxdb ix))(confirmedUploadKey (cuBlockID u) \<mapsto> the (encodeConfirmedUpload J u)) \<or>
    err \<noteq> None \<and> contents (idxdb ix') = contents (idxdb ix)"
proof (cases "validateConfirmedUpload u = None \<and> encodeConfirmedUpload J u \<noteq> None")
  case True
  then obtain val where val: "encodeConfirmedUpload J u = Some val" by auto
  have "confirmed_valid J (cuBlockID u) u" using True assms(3) by (auto simp: confirmed_valid_def validateConfirmedUpload_def split: if_splits)
  then show ?thesis using assms(2) True val durable_Set [OF assms(1), of ix "confirmedUploadKey (cuBlockID u)" val err ix']
    by (auto simp: PutConfirmedUpload_def)
next
  case False
  then show ?thesis using assms(2) by (auto simp: PutConfirmedUpload_def split: option.splits)
qed

lemma GetPendingUpload_ok:
  "pebble_ok contents db \<Longrightarrow> GetPendingUpload db k ix = Inr u \<Longrightarrow> pending_rows contents ix k = Some u"
  by (auto simp: GetPendingUpload_def pending_rows_def outbox.table_def dest!: pebble_Get split: if_splits sum.splits option.splits)

lemma GetPendingUpload_missing:
  "pebble_ok contents db \<Longrightarrow> GetPendingUpload db k ix = Inl ErrPendingUploadNotFound \<Longrightarrow>
     pending_rows contents ix k = None"
  by (auto simp: GetPendingUpload_def pending_rows_def outbox.table_def dest!: pebble_Get split: if_splits sum.splits option.splits)

lemma GetConfirmedUpload_ok:
  "pebble_ok contents db \<Longrightarrow> GetConfirmedUpload J db k ix = Inr u \<Longrightarrow> confirmed_rows J contents ix k = Some u"
  by (auto simp: GetConfirmedUpload_def confirmed_rows_def catalog.table_def dest!: pebble_Get split: if_splits sum.splits option.splits)

section \<open>Properties\<close>

lemma append_less_same: "p @ x < p @ y \<longleftrightarrow> x < (y :: bytes)"
  by (induction p) simp_all

lemma pending_key_order: "sorted_wrt (<) (map (pendingUploadKey \<circ> puBlockID) us) \<longleftrightarrow> sorted_wrt (<) (map puBlockID us)"
  by (simp add: sorted_wrt_map pendingUploadKey_def append_less_same put_be64_less)

lemma scan_outbox:
  assumes "pebble_ok contents db" and "uploads_ok J contents ix" and "PendingUploads db ix = Inr it"
  shows "iterNext it = 0" and "sorted_wrt (<) (map puBlockID (iterUploads it))"
    and "\<forall>u. u \<in> set (iterUploads it) \<longleftrightarrow> pending_rows contents ix (puBlockID u) = Some u"
proof -
  obtain xs ok where it: "pb_Iter db pendingUploadPrefix (Some pendingUploadUpperBound) (idxdb ix) = (xs, ok)" by (metis surj_pair)
  obtain us where us: "decode_pairs decodePendingUpload xs = Inr us" "ok" "it = \<lparr>iterUploads = us, iterNext = 0\<rparr>"
    using assms(3) it by (cases "decode_pairs decodePendingUpload xs") (auto simp: PendingUploads_def scan_def split: if_splits)
  have rows: "outbox.rows_ok (contents (idxdb ix))" using assms(2) by (simp add: uploads_ok_def)
  from outbox.scan_table [OF rows pebble_Iter(1,3) [OF assms(1) it], OF us(2)] us(1)
  obtain vs where "vs = us" "sorted_wrt (<) (map (pendingUploadKey \<circ> puBlockID) vs)" "\<forall>u. u \<in> set vs \<longleftrightarrow> outbox.table (contents (idxdb ix)) (puBlockID u) = Some u"
    by auto
  then have "sorted_wrt (<) (map (pendingUploadKey \<circ> puBlockID) us) \<and> (\<forall>u. u \<in> set us \<longleftrightarrow> pending_rows contents ix (puBlockID u) = Some u)"
    by (simp add: pending_rows_def)
  then show "iterNext it = 0" "sorted_wrt (<) (map puBlockID (iterUploads it))"
      "\<forall>u. u \<in> set (iterUploads it) \<longleftrightarrow> pending_rows contents ix (puBlockID u) = Some u"
    using us(3) by (simp_all add: pending_key_order)
qed

text \<open>
  The upload outbox is a queue of the pending uploads in Block order. Whatever calls of the store
  fail, \<open>PutPendingUpload\<close>, \<open>DeletePendingUpload\<close> and \<open>PutConfirmedUpload\<close> change no table but their
  own and leave every stored row readable; and a listing that succeeds returns each pending upload
  once, in increasing order of the Block id.
\<close>

theorem pending_uploads_exact:
  assumes "pebble_ok contents db" and "uploads_ok J contents ix"
    and "pending_int64 u" and "PutPendingUpload db u ix = (e1, ix1)" and "DeletePendingUpload db k ix = (e2, ix2)"
    and "json_fits J c" and "PutConfirmedUpload J db c ix = (e3, ix3)"
  shows "(uploads_ok J contents ix1 \<and> uploads_ok J contents ix2 \<and> uploads_ok J contents ix3) \<and>
         (e1 = None \<longrightarrow> pending_rows contents ix1 = (pending_rows contents ix)(puBlockID u \<mapsto> u)) \<and>
         (e2 = None \<longrightarrow> pending_rows contents ix2 = (pending_rows contents ix)(k := None)) \<and>
         (e3 = None \<longrightarrow> confirmed_rows J contents ix3 = (confirmed_rows J contents ix)(cuBlockID c \<mapsto> c)) \<and>
         confirmed_rows J contents ix1 = confirmed_rows J contents ix \<and> confirmed_rows J contents ix2 = confirmed_rows J contents ix \<and>
         pending_rows contents ix3 = pending_rows contents ix \<and>
         (\<forall>it. PendingUploads db ix1 = Inr it \<longrightarrow>
            sorted_wrt (<) (map puBlockID (iterUploads it)) \<and> (\<forall>v. v \<in> set (iterUploads it) \<longleftrightarrow> pending_rows contents ix1 (puBlockID v) = Some v))"
proof -
  have 1: "uploads_ok J contents ix1 \<and> (e1 = None \<longrightarrow> pending_rows contents ix1 = (pending_rows contents ix)(puBlockID u \<mapsto> u)) \<and>
      confirmed_rows J contents ix1 = confirmed_rows J contents ix"
    using PutPendingUpload_contents [OF assms(1,4,3)]
  proof (elim disjE conjE)
    assume w: "pending_valid (puBlockID u) u" "contents (idxdb ix1) = (contents (idxdb ix))(pendingUploadKey (puBlockID u) \<mapsto> encodePendingUpload u)"
    show ?thesis using tables_pending_write [OF w] assms(2) by simp
  next
    assume "e1 \<noteq> None" "contents (idxdb ix1) = contents (idxdb ix)"
    then show ?thesis using tables_same [of contents ix1 ix] assms(2) by auto
  qed
  have 2: "uploads_ok J contents ix2 \<and> (e2 = None \<longrightarrow> pending_rows contents ix2 = (pending_rows contents ix)(k := None)) \<and>
      confirmed_rows J contents ix2 = confirmed_rows J contents ix"
    using DeletePendingUpload_contents [OF assms(1,5)]
  proof (elim disjE conjE)
    assume w: "k \<noteq> 0" "contents (idxdb ix2) = (contents (idxdb ix))(pendingUploadKey k := None)"
    show ?thesis using tables_pending_delete [of k contents, OF w] assms(2) by simp
  next
    assume "e2 \<noteq> None" "contents (idxdb ix2) = contents (idxdb ix)"
    then show ?thesis using tables_same [of contents ix2 ix] assms(2) by auto
  qed
  have 3: "uploads_ok J contents ix3 \<and> (e3 = None \<longrightarrow> confirmed_rows J contents ix3 = (confirmed_rows J contents ix)(cuBlockID c \<mapsto> c)) \<and>
      pending_rows contents ix3 = pending_rows contents ix"
    using PutConfirmedUpload_contents [OF assms(1,7,6)]
  proof (elim disjE conjE)
    assume w: "confirmed_valid J (cuBlockID c) c"
      "contents (idxdb ix3) = (contents (idxdb ix))(confirmedUploadKey (cuBlockID c) \<mapsto> the (encodeConfirmedUpload J c))"
    show ?thesis using tables_confirmed_write [OF w] assms(2) by simp
  next
    assume "e3 \<noteq> None" "contents (idxdb ix3) = contents (idxdb ix)"
    then show ?thesis using tables_same [of contents ix3 ix] assms(2) by auto
  qed
  have 4: "\<forall>it. PendingUploads db ix1 = Inr it \<longrightarrow>
      sorted_wrt (<) (map puBlockID (iterUploads it)) \<and> (\<forall>v. v \<in> set (iterUploads it) \<longleftrightarrow> pending_rows contents ix1 (puBlockID v) = Some v)"
    by (intro allI impI conjI scan_outbox(2) [OF assms(1) 1 [THEN conjunct1]] scan_outbox(3) [OF assms(1) 1 [THEN conjunct1], rule_format])
  from 1 2 3 4 show ?thesis by (elim conjE) (intro conjI; assumption)
qed

text \<open>A concrete encoding that satisfies the law of the JSON text: fields in order, texts escaped.\<close>

definition escape_text :: "bytes \<Rightarrow> bytes" where
  "escape_text s = concat (map (\<lambda>b. [1, b]) s) @ [0]"

fun unescape_text :: "bytes \<Rightarrow> bytes \<times> bytes" where
  "unescape_text (a # b # bs) = (if a = 0 then ([], b # bs) else (case unescape_text bs of (s, r) \<Rightarrow> (b # s, r)))"
| "unescape_text [a] = ([], [])"
| "unescape_text [] = ([], [])"

lemma unescape_escape [simp]: "unescape_text (escape_text s @ r) = (s, r)"
proof (induction s)
  case Nil
  show ?case by (cases r) (simp_all add: escape_text_def)
next
  case (Cons b s)
  then show ?case by (simp add: escape_text_def)
qed

definition put_object :: "BackendObjectMetadata \<Rightarrow> bytes" where
  "put_object m = put_u64 (of_int (objSizeBytes m)) @ escape_text (objKey m) @ escape_text (objValidationToken m)"

definition get_object :: "bytes \<Rightarrow> BackendObjectMetadata \<times> bytes" where
  "get_object bs =
     (case unescape_text (drop 8 bs) of (k, r) \<Rightarrow> case unescape_text r of (t, r') \<Rightarrow>
        (\<lparr>objKey = k, objSizeBytes = sint (get_u64 (take 8 bs)), objValidationToken = t\<rparr>, r'))"

definition plain_json :: record_json where
  "plain_json =
     \<lparr>json_Marshal = (\<lambda>r. Some ([crVersion r] @ put_u64 (cuBlockID r) @ put_u64 (cuShardID r) @ put_u64 (of_int (cuConfirmedAtUs r)) @
          put_u64 (of_int (cuSealedSizeBytes r)) @ put_u64 (of_int (cuUploadGeneration r)) @ put_object (cuBlockObject r) @ put_object (cuIndexObject r))),
      json_Unmarshal = (\<lambda>bs. if bs = [] then None else
        case get_object (drop 41 bs) of (b, r) \<Rightarrow> case get_object r of (i, _) \<Rightarrow>
          Some \<lparr>cuBlockID = get_u64 (slice 1 9 bs), cuShardID = get_u64 (slice 9 17 bs), cuConfirmedAtUs = sint (get_u64 (slice 17 25 bs)),
            cuSealedSizeBytes = sint (get_u64 (slice 25 33 bs)), cuUploadGeneration = sint (get_u64 (slice 33 41 bs)),
            cuBlockObject = b, cuIndexObject = i, crVersion = hd bs\<rparr>)\<rparr>"

lemma sint_int64 [simp]: "is_int64 x \<Longrightarrow> sint (of_int x :: u64) = x"
  by (simp add: is_int64_def signed_of_int signed_take_bit_int_eq_self)

lemma get_put_object [simp]: "is_int64 (objSizeBytes m) \<Longrightarrow> get_object (put_object m @ r) = (m, r)"
  by (simp add: get_object_def put_object_def)

lemma plain_json_fits:
  assumes "is_int64 (cuConfirmedAtUs u)" "is_int64 (cuSealedSizeBytes u)" "is_int64 (cuUploadGeneration u)"
    "is_int64 (objSizeBytes (cuBlockObject u))" "is_int64 (objSizeBytes (cuIndexObject u))"
  shows "json_fits plain_json u"
  using assms get_put_object [of "cuIndexObject u" "[]"]
  by (simp add: json_fits_def encodeConfirmedUpload_def plain_json_def ConfirmedUpload.defs slice_def)

definition sample_pending :: PendingUpload where
  "sample_pending = \<lparr>puBlockID = 3, puShardID = 1, puSealedSizeBytes = 4096, puSealedAtUs = 17, puUploadGeneration = 0\<rparr>"

definition sample_confirmed :: ConfirmedUpload where
  "sample_confirmed = \<lparr>cuBlockID = 3, cuShardID = 1, cuConfirmedAtUs = 20, cuSealedSizeBytes = 4096, cuUploadGeneration = 0,
     cuBlockObject = \<lparr>objKey = lit ''b'', objSizeBytes = 4096, objValidationToken = lit ''t''\<rparr>,
     cuIndexObject = \<lparr>objKey = lit ''i'', objSizeBytes = 99, objValidationToken = lit ''u''\<rparr>\<rparr>"

definition empty_index :: "(bytes \<times> bytes) list Index" where
  "empty_index = \<lparr>idxdb = [], appliedIndex = 0, durableAppliedIndex = 0\<rparr>"

theorem pending_uploads_exact_witness:
  "pending_rows map_of (snd (PutPendingUpload mem_pebble sample_pending empty_index)) 3 = Some sample_pending"
proof -
  have fits: "json_fits plain_json sample_confirmed" by (rule plain_json_fits) (simp_all add: sample_confirmed_def is_int64_def)
  have ok: "uploads_ok plain_json map_of empty_index"
    by (simp add: uploads_ok_def outbox.rows_ok_def catalog.rows_ok_def empty_index_def)
  have "pending_int64 sample_pending" by (simp add: pending_int64_def sample_pending_def is_int64_def)
  note w = pending_uploads_exact [OF mem_pebble_ok ok this surjective_pairing surjective_pairing fits surjective_pairing, of 3]
  then have "fst (PutPendingUpload mem_pebble sample_pending empty_index) = None \<Longrightarrow>
      pending_rows map_of (snd (PutPendingUpload mem_pebble sample_pending empty_index)) = (pending_rows map_of empty_index)(puBlockID sample_pending \<mapsto> sample_pending)"
    by (elim conjE) (rule mp)
  moreover have "fst (PutPendingUpload mem_pebble sample_pending empty_index) = None"
    by (simp add: PutPendingUpload_def sample_pending_def durable_def mem_pebble_def)
  ultimately show ?thesis by (simp add: sample_pending_def)
qed

end
