(* ===== verification/Shard_Outbox.thy ===== *)
theory Shard_Outbox
  imports Projection_Uploads Local_Lifecycle
begin

text \<open>
  The upload outbox of a Shard: \<open>internal/shard/upload_obligations.go\<close>, \<open>confirmed_upload_authority.go\<close>,
  \<open>block_upload_lifecycle.go\<close>, \<open>upload_outbox_events.go\<close> and the parts of \<open>upload.go\<close> they use. A
  committed seal puts a Block into the outbox; a committed confirmation records it in the authority
  file and in the catalog and only then takes it out. The state of an apply is the Projection, the
  Blocks directory and the in-memory lifecycle.
\<close>

section \<open>Local obligations\<close>

record uploadObligation =
  obUpload :: PendingUpload
  obInFlight :: bool
  obRetryAfter :: int

record uploadPressureStats =
  pendingBytes :: int
  pendingBlocks :: int

text \<open>The zero \<open>time.Time\<close>, in nanoseconds.\<close>

definition time_zero :: int where "time_zero = -62135596800000000000"

definition recordLocal :: "PendingUpload \<Rightarrow> uploadObligation list \<Rightarrow> uploadObligation list" where
  "recordLocal upload obs =
     (let matches = (\<lambda>ob. puBlockID (obUpload ob) = puBlockID upload);
          next = map (\<lambda>ob. if matches ob then ob\<lparr>obUpload := upload\<rparr> else ob) obs
      in if list_ex matches obs then next else next @ [\<lparr>obUpload = upload, obInFlight = False, obRetryAfter = time_zero\<rparr>])"

definition forget :: "u64 \<Rightarrow> uploadObligation list \<Rightarrow> uploadObligation list" where
  "forget blockID obs = filter (\<lambda>ob. puBlockID (obUpload ob) \<noteq> blockID) obs"

definition beginRetry :: "int \<Rightarrow> int \<Rightarrow> uploadObligation list \<Rightarrow> PendingUpload list \<times> uploadObligation list" where
  "beginRetry now retryAfter obs =
     (map obUpload (filter (\<lambda>ob. \<not> now < obRetryAfter ob) obs),
      map (\<lambda>ob. if now < obRetryAfter ob then ob else \<lparr>obUpload = obUpload ob, obInFlight = True, obRetryAfter = retryAfter\<rparr>) obs)"

definition markRetryFailed :: "u64 \<Rightarrow> int \<Rightarrow> uploadObligation list \<Rightarrow> uploadObligation list" where
  "markRetryFailed blockID retryAfter obs =
     map (\<lambda>ob. if puBlockID (obUpload ob) = blockID \<and> obInFlight ob
               then \<lparr>obUpload = obUpload ob, obInFlight = False, obRetryAfter = retryAfter\<rparr> else ob) obs"

definition MaxInt64 :: int where "MaxInt64 = 9223372036854775807"

definition addPendingUpload :: "PendingUpload \<Rightarrow> uploadPressureStats \<Rightarrow> uploadPressureStats" where
  "addPendingUpload upload stats =
     \<lparr>pendingBytes = (if puSealedSizeBytes upload > MaxInt64 - pendingBytes stats then MaxInt64 else pendingBytes stats + puSealedSizeBytes upload),
      pendingBlocks = pendingBlocks stats + 1\<rparr>"

definition pressureStats :: "PendingUpload list \<Rightarrow> uploadObligation list \<Rightarrow> uploadPressureStats" where
  "pressureStats committed obs =
     (let stats = fold addPendingUpload committed \<lparr>pendingBytes = 0, pendingBlocks = 0\<rparr>;
          seen = puBlockID ` set committed
      in fold addPendingUpload (filter (\<lambda>u. puBlockID u \<notin> seen) (map obUpload obs)) stats)"

section \<open>The authority file\<close>

definition authoritySuffix :: bytes where "authoritySuffix = lit ''.confirmed-upload.json''"

definition confirmedUploadAuthorityPath :: "u64 \<Rightarrow> bytes" where
  "confirmedUploadAuthorityPath blockID = hex16 blockID @ authoritySuffix"

definition validateConfirmedUploadAuthorityObject :: "BackendObjectMetadata \<Rightarrow> marker_err option" where
  "validateConfirmedUploadAuthorityObject object =
     (if objKey object = [] then Some (ErrMarkerInvalid ''object key is required'')
      else if objSizeBytes object < 0 then Some (ErrMarkerInvalid ''object size_bytes is negative'')
      else if objValidationToken object = [] then Some (ErrMarkerInvalid ''object validation_token is required'')
      else None)"

definition validateConfirmedUploadAuthorityRecord :: "confirmedUploadAuthorityRecord \<Rightarrow> u64 \<Rightarrow> marker_err option" where
  "validateConfirmedUploadAuthorityRecord r blockID =
     (case ValidateMarkerHeader (caVersion r) (cuBlockID r) blockID of Some e \<Rightarrow> Some e
      | None \<Rightarrow>
          if cuConfirmedAtUs r < 0 then Some (ErrMarkerInvalid ''confirmed_at_us is negative'')
          else if cuSealedSizeBytes r < 0 then Some (ErrMarkerInvalid ''sealed_size_bytes is negative'')
          else if cuUploadGeneration r < 0 then Some (ErrMarkerInvalid ''upload_generation is negative'')
          else case validateConfirmedUploadAuthorityObject (cuBlockObject r) of Some e \<Rightarrow> Some e
          | None \<Rightarrow> validateConfirmedUploadAuthorityObject (cuIndexObject r))"

definition writeConfirmedUploadAuthority :: "bytes \<Rightarrow> ConfirmedUpload \<Rightarrow> blocks_dir \<Rightarrow> marker_err option \<times> blocks_dir" where
  "writeConfirmedUploadAuthority rnd upload d =
     (let r = ConfirmedUpload.extend upload \<lparr>caVersion = MarkerVersion\<rparr> in
      case validateConfirmedUploadAuthorityRecord r (cuBlockID upload) of Some e \<Rightarrow> (Some e, d)
      | None \<Rightarrow> WriteJSONMarker rnd (confirmedUploadAuthorityPath (cuBlockID upload)) (AuthorityFile r) d)"

fun authority_of :: "fcontent \<Rightarrow> confirmedUploadAuthorityRecord option" where
  "authority_of (AuthorityFile r) = Some r"
| "authority_of _ = None"

definition readConfirmedUploadAuthority :: "u64 \<Rightarrow> blocks_dir \<Rightarrow> (marker_err + ConfirmedUpload) \<times> blocks_dir" where
  "readConfirmedUploadAuthority blockID d =
     (case ReadJSONMarker authority_of (confirmedUploadAuthorityPath blockID) d of
        (Inl e, d1) \<Rightarrow> (Inl e, d1)
      | (Inr r, d1) \<Rightarrow>
          (case validateConfirmedUploadAuthorityRecord r blockID of Some e \<Rightarrow> Inl e | None \<Rightarrow> Inr (ConfirmedUpload.truncate r), d1))"

section \<open>Commands and events\<close>

record SealBlock =
  sbBlockId :: u64
  sbShardId :: u64
  sbSealedSizeBytes :: int
  sbSealedAtUs :: int

record ConfirmUpload =
  cfBlockId :: u64
  cfShardId :: u64
  cfBlockObject :: "BackendObjectMetadata option"
  cfIndexObject :: "BackendObjectMetadata option"
  cfConfirmedAtUs :: int
  cfUploadGeneration :: int

record blockSealedEvent =
  evBlockID :: u64
  evShardID :: u64
  evSealedSizeBytes :: int
  evSealedAtUs :: int

record uploadConfirmedEvent =
  ucBlockID :: u64
  ucShardID :: u64
  ucConfirmedAtUs :: int
  ucUploadGeneration :: int
  ucBlockObject :: BackendObjectMetadata
  ucIndexObject :: BackendObjectMetadata

definition indexBackendObject :: "BackendObjectMetadata option \<Rightarrow> BackendObjectMetadata" where
  "indexBackendObject meta = (case meta of None \<Rightarrow> \<lparr>objKey = [], objSizeBytes = 0, objValidationToken = []\<rparr> | Some m \<Rightarrow> m)"

definition blockSealedEventFromPending :: "PendingUpload \<Rightarrow> blockSealedEvent" where
  "blockSealedEventFromPending u =
     \<lparr>evBlockID = puBlockID u, evShardID = puShardID u, evSealedSizeBytes = puSealedSizeBytes u, evSealedAtUs = puSealedAtUs u\<rparr>"

definition blockSealedEventFromCommand :: "SealBlock \<Rightarrow> blockSealedEvent" where
  "blockSealedEventFromCommand s =
     \<lparr>evBlockID = sbBlockId s, evShardID = sbShardId s, evSealedSizeBytes = sbSealedSizeBytes s, evSealedAtUs = sbSealedAtUs s\<rparr>"

definition event_pendingUpload :: "blockSealedEvent \<Rightarrow> PendingUpload" where
  "event_pendingUpload e =
     \<lparr>puBlockID = evBlockID e, puShardID = evShardID e, puSealedSizeBytes = evSealedSizeBytes e, puSealedAtUs = evSealedAtUs e, puUploadGeneration = 0\<rparr>"

definition sealed_command :: "blockSealedEvent \<Rightarrow> SealBlock" where
  "sealed_command e =
     \<lparr>sbBlockId = evBlockID e, sbShardId = evShardID e, sbSealedSizeBytes = evSealedSizeBytes e, sbSealedAtUs = evSealedAtUs e\<rparr>"

definition uploadConfirmedEventFromCommand :: "ConfirmUpload \<Rightarrow> uploadConfirmedEvent" where
  "uploadConfirmedEventFromCommand c =
     \<lparr>ucBlockID = cfBlockId c, ucShardID = cfShardId c, ucConfirmedAtUs = cfConfirmedAtUs c, ucUploadGeneration = cfUploadGeneration c,
      ucBlockObject = indexBackendObject (cfBlockObject c), ucIndexObject = indexBackendObject (cfIndexObject c)\<rparr>"

definition uploadConfirmedEventFromUpload :: "ConfirmedUpload \<Rightarrow> uploadConfirmedEvent" where
  "uploadConfirmedEventFromUpload u =
     \<lparr>ucBlockID = cuBlockID u, ucShardID = cuShardID u, ucConfirmedAtUs = cuConfirmedAtUs u, ucUploadGeneration = cuUploadGeneration u,
      ucBlockObject = cuBlockObject u, ucIndexObject = cuIndexObject u\<rparr>"

definition confirmed_command :: "uploadConfirmedEvent \<Rightarrow> ConfirmUpload" where
  "confirmed_command e =
     \<lparr>cfBlockId = ucBlockID e, cfShardId = ucShardID e, cfBlockObject = Some (ucBlockObject e), cfIndexObject = Some (ucIndexObject e),
      cfConfirmedAtUs = ucConfirmedAtUs e, cfUploadGeneration = ucUploadGeneration e\<rparr>"

definition confirmedUploadFromCommand :: "ConfirmUpload \<Rightarrow> int \<Rightarrow> ConfirmedUpload" where
  "confirmedUploadFromCommand c sealedSize =
     \<lparr>cuBlockID = cfBlockId c, cuShardID = cfShardId c, cuConfirmedAtUs = cfConfirmedAtUs c, cuSealedSizeBytes = sealedSize,
      cuUploadGeneration = cfUploadGeneration c, cuBlockObject = indexBackendObject (cfBlockObject c), cuIndexObject = indexBackendObject (cfIndexObject c)\<rparr>"

section \<open>The lifecycle\<close>

record blockUploadLifecycle =
  obligations :: "uploadObligation list"
  committedConfirmUploads :: "u64 \<rightharpoonup> ConfirmedUpload"

datatype outbox_err =
    OutboxErr upload_err
  | ErrConfirmUploadGenerationMismatch
  | ErrConfirmUploadSealedMetadataMismatch
  | MissingSealedMetadata upload_err
  | AuthorityErr marker_err

record 's outbox =
  oxIndex :: "'s Index"
  oxDir :: blocks_dir
  oxLife :: blockUploadLifecycle

definition forgetUploadObligation :: "u64 \<Rightarrow> 's outbox \<Rightarrow> 's outbox" where
  "forgetUploadObligation blockID o1 = o1\<lparr>oxLife := (oxLife o1)\<lparr>obligations := forget blockID (obligations (oxLife o1))\<rparr>\<rparr>"

definition recordCommittedConfirmUpload :: "ConfirmedUpload \<Rightarrow> 's outbox \<Rightarrow> 's outbox" where
  "recordCommittedConfirmUpload c o1 =
     o1\<lparr>oxLife := (oxLife o1)\<lparr>committedConfirmUploads := (committedConfirmUploads (oxLife o1))(cuBlockID c \<mapsto> c)\<rparr>\<rparr>"

definition applyCommittedSeal :: "'s pebble \<Rightarrow> SealBlock \<Rightarrow> 's outbox \<Rightarrow> outbox_err option \<times> 's outbox" where
  "applyCommittedSeal db seal o1 =
     (let put =
        (case PutPendingUpload db \<lparr>puBlockID = sbBlockId seal, puShardID = sbShardId seal, puSealedSizeBytes = sbSealedSizeBytes seal,
             puSealedAtUs = sbSealedAtUs seal, puUploadGeneration = 0\<rparr> (oxIndex o1) of
           (Some e, ix) \<Rightarrow> (Some (OutboxErr e), o1\<lparr>oxIndex := ix\<rparr>)
         | (None, ix) \<Rightarrow> (None, forgetUploadObligation (sbBlockId seal) (o1\<lparr>oxIndex := ix\<rparr>)))
      in case GetPendingUpload db (sbBlockId seal) (oxIndex o1) of
        Inl e \<Rightarrow> if e \<noteq> ErrPendingUploadNotFound then (Some (OutboxErr e), o1) else put
      | Inr pending \<Rightarrow> if puUploadGeneration pending > 0 then (None, forgetUploadObligation (sbBlockId seal) o1) else put)"

definition validateConfirmedUploadMatchesSeal :: "ConfirmedUpload \<Rightarrow> outbox_err option" where
  "validateConfirmedUploadMatchesSeal u =
     (if objSizeBytes (cuBlockObject u) \<noteq> cuSealedSizeBytes u then Some ErrConfirmUploadSealedMetadataMismatch else None)"

definition putConfirmedUploadFromCommand ::
  "record_json \<Rightarrow> 's pebble \<Rightarrow> bytes \<Rightarrow> ConfirmUpload \<Rightarrow> int \<Rightarrow> 's outbox \<Rightarrow> (outbox_err + ConfirmedUpload) \<times> 's outbox" where
  "putConfirmedUploadFromCommand J db rnd confirm sealedSize o1 =
     (let confirmed = confirmedUploadFromCommand confirm sealedSize in
      case validateConfirmedUploadMatchesSeal confirmed of Some e \<Rightarrow> (Inl e, o1)
      | None \<Rightarrow> (case writeConfirmedUploadAuthority rnd confirmed (oxDir o1) of
          (Some e, d) \<Rightarrow> (Inl (AuthorityErr e), o1\<lparr>oxDir := d\<rparr>)
        | (None, d) \<Rightarrow> (case PutConfirmedUpload J db confirmed (oxIndex o1) of
            (Some e, ix) \<Rightarrow> (Inl (OutboxErr e), o1\<lparr>oxDir := d, oxIndex := ix\<rparr>)
          | (None, ix) \<Rightarrow> (Inr confirmed, o1\<lparr>oxDir := d, oxIndex := ix\<rparr>))))"

definition applyConfirmWithoutPending ::
  "record_json \<Rightarrow> 's pebble \<Rightarrow> bytes \<Rightarrow> ConfirmUpload \<Rightarrow> upload_err \<Rightarrow> 's outbox \<Rightarrow> (outbox_err + ConfirmedUpload) \<times> 's outbox" where
  "applyConfirmWithoutPending J db rnd confirm pendingErr o1 =
     (if pendingErr \<noteq> ErrPendingUploadNotFound then (Inl (MissingSealedMetadata pendingErr), o1)
      else case GetConfirmedUpload J db (cfBlockId confirm) (oxIndex o1) of
        Inl catalogErr \<Rightarrow>
          (Inl (if catalogErr \<noteq> ErrConfirmedUploadNotFound then OutboxErr catalogErr else MissingSealedMetadata pendingErr), o1)
      | Inr existing \<Rightarrow>
          if cuUploadGeneration existing \<noteq> cfUploadGeneration confirm then (Inl ErrConfirmUploadGenerationMismatch, o1)
          else (case putConfirmedUploadFromCommand J db rnd confirm (cuSealedSizeBytes existing) o1 of
                  (Inl e, o2) \<Rightarrow> (Inl e, o2)
                | (Inr confirmed, o2) \<Rightarrow> (Inr confirmed, recordCommittedConfirmUpload confirmed o2)))"

definition applyCommittedConfirm ::
  "record_json \<Rightarrow> 's pebble \<Rightarrow> bytes \<Rightarrow> ConfirmUpload \<Rightarrow> 's outbox \<Rightarrow> (outbox_err + ConfirmedUpload) \<times> 's outbox" where
  "applyCommittedConfirm J db rnd confirm o1 =
     (case GetPendingUpload db (cfBlockId confirm) (oxIndex o1) of
        Inl e \<Rightarrow> applyConfirmWithoutPending J db rnd confirm e o1
      | Inr pending \<Rightarrow>
          if puUploadGeneration pending \<noteq> cfUploadGeneration confirm then (Inl ErrConfirmUploadGenerationMismatch, o1)
          else (case putConfirmedUploadFromCommand J db rnd confirm (puSealedSizeBytes pending) o1 of
                  (Inl e, o2) \<Rightarrow> (Inl e, o2)
                | (Inr confirmed, o2) \<Rightarrow>
                    (case DeletePendingUpload db (cfBlockId confirm) (oxIndex o2) of
                       (Some e, ix) \<Rightarrow> (Inl (OutboxErr e), o2\<lparr>oxIndex := ix\<rparr>)
                     | (None, ix) \<Rightarrow> (Inr confirmed, forgetUploadObligation (cfBlockId confirm) (recordCommittedConfirmUpload confirmed (o2\<lparr>oxIndex := ix\<rparr>))))))"

definition ApplyBlockSealed :: "'s pebble \<Rightarrow> blockSealedEvent \<Rightarrow> 's outbox \<Rightarrow> outbox_err option \<times> 's outbox" where
  "ApplyBlockSealed db event = applyCommittedSeal db (sealed_command event)"

definition ApplyUploadConfirmed ::
  "record_json \<Rightarrow> 's pebble \<Rightarrow> bytes \<Rightarrow> uploadConfirmedEvent \<Rightarrow> 's outbox \<Rightarrow> (outbox_err + ConfirmedUpload) \<times> 's outbox" where
  "ApplyUploadConfirmed J db rnd event = applyCommittedConfirm J db rnd (confirmed_command event)"

definition RecordBlockSealed :: "blockSealedEvent \<Rightarrow> 's outbox \<Rightarrow> 's outbox" where
  "RecordBlockSealed event o1 = o1\<lparr>oxLife := (oxLife o1)\<lparr>obligations := recordLocal (event_pendingUpload event) (obligations (oxLife o1))\<rparr>\<rparr>"

definition collectPendingUploads :: "'s pebble \<Rightarrow> 's Index \<Rightarrow> upload_err + PendingUpload list" where
  "collectPendingUploads db ix = (case PendingUploads db ix of Inl e \<Rightarrow> Inl e | Inr it \<Rightarrow> Inr (drop (iterNext it) (iterUploads it)))"

definition refreshPressure :: "'s pebble \<Rightarrow> 's outbox \<Rightarrow> upload_err + uploadPressureStats" where
  "refreshPressure db o1 =
     (case collectPendingUploads db (oxIndex o1) of Inl e \<Rightarrow> Inl e | Inr pending \<Rightarrow> Inr (pressureStats pending (obligations (oxLife o1))))"

text \<open>
  \<open>confirmedUploadAuthority\<close>: the record in memory, or the file, which is then kept in memory; the flag
  says whether it was read from the file.
\<close>

definition readCommittedConfirmUploadAuthority :: "u64 \<Rightarrow> 's outbox \<Rightarrow> (outbox_err + ConfirmedUpload) \<times> 's outbox" where
  "readCommittedConfirmUploadAuthority blockID o1 =
     (case readConfirmedUploadAuthority blockID (oxDir o1) of
        (Inl e, d) \<Rightarrow> (Inl (if e = MarkerNotExist then OutboxErr ErrConfirmedUploadNotFound else AuthorityErr e), o1\<lparr>oxDir := d\<rparr>)
      | (Inr c, d) \<Rightarrow> (Inr c, recordCommittedConfirmUpload c (o1\<lparr>oxDir := d\<rparr>)))"

definition ConfirmedUploadAuthority :: "u64 \<Rightarrow> 's outbox \<Rightarrow> (outbox_err + ConfirmedUpload \<times> bool) \<times> 's outbox" where
  "ConfirmedUploadAuthority blockID o1 =
     (case committedConfirmUploads (oxLife o1) blockID of
        Some c \<Rightarrow> (Inr (c, False), o1)
      | None \<Rightarrow> (case readCommittedConfirmUploadAuthority blockID o1 of
          (Inl e, o2) \<Rightarrow> (Inl e, o2)
        | (Inr c, o2) \<Rightarrow> (Inr (c, True), o2)))"

section \<open>Confirming an upload\<close>

definition authority :: "blocks_dir \<Rightarrow> u64 \<rightharpoonup> ConfirmedUpload" where
  "authority d b = (case dfiles d (confirmedUploadAuthorityPath b) of Some (AuthorityFile r) \<Rightarrow> Some (ConfirmedUpload.truncate r) | _ \<Rightarrow> None)"

lemma authority_path_inject [simp]: "confirmedUploadAuthorityPath a = confirmedUploadAuthorityPath b \<longleftrightarrow> a = b"
  by (simp add: confirmedUploadAuthorityPath_def)

lemma authority_tmp [simp]: "marker_tmp rnd p \<noteq> confirmedUploadAuthorityPath b" "confirmedUploadAuthorityPath b \<noteq> marker_tmp rnd p"
  using marker_tmp_fresh [of rnd p b authoritySuffix] by (simp_all add: confirmedUploadAuthorityPath_def eq_commute)

lemma authority_record [simp]:
  "ConfirmedUpload.truncate (ConfirmedUpload.extend u \<lparr>caVersion = v\<rparr>) = u" "caVersion (ConfirmedUpload.extend u \<lparr>caVersion = v\<rparr>) = v"
  "cuBlockID (ConfirmedUpload.extend u \<lparr>caVersion = v\<rparr>) = cuBlockID u"
  by (cases u; simp add: ConfirmedUpload.defs)+

text \<open>An upload the authority file and the catalog accept.\<close>

lemma validate_authority:
  "validateConfirmedUpload u = None \<Longrightarrow>
   validateConfirmedUploadAuthorityRecord (ConfirmedUpload.extend u \<lparr>caVersion = MarkerVersion\<rparr>) (cuBlockID u) = None"
  by (cases u) (auto simp: validateConfirmedUpload_def validateConfirmedUploadAuthorityRecord_def ConfirmedUpload.defs ValidateMarkerHeader_def
      validateBackendObjectMetadata_def validateConfirmedUploadAuthorityObject_def split: if_splits option.splits)

lemma writeConfirmedUploadAuthority_files:
  assumes "writeConfirmedUploadAuthority rnd u d = (e, d')"
  shows "\<forall>b. b \<noteq> cuBlockID u \<longrightarrow> authority d' b = authority d b"
    and "authority d' (cuBlockID u) = Some u \<or> e \<noteq> None \<and> authority d' (cuBlockID u) = authority d (cuBlockID u)"
proof -
  let ?p = "confirmedUploadAuthorityPath (cuBlockID u)" and ?c = "AuthorityFile (ConfirmedUpload.extend u \<lparr>caVersion = MarkerVersion\<rparr>)"
  have "(\<forall>n. n \<noteq> ?p \<longrightarrow> n \<noteq> marker_tmp rnd ?p \<longrightarrow> dfiles d' n = dfiles d n) \<and> (dfiles d' ?p = Some ?c \<or> e \<noteq> None \<and> dfiles d' ?p = dfiles d ?p)"
  proof (cases "validateConfirmedUploadAuthorityRecord (ConfirmedUpload.extend u \<lparr>caVersion = MarkerVersion\<rparr>) (cuBlockID u)")
    case None
    then have "WriteJSONMarker rnd ?p ?c d = (e, d')" using assms by (simp add: writeConfirmedUploadAuthority_def)
    from WriteJSONMarker_files [OF this] show ?thesis by (auto simp: touches_def)
  next
    case (Some err)
    then show ?thesis using assms by (auto simp: writeConfirmedUploadAuthority_def)
  qed
  then show "\<forall>b. b \<noteq> cuBlockID u \<longrightarrow> authority d' b = authority d b"
      "authority d' (cuBlockID u) = Some u \<or> e \<noteq> None \<and> authority d' (cuBlockID u) = authority d (cuBlockID u)"
    by (auto simp: authority_def)
qed

text \<open>What one attempt to record a confirmed upload has done, whatever calls failed: nothing to the
  catalog, or both the authority file and the catalog.\<close>

definition catalogued :: "record_json \<Rightarrow> ('s \<Rightarrow> bytes \<rightharpoonup> bytes) \<Rightarrow> ConfirmedUpload \<Rightarrow> 's outbox \<Rightarrow> 's outbox \<Rightarrow> bool" where
  "catalogued J contents c o1 o2 \<longleftrightarrow>
     confirmed_valid J (cuBlockID c) c \<and> objSizeBytes (cuBlockObject c) = cuSealedSizeBytes c \<and> authority (oxDir o2) (cuBlockID c) = Some c \<and>
     contents (idxdb (oxIndex o2)) = (contents (idxdb (oxIndex o1)))(confirmedUploadKey (cuBlockID c) \<mapsto> the (encodeConfirmedUpload J c))"

lemma putConfirmedUploadFromCommand_outcome:
  fixes confirm n
  defines "c \<equiv> confirmedUploadFromCommand confirm n"
  assumes "pebble_ok contents db" and "json_fits J c"
    and run: "putConfirmedUploadFromCommand J db rnd confirm n o1 = (r, o2)"
  shows "oxLife o2 = oxLife o1" and "\<forall>b. b \<noteq> cuBlockID c \<longrightarrow> authority (oxDir o2) b = authority (oxDir o1) b"
    and "r = Inr c \<and> catalogued J contents c o1 o2 \<or>
         (\<exists>e. r = Inl e \<and> e \<noteq> ErrConfirmUploadGenerationMismatch) \<and>
         (contents (idxdb (oxIndex o2)) = contents (idxdb (oxIndex o1)) \<or> catalogued J contents c o1 o2)"
proof -
  have "oxLife o2 = oxLife o1 \<and> (\<forall>b. b \<noteq> cuBlockID c \<longrightarrow> authority (oxDir o2) b = authority (oxDir o1) b) \<and>
    (r = Inr c \<and> catalogued J contents c o1 o2 \<or>
     (\<exists>e. r = Inl e \<and> e \<noteq> ErrConfirmUploadGenerationMismatch) \<and> (contents (idxdb (oxIndex o2)) = contents (idxdb (oxIndex o1)) \<or> catalogued J contents c o1 o2))"
  proof (cases "validateConfirmedUploadMatchesSeal c")
    case (Some e)
    then show ?thesis using run by (auto simp: putConfirmedUploadFromCommand_def c_def validateConfirmedUploadMatchesSeal_def Let_def split: if_splits)
  next
    case None
    then have sz: "objSizeBytes (cuBlockObject c) = cuSealedSizeBytes c" by (simp add: validateConfirmedUploadMatchesSeal_def split: if_splits)
    obtain we d where w: "writeConfirmedUploadAuthority rnd c (oxDir o1) = (we, d)" by (cases "writeConfirmedUploadAuthority rnd c (oxDir o1)")
    obtain pe ix where p: "PutConfirmedUpload J db c (oxIndex o1) = (pe, ix)" by (cases "PutConfirmedUpload J db c (oxIndex o1)")
    note wf = writeConfirmedUploadAuthority_files [OF w] and pf = PutConfirmedUpload_contents [OF assms(2) p assms(3)]
    show ?thesis
    proof (cases we)
      case (Some e)
      then show ?thesis using run None w wf(1) by (auto simp: putConfirmedUploadFromCommand_def c_def Let_def)
    next
      case no: None
      then have a: "authority d (cuBlockID c) = Some c" using wf(2) by simp
      have o2: "o2 = o1\<lparr>oxDir := d, oxIndex := ix\<rparr>" "r = (case pe of None \<Rightarrow> Inr c | Some e \<Rightarrow> Inl (OutboxErr e))"
        using run None w no p by (auto simp: putConfirmedUploadFromCommand_def c_def [symmetric] Let_def split: option.splits)
      then show ?thesis using wf(1) a sz pf by (cases pe) (auto simp: catalogued_def)
    qed
  qed
  then show "oxLife o2 = oxLife o1" and "\<forall>b. b \<noteq> cuBlockID c \<longrightarrow> authority (oxDir o2) b = authority (oxDir o1) b"
    and "r = Inr c \<and> catalogued J contents c o1 o2 \<or>
         (\<exists>e. r = Inl e \<and> e \<noteq> ErrConfirmUploadGenerationMismatch) \<and>
         (contents (idxdb (oxIndex o2)) = contents (idxdb (oxIndex o1)) \<or> catalogued J contents c o1 o2)"
    by blast+
qed

lemma catalogued_tables:
  assumes "catalogued J contents c o1 o2"
  shows "confirmed_rows J contents (oxIndex o2) = (confirmed_rows J contents (oxIndex o1))(cuBlockID c \<mapsto> c)"
    and "pending_rows contents (oxIndex o2) = pending_rows contents (oxIndex o1)"
    and "entries contents (oxIndex o2) = entries contents (oxIndex o1)"
    and "uploads_ok J contents (oxIndex o1) \<Longrightarrow> uploads_ok J contents (oxIndex o2)"
  using assms tables_confirmed_write [of J "cuBlockID c" c contents "oxIndex o2" "oxIndex o1"] by (auto simp: catalogued_def)

lemma pending_row_valid: "uploads_ok J contents ix \<Longrightarrow> pending_rows contents ix k = Some u \<Longrightarrow> pending_valid k u"
  unfolding uploads_ok_def pending_rows_def using outbox.table_valid by blast

lemma confirmed_row_valid: "uploads_ok J contents ix \<Longrightarrow> confirmed_rows J contents ix k = Some c \<Longrightarrow> confirmed_valid J k c"
  unfolding uploads_ok_def confirmed_rows_def using catalog.table_valid by blast

lemma kv_eq_tables:
  assumes "contents (idxdb ix') = contents (idxdb ix)"
  shows "pending_rows contents ix' = pending_rows contents ix \<and> confirmed_rows J contents ix' = confirmed_rows J contents ix \<and>
    entries contents ix' = entries contents ix \<and> uploads_ok J contents ix' = uploads_ok J contents ix"
  using tables_same [of contents ix' ix] assms by blast

text \<open>The upload a confirmation records for a sealed size.\<close>

definition upload_of :: "uploadConfirmedEvent \<Rightarrow> int \<Rightarrow> ConfirmedUpload" where
  "upload_of ev n = confirmedUploadFromCommand (confirmed_command ev) n"

lemma upload_of_sel [simp]:
  "cuBlockID (upload_of ev n) = ucBlockID ev" "cuUploadGeneration (upload_of ev n) = ucUploadGeneration ev" "cuSealedSizeBytes (upload_of ev n) = n"
  by (simp_all add: upload_of_def confirmedUploadFromCommand_def confirmed_command_def)

text \<open>The JSON encoding represents the record the confirmation of a known Block writes.\<close>

definition confirm_fits :: "record_json \<Rightarrow> ('s \<Rightarrow> bytes \<rightharpoonup> bytes) \<Rightarrow> uploadConfirmedEvent \<Rightarrow> 's Index \<Rightarrow> bool" where
  "confirm_fits J contents ev ix \<longleftrightarrow>
     (\<forall>n. n \<in> set_option (map_option puSealedSizeBytes (pending_rows contents ix (ucBlockID ev))) \<union>
              set_option (map_option cuSealedSizeBytes (confirmed_rows J contents ix (ucBlockID ev))) \<longrightarrow> json_fits J (upload_of ev n))"

text \<open>
  The state after a confirmation, whatever calls failed: the tables as they were; the upload recorded;
  or the upload recorded and its row taken out of the outbox.
\<close>

inductive confirm_outcome :: "record_json \<Rightarrow> ('s \<Rightarrow> bytes \<rightharpoonup> bytes) \<Rightarrow> uploadConfirmedEvent \<Rightarrow> 's outbox \<Rightarrow> 's outbox \<Rightarrow> bool"
  for J :: record_json and contents :: "'s \<Rightarrow> bytes \<rightharpoonup> bytes" and ev :: uploadConfirmedEvent and o1 :: "'s outbox" where
  untouched: "contents (idxdb (oxIndex o2)) = contents (idxdb (oxIndex o1)) \<Longrightarrow> confirm_outcome J contents ev o1 o2"
| recorded: "catalogued J contents (upload_of ev n) o1 o2 \<Longrightarrow>
    (\<And>u. pending_rows contents (oxIndex o1) (ucBlockID ev) = Some u \<Longrightarrow> n = puSealedSizeBytes u \<and> puUploadGeneration u = ucUploadGeneration ev) \<Longrightarrow>
    confirm_outcome J contents ev o1 o2"
| cleared: "pending_rows contents (oxIndex o1) (ucBlockID ev) = Some u \<Longrightarrow> puUploadGeneration u = ucUploadGeneration ev \<Longrightarrow>
    catalogued J contents (upload_of ev (puSealedSizeBytes u)) o1 o' \<Longrightarrow> ucBlockID ev \<noteq> 0 \<Longrightarrow> oxDir o2 = oxDir o' \<Longrightarrow>
    contents (idxdb (oxIndex o2)) = (contents (idxdb (oxIndex o')))(pendingUploadKey (ucBlockID ev) := None) \<Longrightarrow>
    confirm_outcome J contents ev o1 o2"

lemma putConfirmed_cases:
  assumes "pebble_ok contents db" and "json_fits J (upload_of ev n)"
    and "putConfirmedUploadFromCommand J db rnd (confirmed_command ev) n o1 = (r, o2)"
  shows "r = Inr (upload_of ev n) \<and> catalogued J contents (upload_of ev n) o1 o2 \<or>
         (\<exists>e. r = Inl e \<and> e \<noteq> ErrConfirmUploadGenerationMismatch) \<and>
         (contents (idxdb (oxIndex o2)) = contents (idxdb (oxIndex o1)) \<or> catalogued J contents (upload_of ev n) o1 o2)"
  using putConfirmedUploadFromCommand_outcome(3) [OF assms(1) _ assms(3)] assms(2) by (simp add: upload_of_def)

lemma putConfirmed_authority:
  assumes "pebble_ok contents db" and "json_fits J (upload_of ev n)"
    and "putConfirmedUploadFromCommand J db rnd (confirmed_command ev) n o1 = (r, o2)"
  shows "\<forall>b. b \<noteq> ucBlockID ev \<longrightarrow> authority (oxDir o2) b = authority (oxDir o1) b"
  using putConfirmedUploadFromCommand_outcome(2) [OF assms(1) _ assms(3)] assms(2) upload_of_sel(1) [of ev n] by (simp add: upload_of_def)

lemma oxIndex_updates [simp]:
  "oxIndex (forgetUploadObligation b o1) = oxIndex o1" "oxDir (forgetUploadObligation b o1) = oxDir o1"
  "oxIndex (recordCommittedConfirmUpload c o1) = oxIndex o1" "oxDir (recordCommittedConfirmUpload c o1) = oxDir o1"
  by (simp_all add: forgetUploadObligation_def recordCommittedConfirmUpload_def)

lemma ApplyUploadConfirmed_pending:
  assumes ok: "pebble_ok contents db" "uploads_ok J contents (oxIndex o1)"
    and fits: "confirm_fits J contents ev (oxIndex o1)"
    and run: "ApplyUploadConfirmed J db rnd ev o1 = (r, o2)"
    and get: "GetPendingUpload db (ucBlockID ev) (oxIndex o1) = Inr u"
  shows "confirm_outcome J contents ev o1 o2 \<and> (\<forall>b. b \<noteq> ucBlockID ev \<longrightarrow> authority (oxDir o2) b = authority (oxDir o1) b) \<and>
    (r = Inl ErrConfirmUploadGenerationMismatch \<longrightarrow> o2 = o1)"
proof (cases "puUploadGeneration u = ucUploadGeneration ev")
  case False
  then have "r = Inl ErrConfirmUploadGenerationMismatch" "o2 = o1"
    using run get by (auto simp: ApplyUploadConfirmed_def applyCommittedConfirm_def confirmed_command_def)
  then show ?thesis by (auto intro: untouched)
next
  case True
  note row = GetPendingUpload_ok [OF ok(1) get]
  then have fit: "json_fits J (upload_of ev (puSealedSizeBytes u))" using fits by (auto simp: confirm_fits_def)
  obtain r1 o' where p: "putConfirmedUploadFromCommand J db rnd (confirmed_command ev) (puSealedSizeBytes u) o1 = (r1, o')"
    by (cases "putConfirmedUploadFromCommand J db rnd (confirmed_command ev) (puSealedSizeBytes u) o1")
  note pc = putConfirmed_cases [OF ok(1) fit p] and pa = putConfirmed_authority [OF ok(1) fit p]
  have cmd: "cfBlockId (confirmed_command ev) = ucBlockID ev" "cfUploadGeneration (confirmed_command ev) = ucUploadGeneration ev"
    by (simp_all add: confirmed_command_def)
  show ?thesis
  proof (cases r1)
    case (Inl e)
    then have "o2 = o'" "r = Inl e" using run get True p by (auto simp: ApplyUploadConfirmed_def applyCommittedConfirm_def cmd)
    then show ?thesis using pc pa Inl row True by (auto intro: untouched recorded)
  next
    case (Inr c)
    then have cat: "catalogued J contents (upload_of ev (puSealedSizeBytes u)) o1 o'" using pc by auto
    obtain de ix where d: "DeletePendingUpload db (ucBlockID ev) (oxIndex o') = (de, ix)" by (cases "DeletePendingUpload db (ucBlockID ev) (oxIndex o')")
    have o2: "oxIndex o2 = ix" "oxDir o2 = oxDir o'" "r \<noteq> Inl ErrConfirmUploadGenerationMismatch"
      using run get True p Inr d by (auto simp: ApplyUploadConfirmed_def applyCommittedConfirm_def cmd split: option.splits)
    from DeletePendingUpload_contents [OF ok(1) d]
    have "confirm_outcome J contents ev o1 o2"
    proof (elim disjE conjE)
      assume "contents (idxdb ix) = contents (idxdb (oxIndex o'))"
      then have "catalogued J contents (upload_of ev (puSealedSizeBytes u)) o1 o2" using cat o2 by (simp add: catalogued_def)
      then show ?thesis using row True by (intro recorded) auto
    qed (use cleared [OF row True cat] o2 in auto)
    then show ?thesis using o2 pa by simp
  qed
qed

lemma ApplyUploadConfirmed_absent:
  assumes ok: "pebble_ok contents db" "uploads_ok J contents (oxIndex o1)"
    and fits: "confirm_fits J contents ev (oxIndex o1)"
    and run: "ApplyUploadConfirmed J db rnd ev o1 = (r, o2)"
    and get: "GetPendingUpload db (ucBlockID ev) (oxIndex o1) = Inl e"
  shows "confirm_outcome J contents ev o1 o2 \<and> (\<forall>b. b \<noteq> ucBlockID ev \<longrightarrow> authority (oxDir o2) b = authority (oxDir o1) b) \<and>
    (r = Inl ErrConfirmUploadGenerationMismatch \<longrightarrow> o2 = o1)"
proof -
  have cmd: "cfBlockId (confirmed_command ev) = ucBlockID ev" "cfUploadGeneration (confirmed_command ev) = ucUploadGeneration ev"
    by (simp_all add: confirmed_command_def)
  have run': "applyConfirmWithoutPending J db rnd (confirmed_command ev) e o1 = (r, o2)"
    using run get by (simp add: ApplyUploadConfirmed_def applyCommittedConfirm_def cmd)
  show ?thesis
  proof (cases "e = ErrPendingUploadNotFound")
    case False
    then show ?thesis using run' by (auto simp: applyConfirmWithoutPending_def intro: untouched)
  next
    case True
    then have none: "pending_rows contents (oxIndex o1) (ucBlockID ev) = None" using GetPendingUpload_missing [OF ok(1)] get by blast
    show ?thesis
    proof (cases "GetConfirmedUpload J db (ucBlockID ev) (oxIndex o1)")
      case (Inl ce)
      then show ?thesis using run' True by (auto simp: applyConfirmWithoutPending_def cmd intro: untouched split: if_splits)
    next
      case (Inr existing)
      show ?thesis
      proof (cases "cuUploadGeneration existing = ucUploadGeneration ev")
        case False
        then show ?thesis using run' True Inr by (auto simp: applyConfirmWithoutPending_def cmd intro: untouched)
      next
        case gen: True
        have fit: "json_fits J (upload_of ev (cuSealedSizeBytes existing))"
          using fits GetConfirmedUpload_ok [OF ok(1) Inr] by (auto simp: confirm_fits_def)
        obtain r1 o' where p: "putConfirmedUploadFromCommand J db rnd (confirmed_command ev) (cuSealedSizeBytes existing) o1 = (r1, o')"
          by (cases "putConfirmedUploadFromCommand J db rnd (confirmed_command ev) (cuSealedSizeBytes existing) o1")
        have o2: "oxIndex o2 = oxIndex o'" "oxDir o2 = oxDir o'" "r = r1"
          using run' True Inr gen p by (auto simp: applyConfirmWithoutPending_def cmd split: sum.splits)
        have cat: "catalogued J contents c o1 o2 = catalogued J contents c o1 o'" for c using o2 by (simp add: catalogued_def)
        show ?thesis
          using putConfirmed_cases [OF ok(1) fit p] putConfirmed_authority [OF ok(1) fit p] o2 none
          by (auto simp: cat [symmetric] intro: untouched recorded)
      qed
    qed
  qed
qed

lemma ApplyUploadConfirmed_outcome:
  assumes "pebble_ok contents db" "uploads_ok J contents (oxIndex o1)" "confirm_fits J contents ev (oxIndex o1)"
    and "ApplyUploadConfirmed J db rnd ev o1 = (r, o2)"
  shows "confirm_outcome J contents ev o1 o2" and "b \<noteq> ucBlockID ev \<Longrightarrow> authority (oxDir o2) b = authority (oxDir o1) b"
    and "r = Inl ErrConfirmUploadGenerationMismatch \<Longrightarrow> o2 = o1"
  using ApplyUploadConfirmed_pending [OF assms] ApplyUploadConfirmed_absent [OF assms]
  by (cases "GetPendingUpload db (ucBlockID ev) (oxIndex o1)"; blast)+

text \<open>What an outcome means for the tables.\<close>

lemma confirm_outcome_tables:
  assumes "confirm_outcome J contents ev o1 o2"
  shows "entries contents (oxIndex o2) = entries contents (oxIndex o1) \<and>
    (uploads_ok J contents (oxIndex o1) \<longrightarrow> uploads_ok J contents (oxIndex o2)) \<and>
    (\<forall>b. b \<noteq> ucBlockID ev \<longrightarrow> pending_rows contents (oxIndex o2) b = pending_rows contents (oxIndex o1) b \<and>
       confirmed_rows J contents (oxIndex o2) b = confirmed_rows J contents (oxIndex o1) b) \<and>
    (\<forall>u. pending_rows contents (oxIndex o1) (ucBlockID ev) = Some u \<longrightarrow>
       pending_rows contents (oxIndex o2) (ucBlockID ev) = Some u \<or>
       puUploadGeneration u = ucUploadGeneration ev \<and> objSizeBytes (ucBlockObject ev) = puSealedSizeBytes u \<and>
       confirmed_rows J contents (oxIndex o2) (ucBlockID ev) = Some (upload_of ev (puSealedSizeBytes u)) \<and>
       authority (oxDir o2) (ucBlockID ev) = Some (upload_of ev (puSealedSizeBytes u)))"
  using assms
proof cases
  case untouched
  from kv_eq_tables [OF this] show ?thesis by auto
next
  case (recorded n)
  note t = catalogued_tables [OF recorded(1)]
  show ?thesis by (simp add: t(1,2,3)) (use t(4) in blast)
next
  case (cleared u o')
  note t = catalogued_tables [OF cleared(3)] and d = tables_pending_delete [of _ contents, OF cleared(4,6)]
  have "objSizeBytes (ucBlockObject ev) = puSealedSizeBytes u" "authority (oxDir o') (ucBlockID ev) = Some (upload_of ev (puSealedSizeBytes u))"
    using cleared(3) by (simp_all add: catalogued_def upload_of_def confirmedUploadFromCommand_def confirmed_command_def indexBackendObject_def)
  then show ?thesis using cleared(1,2,5) t(4) d(4) by (simp add: d(1,2,3) t(1,2,3))
qed


text \<open>Reading and writing the tables when no call fails.\<close>

lemma GetPendingUpload_total:
  assumes "pebble_ok contents db" and "pebble_total db" and "k \<noteq> 0"
  shows "pending_rows contents ix k = Some u \<Longrightarrow> GetPendingUpload db k ix = Inr u"
    and "contents (idxdb ix) (pendingUploadKey k) = None \<Longrightarrow> GetPendingUpload db k ix = Inl ErrPendingUploadNotFound"
  using assms by (auto simp: GetPendingUpload_def pending_rows_def outbox.table_def pebble_Get_total split: option.splits sum.splits)

lemma GetConfirmedUpload_total:
  assumes "pebble_ok contents db" and "pebble_total db" and "k \<noteq> 0"
  shows "confirmed_rows J contents ix k = Some c \<Longrightarrow> GetConfirmedUpload J db k ix = Inr c"
  using assms by (auto simp: GetConfirmedUpload_def confirmed_rows_def catalog.table_def pebble_Get_total split: option.splits sum.splits)

lemma upload_rows_absent:
  assumes "uploads_ok J contents ix" and "k \<noteq> 0"
  shows "pending_rows contents ix k = None \<Longrightarrow> contents (idxdb ix) (pendingUploadKey k) = None"
    and "confirmed_rows J contents ix k = None \<Longrightarrow> contents (idxdb ix) (confirmedUploadKey k) = None"
  using assms outbox.rows_ok_absent [of "contents (idxdb ix)" k] catalog.rows_ok_absent [of J "contents (idxdb ix)" k]
  by (simp_all add: uploads_ok_def pending_rows_def confirmed_rows_def)

lemma DeletePendingUpload_total:
  assumes "pebble_ok contents db" and "pebble_total db" and "k \<noteq> 0"
  shows "\<exists>ix'. DeletePendingUpload db k ix = (None, ix') \<and> contents (idxdb ix') = (contents (idxdb ix))(pendingUploadKey k := None)"
  using pebble_Delete_total [OF assms(1,2), of "pendingUploadKey k" "idxdb ix"] assms(3) by (auto simp: DeletePendingUpload_def durable_def)

lemma refreshPressure_total:
  assumes "pebble_ok contents db" and "pebble_total db" and "uploads_ok J contents (oxIndex o1)"
  shows "\<exists>stats. refreshPressure db o1 = Inr stats"
proof -
  obtain xs ok where it: "pb_Iter db pendingUploadPrefix (Some pendingUploadUpperBound) (idxdb (oxIndex o1)) = (xs, ok)" by (metis surj_pair)
  have ok: "ok" using assms(2) it unfolding pebble_total_def by (metis snd_conv)
  have rows: "outbox.rows_ok (contents (idxdb (oxIndex o1)))" using assms(3) by (simp add: uploads_ok_def)
  obtain us where "decode_pairs decodePendingUpload xs = Inr us"
    using outbox.scan_table [OF rows pebble_Iter(1,3) [OF assms(1) it], OF ok] by auto
  then show ?thesis using it ok by (simp add: refreshPressure_def collectPendingUploads_def PendingUploads_def scan_def)
qed

lemma putConfirmedUploadFromCommand_total:
  assumes "pebble_ok contents db" and "pebble_total db" and "confirmed_valid J (ucBlockID ev) (upload_of ev n)"
    and sz: "objSizeBytes (ucBlockObject ev) = n"
    and "dsched (oxDir o1) = []" and "dfiles (oxDir o1) (marker_tmp rnd (confirmedUploadAuthorityPath (ucBlockID ev))) = None"
  shows "\<exists>o2. putConfirmedUploadFromCommand J db rnd (confirmed_command ev) n o1 = (Inr (upload_of ev n), o2) \<and>
    catalogued J contents (upload_of ev n) o1 o2"
proof -
  let ?c = "upload_of ev n"
  have v: "validateConfirmedUpload ?c = None" and j: "json_fits J ?c" using assms(3) by (simp_all add: confirmed_valid_def)
  obtain val where val: "encodeConfirmedUpload J ?c = Some val" using j by (auto simp: json_fits_def split: option.splits)
  have m: "validateConfirmedUploadMatchesSeal ?c = None"
    using sz by (simp add: validateConfirmedUploadMatchesSeal_def upload_of_def confirmedUploadFromCommand_def confirmed_command_def indexBackendObject_def)
  obtain d where w: "writeConfirmedUploadAuthority rnd ?c (oxDir o1) = (None, d)"
    using WriteJSONMarker_calm [OF assms(5,6)] validate_authority [OF v] by (simp add: writeConfirmedUploadAuthority_def)
  obtain ix where p: "PutConfirmedUpload J db ?c (oxIndex o1) = (None, ix)"
    using pebble_Set_total [OF assms(1,2), of "confirmedUploadKey (ucBlockID ev)" val "idxdb (oxIndex o1)"] v val
    by (auto simp: PutConfirmedUpload_def durable_def)
  have r: "putConfirmedUploadFromCommand J db rnd (confirmed_command ev) n o1 = (Inr ?c, o1\<lparr>oxDir := d, oxIndex := ix\<rparr>)"
    using m w p by (simp add: putConfirmedUploadFromCommand_def upload_of_def [symmetric] Let_def)
  then show ?thesis using putConfirmed_cases [OF assms(1) j r] by auto
qed

lemma confirm_pending_total:
  fixes ev and u :: PendingUpload
  defines "c \<equiv> upload_of ev (puSealedSizeBytes u)"
  assumes pb: "pebble_ok contents db" "pebble_total db"
    and row: "pending_rows contents (oxIndex o1) (ucBlockID ev) = Some u"
    and gen: "puUploadGeneration u = ucUploadGeneration ev" and sz: "objSizeBytes (ucBlockObject ev) = puSealedSizeBytes u"
    and cv: "confirmed_valid J (ucBlockID ev) c"
    and dir: "dsched (oxDir o1) = []" "dfiles (oxDir o1) (marker_tmp rnd (confirmedUploadAuthorityPath (ucBlockID ev))) = None"
  shows "\<exists>o2 o'. ApplyUploadConfirmed J db rnd ev o1 = (Inr c, o2) \<and> ucBlockID ev \<noteq> 0 \<and> catalogued J contents c o1 o' \<and> oxDir o2 = oxDir o' \<and>
    contents (idxdb (oxIndex o2)) = (contents (idxdb (oxIndex o')))(pendingUploadKey (ucBlockID ev) := None)"
proof -
  have b0: "ucBlockID ev \<noteq> 0" using cv by (simp add: confirmed_valid_def)
  obtain o' where p: "putConfirmedUploadFromCommand J db rnd (confirmed_command ev) (puSealedSizeBytes u) o1 = (Inr c, o')" "catalogued J contents c o1 o'"
    using putConfirmedUploadFromCommand_total [OF pb cv [unfolded c_def] sz dir] by (auto simp: c_def)
  obtain ix where d: "DeletePendingUpload db (ucBlockID ev) (oxIndex o') = (None, ix)"
      "contents (idxdb ix) = (contents (idxdb (oxIndex o')))(pendingUploadKey (ucBlockID ev) := None)"
    using DeletePendingUpload_total [OF pb b0] by blast
  have "cfBlockId (confirmed_command ev) = ucBlockID ev" "cfUploadGeneration (confirmed_command ev) = ucUploadGeneration ev"
    by (simp_all add: confirmed_command_def)
  then have "ApplyUploadConfirmed J db rnd ev o1 =
      (Inr c, forgetUploadObligation (ucBlockID ev) (recordCommittedConfirmUpload c (o'\<lparr>oxIndex := ix\<rparr>)))"
    using GetPendingUpload_total(1) [OF pb b0 row] gen p(1) d(1) by (simp add: ApplyUploadConfirmed_def applyCommittedConfirm_def)
  then show ?thesis using b0 p(2) d(2) by (intro exI [of _ "forgetUploadObligation (ucBlockID ev) (recordCommittedConfirmUpload c (o'\<lparr>oxIndex := ix\<rparr>))"] exI [of _ o']) auto
qed

lemma confirm_tables:
  assumes "catalogued J contents c o1 o'" and "cuBlockID c \<noteq> 0" and "oxDir o2 = oxDir o'"
    and "contents (idxdb (oxIndex o2)) = (contents (idxdb (oxIndex o')))(pendingUploadKey (cuBlockID c) := None)"
  shows "pending_rows contents (oxIndex o2) (cuBlockID c) = None" "confirmed_rows J contents (oxIndex o2) (cuBlockID c) = Some c"
    "authority (oxDir o2) (cuBlockID c) = Some c"
  using catalogued_tables [OF assms(1)] tables_pending_delete [of _ contents, OF assms(2,4)] assms(1,3) by (simp_all add: catalogued_def)

text \<open>
  C13: applying a committed confirmation survives a crash. Let the apply of a confirmation that matches
  the pending row be interrupted after any number of its steps, with any calls failing. When the log is
  replayed by a restarted Shard over what is on disk, with no further fault, the same confirmation
  succeeds: the catalog and the authority file record the upload and the Block is no longer pending.
\<close>

theorem confirm_replay_completes:
  assumes "pebble_ok contents db" and "uploads_ok J contents (oxIndex o1)" and "confirm_fits J contents ev (oxIndex o1)"
    and row: "pending_rows contents (oxIndex o1) (ucBlockID ev) = Some u"
    and gen: "puUploadGeneration u = ucUploadGeneration ev" and sz: "objSizeBytes (ucBlockObject ev) = puSealedSizeBytes u"
    and valid: "validateConfirmedUpload (upload_of ev (puSealedSizeBytes u)) = None"
    and "ApplyUploadConfirmed J db rnd ev o1 = (r, o2)"
    and restart: "pebble_ok contents db'" "pebble_total db'" "oxIndex o3 = oxIndex o2" "dfiles (oxDir o3) = dfiles (oxDir o2)" "dsched (oxDir o3) = []"
      "dfiles (oxDir o3) (marker_tmp rnd' (confirmedUploadAuthorityPath (ucBlockID ev))) = None"
  shows "\<exists>o4. ApplyUploadConfirmed J db' rnd' ev o3 = (Inr (upload_of ev (puSealedSizeBytes u)), o4) \<and>
    pending_rows contents (oxIndex o4) (ucBlockID ev) = None \<and>
    confirmed_rows J contents (oxIndex o4) (ucBlockID ev) = Some (upload_of ev (puSealedSizeBytes u)) \<and>
    authority (oxDir o4) (ucBlockID ev) = Some (upload_of ev (puSealedSizeBytes u))"
proof -
  let ?b = "ucBlockID ev" and ?c = "upload_of ev (puSealedSizeBytes u)"
  have cmd: "cfBlockId (confirmed_command ev) = ?b" "cfUploadGeneration (confirmed_command ev) = ucUploadGeneration ev"
    by (simp_all add: confirmed_command_def)
  have b0: "?b \<noteq> 0" using valid by (auto simp: validateConfirmedUpload_def)
  have cv: "confirmed_valid J ?b ?c" using valid b0 assms(3) row by (auto simp: confirmed_valid_def confirm_fits_def)
  obtain o5 where p: "putConfirmedUploadFromCommand J db' rnd' (confirmed_command ev) (puSealedSizeBytes u) o3 = (Inr ?c, o5)"
      "catalogued J contents ?c o3 o5"
    using putConfirmedUploadFromCommand_total [OF restart(1,2) cv sz restart(5,6)] by blast
  have c5: "authority (oxDir o5) ?b = Some ?c" using p(2) by (simp add: catalogued_def)
  note t5 = catalogued_tables [OF p(2)]
  consider (kept) "pending_rows contents (oxIndex o3) ?b = Some u" | (gone) o' where "catalogued J contents ?c o1 o'"
      "contents (idxdb (oxIndex o2)) = (contents (idxdb (oxIndex o')))(pendingUploadKey ?b := None)"
    using ApplyUploadConfirmed_outcome(1) [OF assms(1-3,8)]
  proof cases
    case untouched
    from kv_eq_tables [OF this] show ?thesis using row restart(3) kept by simp
  next
    case (recorded n)
    show ?thesis using catalogued_tables(2) [OF recorded(1)] row restart(3) kept by simp
  next
    case (cleared u' o')
    then show ?thesis using row gone by auto
  qed
  then show ?thesis
  proof cases
    case kept
    from confirm_pending_total [OF restart(1,2) kept gen sz cv restart(5,6)]
    obtain o4 o' where "ApplyUploadConfirmed J db' rnd' ev o3 = (Inr ?c, o4)" "catalogued J contents ?c o3 o'" "oxDir o4 = oxDir o'"
        "contents (idxdb (oxIndex o4)) = (contents (idxdb (oxIndex o')))(pendingUploadKey ?b := None)"
      by blast
    then show ?thesis using confirm_tables [of J contents ?c o3 o' o4] b0 by simp
  next
    case gone
    have "contents (idxdb (oxIndex o3)) (pendingUploadKey ?b) = None" using gone(2) restart(3) by simp
    note g = GetPendingUpload_total(2) [OF restart(1,2) b0 this]
    have "confirmed_rows J contents (oxIndex o3) ?b = Some ?c"
      using catalogued_tables(1) [OF gone(1)] tables_pending_delete(2) [of _ contents, OF b0 gone(2)] restart(3) by simp
    note gc = GetConfirmedUpload_total [OF restart(1,2) b0 this]
    have "pending_rows contents (oxIndex o3) ?b = None"
      using tables_pending_delete(1) [of _ contents, OF b0 gone(2)] restart(3) by simp
    then show ?thesis using g gc p(1) c5
      by (simp add: ApplyUploadConfirmed_def applyCommittedConfirm_def applyConfirmWithoutPending_def cmd t5(1,2))
  qed
qed

text \<open>Sealing a Block that is not in the outbox.\<close>

lemma ApplyBlockSealed_total:
  assumes pb: "pebble_ok contents db" "pebble_total db" and b: "evBlockID e \<noteq> 0"
    and none: "contents (idxdb (oxIndex o1)) (pendingUploadKey (evBlockID e)) = None"
    and ranges: "0 \<le> evSealedSizeBytes e" "0 \<le> evSealedAtUs e" "pending_int64 (event_pendingUpload e)"
  shows "\<exists>o2. ApplyBlockSealed db e o1 = (None, o2) \<and> oxDir o2 = oxDir o1 \<and>
    pending_valid (evBlockID e) (event_pendingUpload e) \<and>
    contents (idxdb (oxIndex o2)) = (contents (idxdb (oxIndex o1)))(pendingUploadKey (evBlockID e) \<mapsto> encodePendingUpload (event_pendingUpload e))"
proof -
  let ?u = "event_pendingUpload e"
  obtain ix where p: "PutPendingUpload db ?u (oxIndex o1) = (None, ix)"
      "contents (idxdb ix) = (contents (idxdb (oxIndex o1)))(pendingUploadKey (evBlockID e) \<mapsto> encodePendingUpload ?u)"
    using pebble_Set_total [OF pb, of "pendingUploadKey (evBlockID e)" "encodePendingUpload ?u" "idxdb (oxIndex o1)"] b ranges
    by (auto simp: PutPendingUpload_def durable_def event_pendingUpload_def)
  have "pending_valid (evBlockID e) ?u" using b ranges by (simp add: pending_valid_def pending_int64_def event_pendingUpload_def)
  then show ?thesis using p GetPendingUpload_total(2) [OF pb b none]
    by (simp add: ApplyBlockSealed_def applyCommittedSeal_def sealed_command_def event_pendingUpload_def)
qed

text \<open>
  C30: replaying the log can move the confirmed-upload record of a Block back to an older upload. A
  restarted Shard replays the entries since the last snapshot over a Projection that already holds
  their effects. When a Block was sealed and confirmed, then requeued under a later generation by a
  historical index append, and confirmed again, the replayed seal reopens the outbox row with
  generation 0, the replayed first confirmation matches it and overwrites the catalog and the
  authority file with the older upload, and the replayed second confirmation is rejected as stale.
\<close>

theorem replay_regresses_confirmed_upload:
  assumes pb: "pebble_ok contents db" "pebble_total db"
    and settled: "contents (idxdb (oxIndex o1)) (pendingUploadKey b) = None" "confirmed_rows J contents (oxIndex o1) b = Some newer"
      "cuUploadGeneration newer = ucUploadGeneration second"
    and seal: "evBlockID sealed = b" "0 \<le> evSealedSizeBytes sealed" "0 \<le> evSealedAtUs sealed" "pending_int64 (event_pendingUpload sealed)"
    and "first": "ucBlockID first = b" "ucUploadGeneration first = 0" "objSizeBytes (ucBlockObject first) = evSealedSizeBytes sealed"
      "confirmed_valid J b (upload_of first (evSealedSizeBytes sealed))"
    and second: "ucBlockID second = b" "ucUploadGeneration second \<noteq> 0"
    and dir: "dsched (oxDir o1) = []" "dfiles (oxDir o1) (marker_tmp rnd (confirmedUploadAuthorityPath b)) = None"
  shows "\<exists>o2 o3. ApplyBlockSealed db sealed o1 = (None, o2) \<and>
    ApplyUploadConfirmed J db rnd first o2 = (Inr (upload_of first (evSealedSizeBytes sealed)), o3) \<and>
    ApplyUploadConfirmed J db rnd' second o3 = (Inl ErrConfirmUploadGenerationMismatch, o3) \<and>
    confirmed_rows J contents (oxIndex o3) b = Some (upload_of first (evSealedSizeBytes sealed)) \<and>
    authority (oxDir o3) b = Some (upload_of first (evSealedSizeBytes sealed)) \<and>
    cuUploadGeneration (upload_of first (evSealedSizeBytes sealed)) \<noteq> cuUploadGeneration newer"
proof -
  let ?u = "event_pendingUpload sealed" and ?c = "upload_of first (evSealedSizeBytes sealed)"
  have b0: "b \<noteq> 0" using first(4) by (simp add: confirmed_valid_def)
  obtain o2 where o2: "ApplyBlockSealed db sealed o1 = (None, o2)" "oxDir o2 = oxDir o1" "pending_valid b ?u"
      "contents (idxdb (oxIndex o2)) = (contents (idxdb (oxIndex o1)))(pendingUploadKey b \<mapsto> encodePendingUpload ?u)"
    using ApplyBlockSealed_total [OF pb, of sealed o1] settled(1) seal b0 by auto
  have row: "pending_rows contents (oxIndex o2) (ucBlockID first) = Some ?u"
    using tables_pending_write(1) [of _ _ contents, OF o2(3,4)] first(1) by simp
  have u: "puUploadGeneration ?u = ucUploadGeneration first" "objSizeBytes (ucBlockObject first) = puSealedSizeBytes ?u"
      "confirmed_valid J (ucBlockID first) (upload_of first (puSealedSizeBytes ?u))"
    using first by (simp_all add: event_pendingUpload_def)
  obtain o3 o' where o3: "ApplyUploadConfirmed J db rnd first o2 = (Inr ?c, o3)" "catalogued J contents ?c o2 o'" "oxDir o3 = oxDir o'"
      "contents (idxdb (oxIndex o3)) = (contents (idxdb (oxIndex o')))(pendingUploadKey b := None)"
    using confirm_pending_total [OF pb row u, of rnd] dir o2(2) first(1) by (auto simp: event_pendingUpload_def)
  have t: "confirmed_rows J contents (oxIndex o3) b = Some ?c" "authority (oxDir o3) b = Some ?c"
    using confirm_tables [of J contents ?c o2 o' o3] o3(2,3,4) b0 first(1) by simp_all
  have "GetPendingUpload db b (oxIndex o3) = Inl ErrPendingUploadNotFound"
    by (rule GetPendingUpload_total(2) [OF pb b0]) (simp add: o3(4))
  then have "ApplyUploadConfirmed J db rnd' second o3 = (Inl ErrConfirmUploadGenerationMismatch, o3)"
    using GetConfirmedUpload_total [OF pb b0 t(1)] second first(2)
    by (simp add: ApplyUploadConfirmed_def applyCommittedConfirm_def applyConfirmWithoutPending_def confirmed_command_def)
  then show ?thesis using o2(1) o3(1) t settled(3) second(2) first(2) by auto
qed

section \<open>Obligations and pressure\<close>

text \<open>The Blocks a Shard still owes a seal for, by Block id.\<close>

definition owed :: "uploadObligation list \<Rightarrow> u64 \<rightharpoonup> PendingUpload" where
  "owed obs = map_of (map (\<lambda>ob. (puBlockID (obUpload ob), obUpload ob)) obs)"

definition obligations_ok :: "uploadObligation list \<Rightarrow> bool" where
  "obligations_ok obs \<longleftrightarrow> distinct (map (puBlockID \<circ> obUpload) obs)"

lemma owed_simps [simp]:
  "owed [] = Map.empty" "owed (ob # obs) = (owed obs)(puBlockID (obUpload ob) \<mapsto> obUpload ob)"
  by (simp_all add: owed_def)

lemma owed_append: "owed (xs @ ys) = owed ys ++ owed xs"
  by (simp add: owed_def)

lemma owed_same_uploads: "map obUpload xs = map obUpload ys \<Longrightarrow> owed xs = owed ys \<and> obligations_ok xs = obligations_ok ys"
proof -
  assume eq: "map obUpload xs = map obUpload ys"
  have "map (\<lambda>ob. (puBlockID (obUpload ob), obUpload ob)) zs = map (\<lambda>u. (puBlockID u, u)) (map obUpload zs)" for zs by simp
  moreover have "map (puBlockID \<circ> obUpload) zs = map puBlockID (map obUpload zs)" for zs by simp
  ultimately show ?thesis using eq unfolding owed_def obligations_ok_def by metis
qed

lemma owed_dom: "dom (owed obs) = puBlockID ` obUpload ` set obs"
  by (auto simp: owed_def dom_map_of_conv_image_fst image_image)

lemma owed_recordLocal:
  assumes "obligations_ok obs"
  shows "owed (recordLocal u obs) = (owed obs)(puBlockID u \<mapsto> u)" and "obligations_ok (recordLocal u obs)"
proof -
  let ?m = "\<lambda>ob. puBlockID (obUpload ob) = puBlockID u" and ?f = "\<lambda>ob. if puBlockID (obUpload ob) = puBlockID u then ob\<lparr>obUpload := u\<rparr> else ob"
  have ids: "map (puBlockID \<circ> obUpload) (map ?f obs) = map (puBlockID \<circ> obUpload) obs" by simp
  have absent: "\<not> list_ex ?m obs \<Longrightarrow> map ?f obs = obs" by (rule map_idI) (auto simp: list_ex_iff)
  have "list_ex ?m obs \<Longrightarrow> owed (map ?f obs) = (owed obs)(puBlockID u \<mapsto> u)" using assms
  proof (induction obs)
    case (Cons ob obs)
    show ?case
    proof (cases "?m ob")
      case True
      then have "map ?f obs = obs" using Cons.prems(2) by (intro map_idI) (force simp: obligations_ok_def)
      then show ?thesis using True by (simp add: fun_eq_iff)
    next
      case False
      then show ?thesis using Cons by (auto simp: obligations_ok_def fun_upd_twist)
    qed
  qed simp
  then show "owed (recordLocal u obs) = (owed obs)(puBlockID u \<mapsto> u)"
  proof (cases "list_ex ?m obs")
    case False
    then have "owed obs (puBlockID u) = None" using owed_dom [of obs] by (force simp: list_ex_iff dom_def)
    then have "[puBlockID u \<mapsto> u] ++ owed obs = (owed obs)(puBlockID u \<mapsto> u)" by (simp add: fun_eq_iff map_add_def split: option.splits)
    then show ?thesis using absent False by (simp add: recordLocal_def Let_def owed_append)
  qed (simp add: recordLocal_def Let_def)
  show "obligations_ok (recordLocal u obs)"
    using assms ids by (auto simp: recordLocal_def Let_def obligations_ok_def list_ex_iff simp del: map_map)
qed

lemma owed_forget: "owed (forget b obs) = (owed obs)(b := None)" "obligations_ok obs \<Longrightarrow> obligations_ok (forget b obs)"
proof -
  show "owed (forget b obs) = (owed obs)(b := None)" by (induction obs) (auto simp: forget_def fun_upd_twist)
  show "obligations_ok obs \<Longrightarrow> obligations_ok (forget b obs)" by (simp add: forget_def obligations_ok_def distinct_map_filter)
qed

lemma owed_retry:
  "beginRetry now later obs = (us, obs') \<Longrightarrow> owed obs' = owed obs \<and> obligations_ok obs' = obligations_ok obs"
  "owed (markRetryFailed b later obs) = owed obs \<and> obligations_ok (markRetryFailed b later obs) = obligations_ok obs"
proof -
  show "beginRetry now later obs = (us, obs') \<Longrightarrow> owed obs' = owed obs \<and> obligations_ok obs' = obligations_ok obs"
    by (rule owed_same_uploads) (auto simp: beginRetry_def)
  show "owed (markRetryFailed b later obs) = owed obs \<and> obligations_ok (markRetryFailed b later obs) = obligations_ok obs"
    by (rule owed_same_uploads) (auto simp: markRetryFailed_def)
qed

lemma fold_addPendingUpload:
  assumes "list_all (\<lambda>u. 0 \<le> puSealedSizeBytes u) us" and "pendingBytes st \<le> MaxInt64"
  shows "fold addPendingUpload us st = \<lparr>pendingBytes = min MaxInt64 (pendingBytes st + sum_list (map puSealedSizeBytes us)),
    pendingBlocks = pendingBlocks st + int (length us)\<rparr>"
  using assms
proof (induction us arbitrary: st)
  case (Cons u us)
  have "pendingBytes (addPendingUpload u st) = min MaxInt64 (pendingBytes st + puSealedSizeBytes u)" by (simp add: addPendingUpload_def min_def)
  moreover have "pendingBlocks (addPendingUpload u st) = pendingBlocks st + 1" by (simp add: addPendingUpload_def)
  moreover have "0 \<le> sum_list (map puSealedSizeBytes us)" using Cons.prems(1) by (intro sum_list_nonneg) (auto simp: list_all_iff)
  ultimately show ?case using Cons by (simp add: min_def)
qed simp

lemma sum_list_table:
  assumes "distinct (map g us)" and "\<forall>u \<in> set us. p (g u) = Some u"
  shows "sum_list (map f us) = (\<Sum>k \<in> g ` set us. f (the (p k)) :: int)" and "int (length us) = int (card (g ` set us))"
proof -
  have inj: "inj_on g (set us)" and d: "distinct us" using assms(1) by (auto simp: distinct_map)
  have "(\<Sum>k \<in> g ` set us. f (the (p k))) = (\<Sum>u \<in> set us. f u)" unfolding sum.reindex [OF inj] using assms(2) by (intro sum.cong) auto
  then show "sum_list (map f us) = (\<Sum>k \<in> g ` set us. f (the (p k)))" using sum_list_distinct_conv_sum_set [OF d, of f] by simp
  show "int (length us) = int (card (g ` set us))" using card_image [OF inj] distinct_card [OF d] by simp
qed

lemma owed_row: "obligations_ok obs \<Longrightarrow> ob \<in> set obs \<Longrightarrow> owed obs (puBlockID (obUpload ob)) = Some (obUpload ob)"
  unfolding owed_def by (rule map_of_is_SomeI) (auto simp: obligations_ok_def comp_def)

text \<open>
  C38: the upload pressure of a Shard counts every Block that still has to be uploaded exactly once:
  the Blocks in the outbox and the closed Blocks that are owed a seal and are not yet in it. The byte
  total is the sum of their sealed sizes, saturated at the largest \<open>int64\<close>; it never wraps.
\<close>

theorem upload_pressure_exact:
  assumes "pebble_ok contents db" and "uploads_ok J contents (oxIndex o1)" and "obligations_ok (obligations (oxLife o1))"
    and sizes: "list_all (\<lambda>ob. 0 \<le> puSealedSizeBytes (obUpload ob)) (obligations (oxLife o1))"
    and "refreshPressure db o1 = Inr stats"
  shows "pendingBlocks stats = int (card (dom (pending_rows contents (oxIndex o1)) \<union> dom (owed (obligations (oxLife o1))))) \<and>
    pendingBytes stats = min MaxInt64
      ((\<Sum>b \<in> dom (pending_rows contents (oxIndex o1)). puSealedSizeBytes (the (pending_rows contents (oxIndex o1) b))) +
       (\<Sum>b \<in> dom (owed (obligations (oxLife o1))) - dom (pending_rows contents (oxIndex o1)). puSealedSizeBytes (the (owed (obligations (oxLife o1)) b))))"
proof -
  let ?p = "pending_rows contents (oxIndex o1)" and ?obs = "obligations (oxLife o1)"
  obtain it where it: "PendingUploads db (oxIndex o1) = Inr it" "stats = pressureStats (drop (iterNext it) (iterUploads it)) ?obs"
    using assms(5) by (auto simp: refreshPressure_def collectPendingUploads_def split: sum.splits)
  define us where "us = iterUploads it"
  note sc = scan_outbox [OF assms(1,2) it(1)]
  have us: "distinct (map puBlockID us)" "\<forall>u \<in> set us. ?p (puBlockID u) = Some u"
    using sc(2,3) by (auto simp: us_def strict_sorted_iff)
  have dom: "dom ?p = puBlockID ` set us"
  proof -
    have "b \<in> puBlockID ` set us" if "?p b = Some u" for b u
      using pending_row_valid [OF assms(2) that] that sc(3) by (auto simp: us_def pending_valid_def)
    then show ?thesis using us(2) by (auto simp: dom_def)
  qed
  define new where "new = filter (\<lambda>u. puBlockID u \<notin> puBlockID ` set us) (map obUpload ?obs)"
  have nw: "distinct (map puBlockID new)" "\<forall>u \<in> set new. owed ?obs (puBlockID u) = Some u"
    using assms(3) owed_row [OF assms(3)] by (auto simp: new_def obligations_ok_def intro!: distinct_map_filter)
  have newdom: "puBlockID ` set new = dom (owed ?obs) - dom ?p" by (auto simp: new_def dom owed_dom)
  have "list_all (\<lambda>u. 0 \<le> puSealedSizeBytes u) us" "list_all (\<lambda>u. 0 \<le> puSealedSizeBytes u) new"
    using sizes us(2) pending_row_valid [OF assms(2)] by (auto simp: new_def list_all_iff pending_valid_def)
  then have stats: "stats = \<lparr>pendingBytes = min MaxInt64 (min MaxInt64 (sum_list (map puSealedSizeBytes us)) + sum_list (map puSealedSizeBytes new)),
      pendingBlocks = int (length us) + int (length new)\<rparr>"
    using it(2) sc(1) by (simp add: pressureStats_def Let_def us_def [symmetric] new_def [symmetric] fold_addPendingUpload MaxInt64_def)
  have nn: "0 \<le> sum_list (map puSealedSizeBytes new)" using sizes by (intro sum_list_nonneg) (auto simp: new_def list_all_iff)
  have "int (card (dom ?p)) + int (card (dom (owed ?obs) - dom ?p)) = int (card (dom ?p \<union> dom (owed ?obs)))"
    using card_Un_disjoint [of "dom ?p" "dom (owed ?obs) - dom ?p"] by (simp add: dom owed_dom)
  then have "pendingBlocks stats = int (card (dom ?p \<union> dom (owed ?obs)))"
    using stats sum_list_table(2) [OF us] sum_list_table(2) [OF nw] by (simp only: newdom dom [symmetric] uploadPressureStats.simps)
  moreover have "pendingBytes stats = min MaxInt64 ((\<Sum>b \<in> dom ?p. puSealedSizeBytes (the (?p b))) + (\<Sum>b \<in> dom (owed ?obs) - dom ?p. puSealedSizeBytes (the (owed ?obs b))))"
    using stats nn sum_list_table(1) [OF us, of puSealedSizeBytes] sum_list_table(1) [OF nw, of puSealedSizeBytes]
    by (simp only: newdom dom [symmetric] uploadPressureStats.simps)
  ultimately show ?thesis by blast
qed

text \<open>The calls a Shard makes on its obligations, and what each does to the set of Blocks it owes.\<close>

datatype obligation_call = RecordLocal PendingUpload | Forget u64 | BeginRetry int int | RetryFailed u64 int

fun obligation_step :: "uploadObligation list \<Rightarrow> obligation_call \<Rightarrow> uploadObligation list" where
  "obligation_step obs (RecordLocal u) = recordLocal u obs"
| "obligation_step obs (Forget b) = forget b obs"
| "obligation_step obs (BeginRetry now retryAfter) = snd (beginRetry now retryAfter obs)"
| "obligation_step obs (RetryFailed b retryAfter) = markRetryFailed b retryAfter obs"

fun owed_step :: "(u64 \<rightharpoonup> PendingUpload) \<Rightarrow> obligation_call \<Rightarrow> (u64 \<rightharpoonup> PendingUpload)" where
  "owed_step m (RecordLocal u) = m(puBlockID u \<mapsto> u)"
| "owed_step m (Forget b) = m(b := None)"
| "owed_step m _ = m"

fun deadline :: "obligation_call \<Rightarrow> int" where
  "deadline (BeginRetry now retryAfter) = retryAfter"
| "deadline (RetryFailed b retryAfter) = retryAfter"
| "deadline _ = time_zero"

lemma obligation_step_owed:
  "obligations_ok obs \<Longrightarrow> obligations_ok (obligation_step obs c) \<and> owed (obligation_step obs c) = owed_step (owed obs) c"
  using owed_retry(1) [of _ _ obs, OF surjective_pairing] by (cases c) (simp_all add: owed_recordLocal owed_forget owed_retry(2))

lemma obligation_step_deadline:
  "\<forall>ob \<in> set obs. obRetryAfter ob \<le> t \<Longrightarrow> deadline c \<le> t \<Longrightarrow> time_zero \<le> t \<Longrightarrow> \<forall>ob \<in> set (obligation_step obs c). obRetryAfter ob \<le> t"
  by (cases c) (auto simp: recordLocal_def forget_def beginRetry_def markRetryFailed_def Let_def)

lemma obligation_run:
  assumes "obligations_ok obs" and "\<forall>ob \<in> set obs. obRetryAfter ob \<le> t" and "list_all (\<lambda>c. deadline c \<le> t) cs" and "time_zero \<le> t"
  shows "obligations_ok (foldl obligation_step obs cs) \<and> owed (foldl obligation_step obs cs) = foldl owed_step (owed obs) cs \<and>
    (\<forall>ob \<in> set (foldl obligation_step obs cs). obRetryAfter ob \<le> t)"
  using assms
proof (induction cs arbitrary: obs)
  case (Cons c cs)
  have c: "deadline c \<le> t" "list_all (\<lambda>c. deadline c \<le> t) cs" using Cons.prems(3) by simp_all
  note s = obligation_step_owed [OF Cons.prems(1), of c]
  note ih = Cons.IH [OF conjunct1 [OF s] obligation_step_deadline [OF Cons.prems(2) c(1) Cons.prems(4)] c(2) Cons.prems(4)]
  show ?case unfolding foldl_Cons conjunct2 [OF s, symmetric] by (rule ih)
qed simp

lemma owed_ran: "obligations_ok obs \<Longrightarrow> ran (owed obs) = obUpload ` set obs"
proof -
  assume "obligations_ok obs"
  then have "distinct (map fst (map (\<lambda>ob. (puBlockID (obUpload ob), obUpload ob)) obs))" by (simp add: obligations_ok_def comp_def)
  then show ?thesis unfolding owed_def by (simp add: ran_distinct image_image)
qed


section \<open>Witnesses\<close>

definition sample_event :: uploadConfirmedEvent where
  "sample_event = uploadConfirmedEventFromUpload sample_confirmed"

definition sample_outbox :: "(bytes \<times> bytes) list outbox" where
  "sample_outbox =
     \<lparr>oxIndex = snd (PutPendingUpload mem_pebble sample_pending empty_index), oxDir = \<lparr>dfiles = Map.empty, dsched = []\<rparr>,
      oxLife = \<lparr>obligations = [], committedConfirmUploads = Map.empty\<rparr>\<rparr>"

lemma sample_outbox_facts:
  shows "pending_rows map_of (oxIndex sample_outbox) 3 = Some sample_pending" and "pending_rows map_of (oxIndex sample_outbox) = [3 \<mapsto> sample_pending]"
    and "uploads_ok plain_json map_of (oxIndex sample_outbox)" and "confirm_fits plain_json map_of sample_event (oxIndex sample_outbox)"
    and "upload_of sample_event 4096 = sample_confirmed" and "ucBlockID sample_event = 3"
proof -
  have ok: "uploads_ok plain_json map_of empty_index"
    by (simp add: uploads_ok_def outbox.rows_ok_def catalog.rows_ok_def empty_index_def)
  have pi: "pending_int64 sample_pending" by (simp add: pending_int64_def sample_pending_def is_int64_def)
  have "fst (PutPendingUpload mem_pebble sample_pending empty_index) = None"
    by (simp add: PutPendingUpload_def sample_pending_def durable_def mem_pebble_def)
  then have w: "pending_valid (puBlockID sample_pending) sample_pending" "map_of (idxdb (oxIndex sample_outbox)) =
      (map_of (idxdb empty_index))(pendingUploadKey (puBlockID sample_pending) \<mapsto> encodePendingUpload sample_pending)"
    using PutPendingUpload_contents [OF mem_pebble_ok surjective_pairing pi, of empty_index] by (auto simp: sample_outbox_def)
  have e: "pending_rows map_of empty_index = Map.empty" "confirmed_rows plain_json map_of empty_index = Map.empty"
    by (auto simp: pending_rows_def confirmed_rows_def outbox.table_def catalog.table_def empty_index_def)
  note t = tables_pending_write [of _ _ map_of, OF w]
  show p: "pending_rows map_of (oxIndex sample_outbox) = [3 \<mapsto> sample_pending]" using t(1) e by (simp add: sample_pending_def)
  then show "pending_rows map_of (oxIndex sample_outbox) 3 = Some sample_pending" by simp
  show "uploads_ok plain_json map_of (oxIndex sample_outbox)" using t(4) ok by simp
  show ev: "ucBlockID sample_event = 3" and u: "upload_of sample_event 4096 = sample_confirmed"
    by (simp_all add: sample_event_def uploadConfirmedEventFromUpload_def sample_confirmed_def upload_of_def confirmedUploadFromCommand_def
        confirmed_command_def indexBackendObject_def)
  have "json_fits plain_json sample_confirmed" by (rule plain_json_fits) (simp_all add: sample_confirmed_def is_int64_def)
  then show "confirm_fits plain_json map_of sample_event (oxIndex sample_outbox)"
    using u ev p e t(2) by (simp add: confirm_fits_def sample_pending_def)
qed


text \<open>The apply fails at its first call of the directory; the replay runs on what it left.\<close>

definition sample_crashed :: "(bytes \<times> bytes) list outbox" where
  "sample_crashed = snd (ApplyUploadConfirmed plain_json mem_pebble (lit ''6'') sample_event (sample_outbox\<lparr>oxDir := \<lparr>dfiles = Map.empty, dsched = [False]\<rparr>\<rparr>))"

lemma sample_valid: "validateConfirmedUpload sample_confirmed = None" "confirmed_valid plain_json 3 sample_confirmed"
proof -
  show v: "validateConfirmedUpload sample_confirmed = None"
    by (simp add: validateConfirmedUpload_def sample_confirmed_def validateBackendObjectMetadata_def lit_def)
  have "json_fits plain_json sample_confirmed" by (rule plain_json_fits) (simp_all add: sample_confirmed_def is_int64_def)
  then show "confirmed_valid plain_json 3 sample_confirmed" using v by (simp add: confirmed_valid_def sample_confirmed_def)
qed

lemma sample_crashed_files: "dfiles (oxDir sample_crashed) = Map.empty"
proof -
  let ?o = "sample_outbox\<lparr>oxDir := \<lparr>dfiles = Map.empty, dsched = [False]\<rparr>\<rparr>"
  have w: "snd (writeConfirmedUploadAuthority (lit ''6'') sample_confirmed (oxDir ?o)) = \<lparr>dfiles = Map.empty, dsched = []\<rparr>"
      "fst (writeConfirmedUploadAuthority (lit ''6'') sample_confirmed (oxDir ?o)) \<noteq> None"
    using validate_authority [OF sample_valid(1)] by (simp_all add: writeConfirmedUploadAuthority_def WriteJSONMarker_def os_CreateTemp_def next_ok_def)
  then obtain e where e: "writeConfirmedUploadAuthority (lit ''6'') sample_confirmed (oxDir ?o) = (Some e, \<lparr>dfiles = Map.empty, dsched = []\<rparr>)"
    by (cases "writeConfirmedUploadAuthority (lit ''6'') sample_confirmed (oxDir ?o)") auto
  have g: "GetPendingUpload mem_pebble 3 (oxIndex ?o) = Inr sample_pending"
    using GetPendingUpload_total(1) [OF mem_pebble_ok mem_pebble_total] sample_outbox_facts(1) by simp
  have "validateConfirmedUploadMatchesSeal sample_confirmed = None" by (simp add: validateConfirmedUploadMatchesSeal_def sample_confirmed_def)
  then have "putConfirmedUploadFromCommand plain_json mem_pebble (lit ''6'') (confirmed_command sample_event) 4096 ?o =
      (Inl (AuthorityErr e), ?o\<lparr>oxDir := \<lparr>dfiles = Map.empty, dsched = []\<rparr>\<rparr>)"
    using e sample_outbox_facts(5) by (simp add: putConfirmedUploadFromCommand_def upload_of_def Let_def)
  then show ?thesis using g sample_outbox_facts(6)
    by (simp add: sample_crashed_def ApplyUploadConfirmed_def applyCommittedConfirm_def confirmed_command_def sample_pending_def
        sample_event_def uploadConfirmedEventFromUpload_def sample_confirmed_def)
qed

theorem confirm_replay_completes_witness:
  "\<exists>o4. ApplyUploadConfirmed plain_json mem_pebble (lit ''7'') sample_event (sample_crashed\<lparr>oxDir := calm (oxDir sample_crashed)\<rparr>) = (Inr sample_confirmed, o4) \<and>
     pending_rows map_of (oxIndex o4) 3 = None \<and> confirmed_rows plain_json map_of (oxIndex o4) 3 = Some sample_confirmed \<and>
     authority (oxDir o4) 3 = Some sample_confirmed"
proof -
  let ?o = "sample_outbox\<lparr>oxDir := \<lparr>dfiles = Map.empty, dsched = [False]\<rparr>\<rparr>"
  have s: "puUploadGeneration sample_pending = ucUploadGeneration sample_event" "objSizeBytes (ucBlockObject sample_event) = puSealedSizeBytes sample_pending"
      "puSealedSizeBytes sample_pending = 4096"
    by (simp_all add: sample_pending_def sample_event_def uploadConfirmedEventFromUpload_def sample_confirmed_def)
  show ?thesis
    using confirm_replay_completes [OF mem_pebble_ok, of plain_json ?o sample_event sample_pending "lit ''6''"
        "fst (ApplyUploadConfirmed plain_json mem_pebble (lit ''6'') sample_event ?o)" sample_crashed mem_pebble
        "sample_crashed\<lparr>oxDir := calm (oxDir sample_crashed)\<rparr>" "lit ''7''"]
      sample_outbox_facts s sample_valid sample_crashed_files mem_pebble_ok mem_pebble_total
    by (simp add: sample_crashed_def)
qed


lemma sample_pressure: "\<not> isl (refreshPressure mem_pebble sample_outbox)"
  by code_simp

theorem upload_pressure_exact_witness:
  "\<exists>stats. refreshPressure mem_pebble sample_outbox = Inr stats \<and> pendingBlocks stats = 1 \<and> pendingBytes stats = 4096"
proof -
  have p: "pending_rows map_of (oxIndex sample_outbox) = [3 \<mapsto> sample_pending]" by (rule sample_outbox_facts(2))
  obtain stats where s: "refreshPressure mem_pebble sample_outbox = Inr stats"
    using sample_pressure by (cases "refreshPressure mem_pebble sample_outbox") auto
  have l: "obligations (oxLife sample_outbox) = []" "puSealedSizeBytes sample_pending = 4096" by (simp_all add: sample_outbox_def sample_pending_def)
  have "pendingBlocks stats = 1 \<and> pendingBytes stats = 4096"
    using upload_pressure_exact [OF mem_pebble_ok sample_outbox_facts(3) _ _ s] by (simp add: p l obligations_ok_def MaxInt64_def)
  then show ?thesis using s by blast
qed

definition sample_sealed :: blockSealedEvent where
  "sample_sealed = blockSealedEventFromPending sample_pending"

definition sample_newer :: ConfirmedUpload where
  "sample_newer = sample_confirmed\<lparr>cuUploadGeneration := 7\<rparr>"

definition sample_settled :: "(bytes \<times> bytes) list outbox" where
  "sample_settled = sample_outbox\<lparr>oxIndex := snd (PutConfirmedUpload plain_json mem_pebble sample_newer empty_index)\<rparr>"

theorem replay_regresses_confirmed_upload_witness:
  "\<exists>o2 o3. ApplyBlockSealed mem_pebble sample_sealed sample_settled = (None, o2) \<and>
     ApplyUploadConfirmed plain_json mem_pebble [] sample_event o2 = (Inr sample_confirmed, o3) \<and>
     ApplyUploadConfirmed plain_json mem_pebble [] (uploadConfirmedEventFromUpload sample_newer) o3 = (Inl ErrConfirmUploadGenerationMismatch, o3) \<and>
     confirmed_rows plain_json map_of (oxIndex sample_settled) 3 = Some sample_newer \<and> confirmed_rows plain_json map_of (oxIndex o3) 3 = Some sample_confirmed"
proof -
  have fits: "json_fits plain_json sample_newer" by (rule plain_json_fits) (simp_all add: sample_newer_def sample_confirmed_def is_int64_def)
  have v: "validateConfirmedUpload sample_newer = None" "cuBlockID sample_newer = 3"
    by (simp_all add: validateConfirmedUpload_def sample_newer_def sample_confirmed_def validateBackendObjectMetadata_def lit_def)
  have "fst (PutConfirmedUpload plain_json mem_pebble sample_newer empty_index) = None"
    using v fits by (auto simp: PutConfirmedUpload_def durable_def mem_pebble_def json_fits_def split: option.splits)
  then have w: "confirmed_valid plain_json 3 sample_newer"
      "map_of (idxdb (oxIndex sample_settled)) = (map_of (idxdb empty_index))(confirmedUploadKey 3 \<mapsto> the (encodeConfirmedUpload plain_json sample_newer))"
    using PutConfirmedUpload_contents [OF mem_pebble_ok surjective_pairing fits, of empty_index] v by (auto simp: sample_settled_def)
  have c: "confirmed_rows plain_json map_of (oxIndex sample_settled) 3 = Some sample_newer"
    using tables_confirmed_write(1) [of _ _ _ map_of, OF w] by simp
  have n: "map_of (idxdb (oxIndex sample_settled)) (pendingUploadKey 3) = None"
    by (simp add: w(2) upload_keys_disjoint empty_index_def)
  have d: "dsched (oxDir sample_settled) = []" "dfiles (oxDir sample_settled) = Map.empty" by (simp_all add: sample_settled_def sample_outbox_def)
  have s: "evBlockID sample_sealed = 3" "evSealedSizeBytes sample_sealed = 4096" "evSealedAtUs sample_sealed = 17" "pending_int64 (event_pendingUpload sample_sealed)"
    by (simp_all add: sample_sealed_def blockSealedEventFromPending_def sample_pending_def pending_int64_def event_pendingUpload_def is_int64_def)
  have e: "ucUploadGeneration sample_event = 0" "objSizeBytes (ucBlockObject sample_event) = 4096" "cuUploadGeneration sample_newer = 7"
      "ucBlockID (uploadConfirmedEventFromUpload sample_newer) = 3" "ucUploadGeneration (uploadConfirmedEventFromUpload sample_newer) = 7"
    by (simp_all add: sample_event_def uploadConfirmedEventFromUpload_def sample_confirmed_def sample_newer_def)
  show ?thesis
    using replay_regresses_confirmed_upload [OF mem_pebble_ok mem_pebble_total n c, of "uploadConfirmedEventFromUpload sample_newer" sample_sealed sample_event "[]" "[]"]
      s e d c sample_valid(2) sample_outbox_facts(5,6) by auto
qed

end
