(* ===== verification/Shard_Commit.thy ===== *)
theory Shard_Commit
  imports Projection_Resolve Shard_Outbox
begin

text \<open>
  Applying a committed Document: \<open>applyCommitDocument\<close> and its helpers in \<open>internal/shard/projection.go\<close>,
  with \<open>replay_conflict.go\<close>, \<open>upload_generation.go\<close> and the cleanup of \<open>openlog.go\<close>. The apply appends
  the Document to the index file of its Block and counts it in the Projection; it has to survive a
  crash between the two and a replay of the log over a state that already holds the Document.
\<close>

section \<open>State\<close>

record OpenlogEntry =
  olTransactionId :: bytes
  olDocumentName :: bytes
  olBlockId :: u64
  olStartOffset :: u64
  olContentType :: bytes
  olIdempotencyKey :: bytes

record CommitDocument =
  cdTransactionId :: bytes
  cdDocumentName :: bytes
  cdContentType :: bytes
  cdIdempotencyKey :: bytes
  cdBlockId :: u64
  cdFirstFrameOff :: u64
  cdFrameCount :: u32
  cdTotalBytes :: int
  cdSha256 :: bytes
  cdCreatedAtUs :: int
  cdEncryptionEnvelope :: bytes
  cdProposalId :: bytes

text \<open>
  The part of \<open>Shard\<close> the apply works on: the Projection with the upload lifecycle, the index and
  Block files, the open Block with its index writer, and the openlog directory, whose files are the
  decoded preparation records (\<open>None\<close>: not decodable).
\<close>

record 's shard =
  shOutbox :: "'s outbox"
  shIdxNil :: bool
  shIdxFiles :: "u64 \<rightharpoonup> bytes"
  shBlkFiles :: "u64 \<rightharpoonup> bytes"
  shOpen :: "(u64 \<times> osfile) option"
  shOpenlog :: "OpenlogEntry option dirfs"
  shUploadEnabled :: bool
  shShardID :: u64

datatype commit_err =
    ErrDataLoss string
  | CorruptDuplicateMetadata
  | ImmutableDocumentConflict
  | CommitProjection proj_err
  | CommitIndexFile open_err
  | CommitUpload upload_err
  | CommitStat

text \<open>
  The outcomes of the file operations of one apply: opening, repairing and reopening the index of the
  first, second, ... Block of the Transaction and of the Document's own Block, appending to a
  historical index, the stat of the Block file and the listing of the openlog directory.
\<close>

record index_io =
  ioOpen :: "io_outcome list"
  ioRepair :: "io_outcome list"
  ioReopen :: "io_outcome list"

record apply_env =
  aeInspect :: "nat \<Rightarrow> index_io"
  aeContains :: index_io
  aeAppend :: "io_outcome list"
  aeStat :: bool
  aeOpenlog :: "bytes list option"

abbreviation shIndex :: "'s shard \<Rightarrow> 's Index" where "shIndex st \<equiv> oxIndex (shOutbox st)"

definition with_index :: "'s Index \<Rightarrow> 's shard \<Rightarrow> 's shard" where
  "with_index ix st = st\<lparr>shOutbox := (shOutbox st)\<lparr>oxIndex := ix\<rparr>\<rparr>"

text \<open>The bytes at the path of an index file: the open Block's are those of its writer.\<close>

definition idx_content :: "'s shard \<Rightarrow> u64 \<rightharpoonup> bytes" where
  "idx_content st b = (case shOpen st of Some (b', f) \<Rightarrow> if b' = b then Some (fdata f) else shIdxFiles st b | None \<Rightarrow> shIdxFiles st b)"

definition set_idx :: "u64 \<Rightarrow> bytes \<Rightarrow> 's shard \<Rightarrow> 's shard" where
  "set_idx b content st =
     (case shOpen st of
        Some (b', f) \<Rightarrow> if b' = b then st\<lparr>shOpen := Some (b', f\<lparr>fdata := content\<rparr>)\<rparr> else st\<lparr>shIdxFiles := (shIdxFiles st)(b \<mapsto> content)\<rparr>
      | None \<Rightarrow> st\<lparr>shIdxFiles := (shIdxFiles st)(b \<mapsto> content)\<rparr>)"

section \<open>Conflicts\<close>

definition duplicateDocumentMatches :: "bytes \<Rightarrow> bytes \<Rightarrow> int \<Rightarrow> IndexEntry \<Rightarrow> bool" where
  "duplicateDocumentMatches contentType digest bodySize existing \<longleftrightarrow>
     ContentType existing = contentType \<and> TotalBytes existing = bodySize \<and> SHA256 existing = digest"

definition commitDocumentMatchesExisting :: "CommitDocument \<Rightarrow> IndexEntry \<Rightarrow> bool" where
  "commitDocumentMatchesExisting doc existing \<longleftrightarrow>
     length (cdSha256 doc) = 32 \<and> duplicateDocumentMatches (cdContentType doc) (cdSha256 doc) (cdTotalBytes doc) existing"

definition uploadGenerationFromApplyIndex :: "u64 \<Rightarrow> int \<Rightarrow> int" where
  "uploadGenerationFromApplyIndex entryIndex fallback =
     (if 0 < entryIndex \<and> int (unat entryIndex) \<le> MaxInt64 then int (unat entryIndex) else fallback)"

definition safeUint64ToInt64 :: "u64 \<Rightarrow> int" where
  "safeUint64ToInt64 v = (if int (unat v) > MaxInt64 then MaxInt64 else int (unat v))"

section \<open>Cleaning the openlog\<close>

definition openlogPrepMatchesCommit :: "OpenlogEntry \<Rightarrow> CommitDocument \<Rightarrow> bool" where
  "openlogPrepMatchesCommit e doc \<longleftrightarrow>
     olTransactionId e = cdTransactionId doc \<and> olDocumentName e = cdDocumentName doc \<and> olBlockId e = cdBlockId doc \<and>
     olStartOffset e = cdFirstFrameOff doc"

definition prepSuffix :: bytes where "prepSuffix = lit ''.prep''"

text \<open>\<open>os.ReadFile\<close> and \<open>proto.Unmarshal\<close> of a preparation record.\<close>

definition read_prep :: "bytes \<Rightarrow> OpenlogEntry option dirfs \<Rightarrow> OpenlogEntry option \<times> OpenlogEntry option dirfs" where
  "read_prep name d =
     (case next_ok d of (ok, d1) \<Rightarrow> (if \<not> ok then None else case dfiles d1 name of None \<Rightarrow> None | Some e \<Rightarrow> e, d1))"

definition cleanupCommittedOpenlogPrep :: "CommitDocument \<Rightarrow> bytes \<Rightarrow> OpenlogEntry option dirfs \<Rightarrow> OpenlogEntry option dirfs" where
  "cleanupCommittedOpenlogPrep doc name d =
     (case read_prep name d of
        (None, d1) \<Rightarrow> d1
      | (Some e, d1) \<Rightarrow> if openlogPrepMatchesCommit e doc then snd (os_Remove name d1) else d1)"

definition cleanupCommittedOpenlogPreps :: "bytes list option \<Rightarrow> CommitDocument \<Rightarrow> 's shard \<Rightarrow> 's shard" where
  "cleanupCommittedOpenlogPreps listing doc st =
     (case listing of None \<Rightarrow> st
      | Some names \<Rightarrow> st\<lparr>shOpenlog := fold (cleanupCommittedOpenlogPrep doc) (filter (\<lambda>n. HasSuffix n prepSuffix) names) (shOpenlog st)\<rparr>)"

section \<open>Inspecting the Projection\<close>

record commitProjectionState =
  targetExists :: bool
  targetCounted :: bool
  existing :: IndexEntry
  existingBlockID :: u64

definition zero_entry :: IndexEntry where
  "zero_entry = \<lparr>TransactionID = [], DocName = [], ContentType = [], CreatedAt = time_zero, FirstFrameOff = 0, FrameCount = 0,
     TotalBytes = 0, SHA256 = replicate 32 0, EncryptionEnvelope = []\<rparr>"

definition zero_state :: commitProjectionState where
  "zero_state = \<lparr>targetExists = False, targetCounted = False, existing = zero_entry, existingBlockID = 0\<rparr>"

text \<open>\<open>Inr None\<close>: the Transaction is not in the Projection.\<close>

definition commitProjectionEntry :: "'s pebble \<Rightarrow> bytes \<Rightarrow> 's shard \<Rightarrow> commit_err + Entry option" where
  "commitProjectionEntry db txID st =
     (if shIdxNil st then Inl (ErrDataLoss ''projection is nil'')
      else case Index_Get db txID (shIndex st) of
        Inl e \<Rightarrow> if e = ErrNotFound then Inr None else Inl (ErrDataLoss ''projection transaction'')
      | Inr entry \<Rightarrow> if BlockIDs entry = [] then Inl (ErrDataLoss ''no block IDs'') else Inr (Some entry))"

definition blockIndexEntriesForApply :: "index_io \<Rightarrow> u64 \<Rightarrow> bytes \<Rightarrow> 's shard \<Rightarrow> (commit_err + IndexEntry list) \<times> 's shard" where
  "blockIndexEntriesForApply io blockID txID st =
     (case open_index (idx_content st) (ioOpen io) blockID of
        Inr es \<Rightarrow> (Inr (IndexReader_FindByTransaction es txID), st)
      | Inl IdxNotExist \<Rightarrow> (Inr [], st)
      | Inl (IdxOpenErr (ErrIdxCorrupt c)) \<Rightarrow>
          (case RepairIndexTail (the (idx_content st blockID)) (ioRepair io) of
             (Some e, content) \<Rightarrow> (Inl (CommitIndexFile (IdxOpenErr e)), set_idx blockID content st)
           | (None, content) \<Rightarrow>
               (let st1 = set_idx blockID content st in
                case open_index (idx_content st1) (ioReopen io) blockID of
                  Inl e \<Rightarrow> (Inl (CommitIndexFile e), st1)
                | Inr es \<Rightarrow> (Inr (IndexReader_FindByTransaction es txID), st1)))
      | Inl e \<Rightarrow> (Inl (CommitIndexFile e), st))"

fun inspectCommitProjectionBlock ::
  "CommitDocument \<Rightarrow> u16 \<Rightarrow> u64 \<Rightarrow> nat \<Rightarrow> commitProjectionState \<Rightarrow> IndexEntry list \<Rightarrow> commit_err + commitProjectionState \<times> nat" where
  "inspectCommitProjectionBlock doc docCount blockID resolved state [] = Inr (state, resolved)"
| "inspectCommitProjectionBlock doc docCount blockID resolved state (e # es) =
     (if DocName e \<noteq> cdDocumentName doc then inspectCommitProjectionBlock doc docCount blockID (resolved + 1) state es
      else if targetExists state then Inl CorruptDuplicateMetadata
      else inspectCommitProjectionBlock doc docCount blockID (resolved + 1)
        \<lparr>targetExists = True, targetCounted = resolved + 1 \<le> unat docCount, existing = e, existingBlockID = blockID\<rparr> es)"

text \<open>The loop over the Blocks of the entry; \<open>k\<close> counts the Blocks inspected so far.\<close>

fun inspect_blocks ::
  "(nat \<Rightarrow> index_io) \<Rightarrow> CommitDocument \<Rightarrow> u16 \<Rightarrow> nat \<Rightarrow> nat \<Rightarrow> commitProjectionState \<Rightarrow> u64 list \<Rightarrow> 's shard \<Rightarrow>
     (commit_err + commitProjectionState \<times> nat) \<times> 's shard" where
  "inspect_blocks ios doc docCount k resolved state [] st = (Inr (state, resolved), st)"
| "inspect_blocks ios doc docCount k resolved state (b # ids) st =
     (case blockIndexEntriesForApply (ios k) b (cdTransactionId doc) st of
        (Inl e, st1) \<Rightarrow> (Inl e, st1)
      | (Inr es, st1) \<Rightarrow>
          (case inspectCommitProjectionBlock doc docCount b resolved state es of
             Inl e \<Rightarrow> (Inl e, st1)
           | Inr (state', resolved') \<Rightarrow> inspect_blocks ios doc docCount (Suc k) resolved' state' ids st1))"

definition inspectCommitProjectionEntry ::
  "(nat \<Rightarrow> index_io) \<Rightarrow> CommitDocument \<Rightarrow> Entry \<Rightarrow> 's shard \<Rightarrow> (commit_err + commitProjectionState) \<times> 's shard" where
  "inspectCommitProjectionEntry ios doc entry st =
     (case inspect_blocks ios doc (DocCount entry) 0 0 zero_state (BlockIDs entry) st of
        (Inl e, st1) \<Rightarrow> (Inl e, st1)
      | (Inr (state, resolved), st1) \<Rightarrow>
          (Inr (if targetExists state then state
                else zero_state\<lparr>targetCounted := cdBlockId doc \<in> set (BlockIDs entry) \<and> unat (DocCount entry) > resolved\<rparr>), st1))"

definition inspectCommitProjectionState ::
  "'s pebble \<Rightarrow> (nat \<Rightarrow> index_io) \<Rightarrow> CommitDocument \<Rightarrow> 's shard \<Rightarrow> (commit_err + commitProjectionState) \<times> 's shard" where
  "inspectCommitProjectionState db ios doc st =
     (case commitProjectionEntry db (cdTransactionId doc) st of
        Inl e \<Rightarrow> (Inl e, st)
      | Inr None \<Rightarrow> (Inr zero_state, st)
      | Inr (Some entry) \<Rightarrow> inspectCommitProjectionEntry ios doc entry st)"

definition handleExistingCommitProjection ::
  "bytes list option \<Rightarrow> CommitDocument \<Rightarrow> commitProjectionState \<Rightarrow> 's shard \<Rightarrow> (bool \<times> commit_err option) \<times> 's shard" where
  "handleExistingCommitProjection listing doc state st =
     (if \<not> targetExists state then ((False, None), st)
      else if targetCounted state then
        ((True, if commitDocumentMatchesExisting doc (existing state) then None else Some ImmutableDocumentConflict),
         cleanupCommittedOpenlogPreps listing doc st)
      else if existingBlockID state \<noteq> cdBlockId doc \<or> \<not> commitDocumentMatchesExisting doc (existing state)
      then ((True, Some CorruptDuplicateMetadata), st)
      else ((False, None), st))"

section \<open>Appending to the index\<close>

definition blockIndexContainsDocument :: "io_outcome list \<Rightarrow> u64 \<Rightarrow> bytes \<Rightarrow> bytes \<Rightarrow> 's shard \<Rightarrow> open_err + bool" where
  "blockIndexContainsDocument sched blockID txID docName st =
     (case open_index (idx_content st) sched blockID of
        Inl e \<Rightarrow> Inl e
      | Inr es \<Rightarrow>
          (case IndexReader_Find es txID docName of
             Inr _ \<Rightarrow> Inr True
           | Inl e \<Rightarrow> if e = ErrDocNotFound then Inr False else Inl (IdxOpenErr e)))"

fun is_idx_corrupt :: "open_err \<Rightarrow> bool" where
  "is_idx_corrupt (IdxOpenErr (ErrIdxCorrupt _)) = True"
| "is_idx_corrupt _ = False"

definition blockIndexContainsDocumentRepairingTail :: "index_io \<Rightarrow> u64 \<Rightarrow> bytes \<Rightarrow> bytes \<Rightarrow> 's shard \<Rightarrow> (commit_err + bool) \<times> 's shard" where
  "blockIndexContainsDocumentRepairingTail io blockID txID docName st =
     (case blockIndexContainsDocument (ioOpen io) blockID txID docName st of
        Inr contains \<Rightarrow> (Inr contains, st)
      | Inl e \<Rightarrow>
          if \<not> is_idx_corrupt e then (Inl (CommitIndexFile e), st)
          else (case RepairIndexTail (the (idx_content st blockID)) (ioRepair io) of
             (Some re, content) \<Rightarrow> (Inl (CommitIndexFile (IdxOpenErr re)), set_idx blockID content st)
           | (None, content) \<Rightarrow>
               (let st1 = set_idx blockID content st in
                (case blockIndexContainsDocument (ioReopen io) blockID txID docName st1 of
                   Inl e2 \<Rightarrow> Inl (CommitIndexFile e2) | Inr contains \<Rightarrow> Inr contains, st1))))"

definition sealedSizeForUploadRequeueLocked :: "record_json \<Rightarrow> 's pebble \<Rightarrow> bool \<Rightarrow> u64 \<Rightarrow> 's shard \<Rightarrow> commit_err + int" where
  "sealedSizeForUploadRequeueLocked J db statOk blockID st =
     (if \<not> statOk then Inl CommitStat
      else case shBlkFiles st blockID of
        Some bytes \<Rightarrow> Inr (int (length bytes))
      | None \<Rightarrow>
          (case GetPendingUpload db blockID (shIndex st) of
             Inr pending \<Rightarrow> Inr (puSealedSizeBytes pending)
           | Inl e \<Rightarrow> if e \<noteq> ErrPendingUploadNotFound then Inl (CommitUpload e)
               else (case GetConfirmedUpload J db blockID (shIndex st) of
                       Inr confirmed \<Rightarrow> Inr (cuSealedSizeBytes confirmed)
                     | Inl ce \<Rightarrow> if ce \<noteq> ErrConfirmedUploadNotFound then Inl (CommitUpload ce) else Inl CommitStat)))"

definition requeueBlockUploadAfterIndexAppend ::
  "record_json \<Rightarrow> 's pebble \<Rightarrow> bool \<Rightarrow> u64 \<Rightarrow> int \<Rightarrow> 's shard \<Rightarrow> commit_err option \<times> 's shard" where
  "requeueBlockUploadAfterIndexAppend J db statOk blockID uploadGeneration st =
     (if \<not> shUploadEnabled st then (None, st)
      else case sealedSizeForUploadRequeueLocked J db statOk blockID st of
        Inl e \<Rightarrow> (Some e, st)
      | Inr sealedSize \<Rightarrow>
          (case PutPendingUpload db \<lparr>puBlockID = blockID, puShardID = shShardID st, puSealedSizeBytes = sealedSize,
               puSealedAtUs = uploadGeneration, puUploadGeneration = uploadGeneration\<rparr> (shIndex st) of
             (Some e, ix) \<Rightarrow> (Some (CommitUpload e), with_index ix st)
           | (None, ix) \<Rightarrow>
               (let st1 = with_index ix st in
                (case refreshPressure db (shOutbox st1) of Inl e \<Rightarrow> Some (CommitUpload e) | Inr _ \<Rightarrow> None, st1))))"

text \<open>The branch of \<open>appendDocumentIndexEntry\<close> for a Block that is not open, from the computation of the generation on.\<close>

definition append_historical ::
  "record_json \<Rightarrow> 's pebble \<Rightarrow> apply_env \<Rightarrow> CommitDocument \<Rightarrow> IndexEntry \<Rightarrow> u64 \<Rightarrow> 's shard \<Rightarrow> commit_err option \<times> 's shard" where
  "append_historical J db env doc entry entryIndex st =
     (let b = cdBlockId doc; gen = uploadGenerationFromApplyIndex entryIndex (cdCreatedAtUs doc) in
      case blockIndexContainsDocumentRepairingTail (aeContains env) b (cdTransactionId doc) (cdDocumentName doc) st of
        (Inl e, st1) \<Rightarrow> (Some e, st1)
      | (Inr True, st1) \<Rightarrow> requeueBlockUploadAfterIndexAppend J db (aeStat env) b gen st1
      | (Inr False, st1) \<Rightarrow>
          (case idx_content st1 b of None \<Rightarrow> (Some (CommitIndexFile IdxNotExist), st1)
           | Some content \<Rightarrow>
               (case OpenIndexWriter content (aeAppend env) of
                  Inl e \<Rightarrow> (Some (CommitIndexFile (IdxOpenErr e)), st1)
                | Inr f \<Rightarrow>
                    (case IndexWriter_Append entry f of
                       (Some e, f1) \<Rightarrow> (Some (CommitIndexFile (IdxOpenErr e)), set_idx b (fdata f1) st1)
                     | (None, f1) \<Rightarrow>
                         (case IndexWriter_Close f1 of
                            (Some e, f2) \<Rightarrow> (Some (CommitIndexFile (IdxOpenErr e)), set_idx b (fdata f2) st1)
                          | (None, f2) \<Rightarrow> requeueBlockUploadAfterIndexAppend J db (aeStat env) b gen (set_idx b (fdata f2) st1))))))"

definition appendDocumentIndexEntry ::
  "record_json \<Rightarrow> 's pebble \<Rightarrow> apply_env \<Rightarrow> CommitDocument \<Rightarrow> IndexEntry \<Rightarrow> u64 \<Rightarrow> bool \<Rightarrow> 's shard \<Rightarrow> commit_err option \<times> 's shard" where
  "appendDocumentIndexEntry J db env doc entry entryIndex alreadyIndexed st =
     (case shOpen st of
        None \<Rightarrow> append_historical J db env doc entry entryIndex st
      | Some (b, f) \<Rightarrow>
          if b \<noteq> cdBlockId doc then append_historical J db env doc entry entryIndex st
          else if alreadyIndexed then (None, st)
          else (case IndexWriter_Append entry f of
                  (Some e, f1) \<Rightarrow> (Some (CommitIndexFile (IdxOpenErr e)), st\<lparr>shOpen := Some (b, f1)\<rparr>)
                | (None, f1) \<Rightarrow> (None, st\<lparr>shOpen := Some (b, f1)\<rparr>)))"

section \<open>Counting in the Projection\<close>

definition preflightProjectionDocCount :: "'s pebble \<Rightarrow> bytes \<Rightarrow> 's Index \<Rightarrow> commit_err option" where
  "preflightProjectionDocCount db txID ix =
     (case Index_Get db txID ix of
        Inl e \<Rightarrow> if e = ErrNotFound then None else Some (CommitProjection e)
      | Inr entry \<Rightarrow> if DocCount entry = 0xFFFF then Some (CommitProjection DocCountAtMaximum) else None)"

definition addProjectionDocument :: "'s pebble \<Rightarrow> bytes \<Rightarrow> u64 \<Rightarrow> 's Index \<Rightarrow> commit_err option \<times> 's Index" where
  "addProjectionDocument db txID blockID ix =
     (case Index_Get db txID ix of
        Inl e \<Rightarrow>
          if e = ErrNotFound then (case Index_Put db txID blockID 1 False ix of (err, ix1) \<Rightarrow> (map_option CommitProjection err, ix1))
          else (Some (CommitProjection e), ix)
      | Inr entry \<Rightarrow>
          (case (if BlockIDs entry = [] \<or> blockID \<noteq> List.last (BlockIDs entry) then Index_AddBlockID db txID blockID ix else (None, ix)) of
             (Some e, ix1) \<Rightarrow> (Some (CommitProjection e), ix1)
           | (None, ix1) \<Rightarrow> (case Index_IncrementDocCount db txID ix1 of (err, ix2) \<Rightarrow> (map_option CommitProjection err, ix2))))"

section \<open>The apply\<close>

definition commit_entry :: "CommitDocument \<Rightarrow> IndexEntry" where
  "commit_entry doc =
     \<lparr>TransactionID = cdTransactionId doc, DocName = cdDocumentName doc, ContentType = cdContentType doc,
      CreatedAt = time_UnixMicro (cdCreatedAtUs doc), FirstFrameOff = safeUint64ToInt64 (cdFirstFrameOff doc), FrameCount = cdFrameCount doc,
      TotalBytes = cdTotalBytes doc, SHA256 = cdSha256 doc, EncryptionEnvelope = cdEncryptionEnvelope doc\<rparr>"

definition applyCommitDocument ::
  "record_json \<Rightarrow> 's pebble \<Rightarrow> apply_env \<Rightarrow> CommitDocument \<Rightarrow> u64 \<Rightarrow> 's shard \<Rightarrow> commit_err option \<times> 's shard" where
  "applyCommitDocument J db env doc entryIndex st =
     (case inspectCommitProjectionState db (aeInspect env) doc st of
        (Inl e, st1) \<Rightarrow> (Some e, st1)
      | (Inr state, st1) \<Rightarrow>
          (case handleExistingCommitProjection (aeOpenlog env) doc state st1 of
             ((handled, err), st2) \<Rightarrow>
               if handled \<or> err \<noteq> None then (err, st2)
               else if length (cdSha256 doc) \<noteq> 32 then (Some (ErrDataLoss ''commit document SHA-256 length''), st2)
               else case (if targetCounted state then None else preflightProjectionDocCount db (cdTransactionId doc) (shIndex st2)) of
                 Some e \<Rightarrow> (Some e, st2)
               | None \<Rightarrow>
                   (case appendDocumentIndexEntry J db env doc (commit_entry doc) entryIndex (targetExists state) st2 of
                      (Some e, st3) \<Rightarrow> (Some e, st3)
                    | (None, st3) \<Rightarrow>
                        (case (if targetCounted state then (None, shIndex st3)
                               else addProjectionDocument db (cdTransactionId doc) (cdBlockId doc) (shIndex st3)) of
                           (Some e, ix) \<Rightarrow> (Some e, with_index ix st3)
                         | (None, ix) \<Rightarrow> (None, cleanupCommittedOpenlogPreps (aeOpenlog env) doc (with_index ix st3))))))"

end
