(* ===== verification/Shard_Commit_Sound.thy ===== *)
theory Shard_Commit_Sound
  imports Shard_Commit
begin

text \<open>
  Properties of applying a committed Document: the index files of a Shard as lists of entries, what the
  inspection of a Transaction finds in them, the states a failed apply can leave behind, and what the
  replay of the command makes of each.
\<close>

section \<open>Index files of a Shard\<close>

text \<open>The index files hold the entries \<open>F\<close>, and the writer of the open Block stands at the end of its file.\<close>

definition holds :: "(u64 \<rightharpoonup> IndexEntry list) \<Rightarrow> 's shard \<Rightarrow> bool" where
  "holds F st \<longleftrightarrow> indexed (idx_content st) F \<and> (\<forall>b f. shOpen st = Some (b, f) \<longrightarrow> at_end f)"

lemma holds_content: "holds F st \<Longrightarrow> idx_content st b = map_option idx_file_bytes (F b)"
  by (simp add: holds_def indexed_def)

lemma holds_storable: "holds F st \<Longrightarrow> F b = Some es \<Longrightarrow> \<forall>e \<in> set es. entry_storable e \<and> stored_entry e = e"
  by (simp add: holds_def indexed_def)

lemma set_idx_same: "idx_content st b = Some content \<Longrightarrow> set_idx b content st = st"
  by (cases st) (auto simp: idx_content_def set_idx_def fun_upd_idem split: if_splits option.splits)

lemma idx_content_set_idx [simp]: "idx_content (set_idx b content st) = (idx_content st)(b \<mapsto> content)"
  by (cases "shOpen st") (auto simp: idx_content_def set_idx_def fun_eq_iff split: if_splits)

lemma set_idx_sel [simp]:
  "shOutbox (set_idx b content st) = shOutbox st" "shIdxNil (set_idx b content st) = shIdxNil st" "shBlkFiles (set_idx b content st) = shBlkFiles st"
  "shUploadEnabled (set_idx b content st) = shUploadEnabled st" "shOpenlog (set_idx b content st) = shOpenlog st" "shShardID (set_idx b content st) = shShardID st"
  by (auto simp: set_idx_def split: option.splits)

lemma with_index_sel [simp]:
  "shIndex (with_index ix st) = ix" "idx_content (with_index ix st) = idx_content st" "shOpen (with_index ix st) = shOpen st"
  "shIdxNil (with_index ix st) = shIdxNil st" "oxLife (shOutbox (with_index ix st)) = oxLife (shOutbox st)"
  by (simp_all add: with_index_def idx_content_def fun_eq_iff split: option.splits)

lemma holds_with_index [simp]: "holds F (with_index ix st) = holds F st"
  by (simp add: holds_def)

lemma cleanup_sel [simp]:
  "shOutbox (cleanupCommittedOpenlogPreps l doc st) = shOutbox st" "shOpen (cleanupCommittedOpenlogPreps l doc st) = shOpen st"
  "idx_content (cleanupCommittedOpenlogPreps l doc st) = idx_content st"
  by (auto simp: cleanupCommittedOpenlogPreps_def idx_content_def fun_eq_iff split: option.splits)

lemma holds_cleanup [simp]: "holds F (cleanupCommittedOpenlogPreps l doc st) = holds F st"
  by (simp add: holds_def)

section \<open>Inspecting a Transaction\<close>

text \<open>Reading the index of a Block that is whole: nothing changes, and what is read is what is stored.\<close>

lemma blockIndexEntriesForApply_whole:
  assumes "holds F st" and "blockIndexEntriesForApply io b txID st = (r, st1)"
  shows "st1 = st \<and> (\<forall>es. r = Inr es \<longrightarrow> es = tx_entries F txID b)"
proof (cases "F b")
  case None
  then have "open_index (idx_content st) (ioOpen io) b = Inl IdxNotExist" using holds_content [OF assms(1), of b] by (simp add: open_index_def)
  then show ?thesis using assms(2) None by (auto simp: blockIndexEntriesForApply_def tx_entries_def)
next
  case (Some es)
  have ix: "indexed (idx_content st) F" and c: "idx_content st b = Some (idx_file_bytes es)"
    using assms(1) holds_content [OF assms(1), of b] Some by (simp_all add: holds_def)
  have rd: "open_index (idx_content st) sched b = Inr es' \<Longrightarrow> es' = es" for sched es' using open_index_indexed(2) [OF ix] Some by fastforce
  have rp: "snd (RepairIndexTail (idx_file_bytes es) sched) = idx_file_bytes es" for sched
    using RepairIndexTail_whole holds_storable [OF assms(1) Some] by blast
  obtain re content where re: "RepairIndexTail (idx_file_bytes es) (ioRepair io) = (re, content)" by (metis surj_pair)
  then have "content = idx_file_bytes es" using rp [of "ioRepair io"] by simp
  then have set: "set_idx b content st = st" using set_idx_same c by simp
  have tx: "IndexReader_FindByTransaction es txID = tx_entries F txID b" by (simp add: tx_entries_def Some IndexReader_FindByTransaction_def)
  have ne: "open_index (idx_content st) sched b \<noteq> Inl IdxNotExist" for sched using c by (auto simp: open_index_def split: sum.splits)
  show ?thesis
    using assms(2) rd tx set re c ne
    by (auto simp: blockIndexEntriesForApply_def Let_def split: sum.splits open_err.splits idx_err.splits option.splits prod.splits)
qed

lemma blockIndexEntriesForApply_calm:
  assumes "holds F st" and "ioOpen io = []"
  shows "blockIndexEntriesForApply io b txID st = (Inr (tx_entries F txID b), st)"
  using open_index_indexed(1) [of "idx_content st" F b] assms
  by (auto simp: blockIndexEntriesForApply_def holds_def tx_entries_def IndexReader_FindByTransaction_def split: option.splits)

text \<open>The inspection as one pass over the Documents of the Transaction.\<close>

fun scan_docs :: "CommitDocument \<Rightarrow> u16 \<Rightarrow> nat \<Rightarrow> commitProjectionState \<Rightarrow> ResolvedDocument list \<Rightarrow> commit_err + commitProjectionState \<times> nat" where
  "scan_docs doc n k state [] = Inr (state, k)"
| "scan_docs doc n k state (d # ds) =
     (if DocName (rdEntry d) \<noteq> cdDocumentName doc then scan_docs doc n (k + 1) state ds
      else if targetExists state then Inl CorruptDuplicateMetadata
      else scan_docs doc n (k + 1) \<lparr>targetExists = True, targetCounted = k + 1 \<le> unat n, existing = rdEntry d, existingBlockID = rdBlockID d\<rparr> ds)"

lemma inspectBlock_scan:
  "inspectCommitProjectionBlock doc n b k state es = scan_docs doc n k state (map (\<lambda>e. \<lparr>rdEntry = e, rdBlockID = b\<rparr>) es)"
  by (induction es arbitrary: k state) simp_all

lemma scan_docs_append:
  "scan_docs doc n k state (xs @ ys) = (case scan_docs doc n k state xs of Inl e \<Rightarrow> Inl e | Inr (state', k') \<Rightarrow> scan_docs doc n k' state' ys)"
  by (induction xs arbitrary: k state) simp_all

lemma scan_docs_skip:
  "\<forall>d \<in> set ds. DocName (rdEntry d) \<noteq> cdDocumentName doc \<Longrightarrow> scan_docs doc n k state ds = Inr (state, k + length ds)"
  by (induction ds arbitrary: k) auto

lemma inspect_blocks_whole:
  assumes "holds F st" and "inspect_blocks ios doc n k m state ids st = (r, st1)"
  shows "st1 = st \<and> (\<forall>x. r = Inr x \<longrightarrow> scan_docs doc n m state (tx_docs F (cdTransactionId doc) ids) = Inr x)"
  using assms(2)
proof (induction ids arbitrary: k m state)
  case (Cons b ids)
  obtain rb stb where b: "blockIndexEntriesForApply (ios k) b (cdTransactionId doc) st = (rb, stb)" by (metis surj_pair)
  note w = blockIndexEntriesForApply_whole [OF assms(1) b]
  show ?case
  proof (cases rb)
    case (Inl e)
    then show ?thesis using Cons.prems b w by auto
  next
    case (Inr es)
    show ?thesis
    proof (cases "inspectCommitProjectionBlock doc n b m state es")
      case (Inl e)
      then show ?thesis using Cons.prems b w Inr by auto
    next
      case i: (Inr x)
      obtain state' m' where x: "x = (state', m')" by (cases x)
      have "inspect_blocks ios doc n (Suc k) m' state' ids st = (r, st1)" using Cons.prems b w Inr i x by simp
      from Cons.IH [OF this] show ?thesis using i x w Inr by (auto simp: inspectBlock_scan scan_docs_append)
    qed
  qed
qed auto

lemma inspect_blocks_calm:
  assumes "holds F st" and "\<forall>k. ioOpen (ios k) = []"
  shows "inspect_blocks ios doc n k m state ids st = (scan_docs doc n m state (tx_docs F (cdTransactionId doc) ids), st)"
proof (induction ids arbitrary: k m state)
  case (Cons b ids)
  then show ?case
    using blockIndexEntriesForApply_calm [OF assms(1)] assms(2)
    by (auto simp: inspectBlock_scan scan_docs_append split: sum.splits)
qed simp

section \<open>A Document to be committed\<close>

definition tx_blocks :: "(bytes \<rightharpoonup> Entry) \<Rightarrow> bytes \<Rightarrow> u64 list" where
  "tx_blocks M txID = (case M txID of None \<Rightarrow> [] | Some e \<Rightarrow> BlockIDs e)"

text \<open>The Transaction is complete, its Documents are all in the Blocks the Projection names, and none has the name of the new Document.\<close>

definition commit_new :: "(u64 \<rightharpoonup> IndexEntry list) \<Rightarrow> (bytes \<rightharpoonup> Entry) \<Rightarrow> CommitDocument \<Rightarrow> bool" where
  "commit_new F M doc \<longleftrightarrow>
     entry_storable (commit_entry doc) \<and> stored_entry (commit_entry doc) = commit_entry doc \<and> F (cdBlockId doc) \<noteq> None \<and>
     (\<forall>b. b \<notin> set (tx_blocks M (cdTransactionId doc)) \<longrightarrow> tx_entries F (cdTransactionId doc) b = []) \<and>
     (\<forall>e. M (cdTransactionId doc) = Some e \<longrightarrow>
        BlockIDs e \<noteq> [] \<and> length (BlockIDs e) < 65534 \<and> DocCount e \<noteq> 0xFFFF \<and>
        length (tx_docs F (cdTransactionId doc) (BlockIDs e)) = unat (DocCount e) \<and>
        (\<forall>d \<in> set (tx_docs F (cdTransactionId doc) (BlockIDs e)). DocName (rdEntry d) \<noteq> cdDocumentName doc))"

text \<open>Besides, the Document goes to the last of those Blocks or to another one.\<close>

definition commit_ready :: "(u64 \<rightharpoonup> IndexEntry list) \<Rightarrow> (bytes \<rightharpoonup> Entry) \<Rightarrow> CommitDocument \<Rightarrow> bool" where
  "commit_ready F M doc \<longleftrightarrow> commit_new F M doc \<and>
     (\<forall>e. M (cdTransactionId doc) = Some e \<longrightarrow> cdBlockId doc \<in> set (BlockIDs e) \<longrightarrow>
        cdBlockId doc = List.last (BlockIDs e) \<and> cdBlockId doc \<notin> set (butlast (BlockIDs e)))"

lemma ready_commit_new: "commit_ready F M doc \<Longrightarrow> commit_new F M doc"
  by (simp add: commit_ready_def)

definition committed_files :: "(u64 \<rightharpoonup> IndexEntry list) \<Rightarrow> CommitDocument \<Rightarrow> u64 \<rightharpoonup> IndexEntry list" where
  "committed_files F doc = F(cdBlockId doc \<mapsto> the (F (cdBlockId doc)) @ [commit_entry doc])"

definition listed_entry :: "CommitDocument \<Rightarrow> Entry \<Rightarrow> Entry" where
  "listed_entry doc e = e\<lparr>BlockIDs := if BlockIDs e = [] \<or> cdBlockId doc \<noteq> List.last (BlockIDs e) then BlockIDs e @ [cdBlockId doc] else BlockIDs e\<rparr>"

definition listed_map :: "(bytes \<rightharpoonup> Entry) \<Rightarrow> CommitDocument \<Rightarrow> bytes \<rightharpoonup> Entry" where
  "listed_map M doc = (case M (cdTransactionId doc) of None \<Rightarrow> M | Some e \<Rightarrow> M(cdTransactionId doc \<mapsto> listed_entry doc e))"

definition committed_map :: "(bytes \<rightharpoonup> Entry) \<Rightarrow> CommitDocument \<Rightarrow> bytes \<rightharpoonup> Entry" where
  "committed_map M doc =
     M(cdTransactionId doc \<mapsto>
        (case M (cdTransactionId doc) of None \<Rightarrow> \<lparr>BlockIDs = [cdBlockId doc], DocCount = 1, Completed = False\<rparr>
         | Some e \<Rightarrow> (listed_entry doc e)\<lparr>DocCount := DocCount e + 1\<rparr>))"

text \<open>The states of an apply between its writes.\<close>

inductive commit_phase :: "('s \<Rightarrow> bytes \<rightharpoonup> bytes) \<Rightarrow> (u64 \<rightharpoonup> IndexEntry list) \<Rightarrow> (bytes \<rightharpoonup> Entry) \<Rightarrow> CommitDocument \<Rightarrow> 's shard \<Rightarrow> bool"
  for contents :: "'s \<Rightarrow> bytes \<rightharpoonup> bytes" and F :: "u64 \<rightharpoonup> IndexEntry list" and M :: "bytes \<rightharpoonup> Entry" and doc :: CommitDocument where
  before: "holds F st \<Longrightarrow> entries contents (shIndex st) = M \<Longrightarrow> commit_phase contents F M doc st"
| torn: "idx_content st = (map_option idx_file_bytes \<circ> F)(cdBlockId doc \<mapsto> idx_file_bytes (the (F (cdBlockId doc))) @ take c (entry_record (commit_entry doc))) \<Longrightarrow>
    c < length (entry_record (commit_entry doc)) \<Longrightarrow> entries contents (shIndex st) = M \<Longrightarrow> commit_phase contents F M doc st"
| in_index: "holds (committed_files F doc) st \<Longrightarrow> entries contents (shIndex st) \<in> {M, listed_map M doc, committed_map M doc} \<Longrightarrow> commit_phase contents F M doc st"

section \<open>Counting the Document\<close>

lemma Index_AddBlockID_entries:
  assumes "pebble_ok contents db" and "Index_AddBlockID db txID b ix = (err, ix')"
    and "entries contents ix txID = Some e" and "length (BlockIDs e) < 65535"
  shows "entries contents ix' = (entries contents ix)(txID \<mapsto> e\<lparr>BlockIDs := BlockIDs e @ [b]\<rparr>) \<or> err \<noteq> None \<and> entries contents ix' = entries contents ix"
proof (cases "Index_Get db txID ix")
  case (Inr e')
  then have "e' = e" using Index_Get_entries [OF assms(1)] assms(3) by fastforce
  then show ?thesis using Index_put_entries [OF assms(1), of txID "e\<lparr>BlockIDs := BlockIDs e @ [b]\<rparr>" ix err ix'] assms Inr
    by (simp add: Index_AddBlockID_def)
qed (use assms in \<open>auto simp: Index_AddBlockID_def\<close>)

lemma Index_IncrementDocCount_entries:
  assumes "pebble_ok contents db" and "Index_IncrementDocCount db txID ix = (err, ix')"
    and "entries contents ix txID = Some e" and "length (BlockIDs e) < 65536"
  shows "entries contents ix' = (entries contents ix)(txID \<mapsto> e\<lparr>DocCount := DocCount e + 1\<rparr>) \<or> err \<noteq> None \<and> entries contents ix' = entries contents ix"
proof (cases "Index_Get db txID ix")
  case (Inr e')
  then have "e' = e" using Index_Get_entries [OF assms(1)] assms(3) by fastforce
  then show ?thesis using Index_put_entries [OF assms(1), of txID "e\<lparr>DocCount := DocCount e + 1\<rparr>" ix err ix'] assms Inr
    by (auto simp: Index_IncrementDocCount_def split: if_splits)
qed (use assms in \<open>auto simp: Index_IncrementDocCount_def\<close>)

lemma listed_entry_idem [simp]: "listed_entry doc (listed_entry doc e) = listed_entry doc e" "DocCount (listed_entry doc e) = DocCount e"
  "length (BlockIDs (listed_entry doc e)) \<le> length (BlockIDs e) + 1"
  by (simp_all add: listed_entry_def)

lemma addProjectionDocument_step:
  assumes ok: "pebble_ok contents db" and run: "addProjectionDocument db (cdTransactionId doc) (cdBlockId doc) ix = (err, ix')"
    and e: "entries contents ix (cdTransactionId doc) = Some e" "length (BlockIDs e) < 65535"
  shows "entries contents ix' = (entries contents ix)(cdTransactionId doc \<mapsto> (listed_entry doc e)\<lparr>DocCount := DocCount e + 1\<rparr>) \<or>
    err \<noteq> None \<and> entries contents ix' \<in> {entries contents ix, (entries contents ix)(cdTransactionId doc \<mapsto> listed_entry doc e)}"
proof (cases "Index_Get db (cdTransactionId doc) ix")
  case (Inl er)
  then have "er \<noteq> ErrNotFound" using Index_Get_missing [OF ok] e(1) by fastforce
  then show ?thesis using run Inl by (auto simp: addProjectionDocument_def)
next
  case (Inr e')
  let ?add = "BlockIDs e = [] \<or> cdBlockId doc \<noteq> List.last (BlockIDs e)"
  have ee: "e' = e" using Index_Get_entries [OF ok Inr] e(1) by simp
  obtain err1 ix1 where a: "(if ?add then Index_AddBlockID db (cdTransactionId doc) (cdBlockId doc) ix else (None, ix)) = (err1, ix1)" by (metis surj_pair)
  have l: "entries contents ix1 = (entries contents ix)(cdTransactionId doc \<mapsto> listed_entry doc e) \<or> err1 \<noteq> None \<and> entries contents ix1 = entries contents ix"
  proof (cases ?add)
    case True
    then show ?thesis using Index_AddBlockID_entries [OF ok _ e] a by (auto simp: listed_entry_def)
  next
    case False
    then show ?thesis using a e(1) by (auto simp: listed_entry_def)
  qed
  show ?thesis
  proof (cases err1)
    case (Some er)
    then show ?thesis using run Inr ee a l by (auto simp: addProjectionDocument_def)
  next
    case None
    have e1: "entries contents ix1 (cdTransactionId doc) = Some (listed_entry doc e)" using l None by auto
    obtain err2 where i: "Index_IncrementDocCount db (cdTransactionId doc) ix1 = (err2, ix')" "err = map_option CommitProjection err2"
      using run Inr ee a None by (auto simp: addProjectionDocument_def split: prod.splits)
    have "length (BlockIDs (listed_entry doc e)) < 65536" using e(2) listed_entry_idem(3) [of doc e] by linarith
    from Index_IncrementDocCount_entries [OF ok i(1) e1 this] show ?thesis using l None i(2) by auto
  qed
qed

lemma addProjectionDocument_first:
  assumes ok: "pebble_ok contents db" and run: "addProjectionDocument db txID b ix = (err, ix')" and none: "entries contents ix txID = None"
  shows "entries contents ix' = (entries contents ix)(txID \<mapsto> \<lparr>BlockIDs = [b], DocCount = 1, Completed = False\<rparr>) \<or>
    err \<noteq> None \<and> entries contents ix' = entries contents ix"
proof (cases "Index_Get db txID ix")
  case (Inr e)
  then show ?thesis using Index_Get_entries [OF ok Inr] none by simp
next
  case (Inl e)
  then show ?thesis using run Index_put_entries [OF ok, of txID "\<lparr>BlockIDs = [b], DocCount = 1, Completed = False\<rparr>" ix _ ix']
    by (auto simp: addProjectionDocument_def Index_Put_def split: if_splits prod.splits)
qed

lemma addProjectionDocument_phase:
  assumes "pebble_ok contents db" and "addProjectionDocument db (cdTransactionId doc) (cdBlockId doc) ix = (err, ix')"
    and "entries contents ix \<in> {M, listed_map M doc}" and "\<forall>e. M (cdTransactionId doc) = Some e \<longrightarrow> length (BlockIDs e) < 65534"
  shows "entries contents ix' \<in> {M, listed_map M doc, committed_map M doc} \<and> (err = None \<longrightarrow> entries contents ix' = committed_map M doc)"
proof (cases "M (cdTransactionId doc)")
  case None
  then have e: "entries contents ix = M" using assms(3) by (simp add: listed_map_def)
  then show ?thesis using addProjectionDocument_first [OF assms(1,2)] None by (auto simp: committed_map_def)
next
  case (Some e)
  define e0 where "e0 = the (entries contents ix (cdTransactionId doc))"
  have e0: "entries contents ix (cdTransactionId doc) = Some e0" "e0 = e \<or> e0 = listed_entry doc e"
    using assms(3) Some by (auto simp: e0_def listed_map_def)
  have len: "length (BlockIDs e0) < 65535" using e0(2) assms(4) Some listed_entry_idem(3) [of doc e] by fastforce
  have le: "listed_entry doc e0 = listed_entry doc e" "DocCount e0 = DocCount e" using e0(2) by auto
  have upd: "(entries contents ix)(cdTransactionId doc \<mapsto> x) = M(cdTransactionId doc \<mapsto> x)" for x using assms(3) Some by (auto simp: listed_map_def)
  show ?thesis using addProjectionDocument_step [OF assms(1,2) e0(1) len] assms(3) Some
    by (auto simp: le upd listed_map_def committed_map_def)
qed

section \<open>Appending the Document\<close>

lemma find_tx_entry:
  "(\<exists>e. IndexReader_Find es txID name = Inr e) \<longleftrightarrow> (\<exists>e \<in> set es. TransactionID e = txID \<and> DocName e = name)"
  "IndexReader_Find es txID name = Inl er \<Longrightarrow> er = ErrDocNotFound"
  by (induction es) (auto split: if_splits)

lemma contains_whole:
  assumes "holds F st" and "F b = Some es" and "blockIndexContainsDocumentRepairingTail io b txID name st = (r, st1)"
  shows "st1 = st \<and> (\<forall>c. r = Inr c \<longrightarrow> c = (\<exists>e \<in> set (tx_entries F txID b). DocName e = name))"
proof -
  have ix: "indexed (idx_content st) F" and c: "idx_content st b = Some (idx_file_bytes es)"
    using assms(1) holds_content [OF assms(1), of b] assms(2) by (simp_all add: holds_def)
  have rd: "blockIndexContainsDocument sched b txID name st = Inr x \<Longrightarrow> x = (\<exists>e \<in> set (tx_entries F txID b). DocName e = name)" for sched x
    using open_index_indexed(2) [OF ix] find_tx_entry [of es txID name] assms(2)
    by (fastforce simp: blockIndexContainsDocument_def tx_entries_def split: sum.splits if_splits)
  obtain re content where re: "RepairIndexTail (idx_file_bytes es) (ioRepair io) = (re, content)" by (metis surj_pair)
  moreover have "snd (RepairIndexTail (idx_file_bytes es) (ioRepair io)) = idx_file_bytes es"
    using RepairIndexTail_whole holds_storable [OF assms(1,2)] by blast
  ultimately have "set_idx b content st = st" using set_idx_same c by simp
  then show ?thesis using assms(3) rd re c
    by (auto simp: blockIndexContainsDocumentRepairingTail_def Let_def split: sum.splits if_splits option.splits prod.splits)
qed

lemma PutPendingUpload_entries:
  assumes "pebble_ok contents db" and "PutPendingUpload db u ix = (err, ix')"
  shows "entries contents ix' = entries contents ix"
proof -
  have "contents (idxdb ix') = contents (idxdb ix) \<or> (\<exists>k v. contents (idxdb ix') = (contents (idxdb ix))(pendingUploadKey k \<mapsto> v))"
    using assms(2) durable_Set [OF assms(1), of ix "pendingUploadKey (puBlockID u)" "encodePendingUpload u" err ix']
    by (auto simp: PutPendingUpload_def split: if_splits)
  moreover have "tx_table.table ((contents (idxdb ix))(pendingUploadKey k \<mapsto> v)) = tx_table.table (contents (idxdb ix))" for k v
    by (rule tx_table.table_foreign) (simp add: upload_keys_disjoint)
  ultimately show ?thesis unfolding entries_def by auto
qed

lemma requeue_keeps:
  assumes "pebble_ok contents db" and "requeueBlockUploadAfterIndexAppend J db statOk b gen st = (err, st1)"
  shows "entries contents (shIndex st1) = entries contents (shIndex st)" and "idx_content st1 = idx_content st" and "shOpen st1 = shOpen st"
    and "shIdxNil st1 = shIdxNil st"
  using assms PutPendingUpload_entries [OF assms(1)]
  by (auto simp: requeueBlockUploadAfterIndexAppend_def Let_def split: if_splits sum.splits prod.splits option.splits)

lemma OpenIndexWriter_end:
  assumes "OpenIndexWriter content sched = Inr f"
  shows "fdata f = content" and "at_end f"
proof -
  obtain f0 f1 where o1: "file_Open content sched = (True, f0)" and v: "validateIndexHeader f0 = (None, f1)" and e: "file_SeekEnd f1 = (True, f)"
    using assms by (auto simp: OpenIndexWriter_def split: prod.splits if_splits option.splits)
  have "fdata f0 = content" using o1 by (auto simp: file_Open_def split: prod.splits dest: next_outcome_data)
  moreover obtain h where h: "io_ReadFull idxHeaderLen f0 = (h, f1)"
    using v by (cases "io_ReadFull idxHeaderLen f0") (auto simp: validateIndexHeader_def split: prod.splits option.splits if_splits)
  moreover have "fdata f1 = fdata f0" by (rule io_ReadFull_data [OF h])
  ultimately show "fdata f = content" "at_end f"
    using e by (auto simp: file_SeekEnd_def file_Seek_def at_end_def split: prod.splits if_splits dest: next_outcome_data)
qed

lemma IndexWriter_Close_data: "IndexWriter_Close f = (r, f') \<Longrightarrow> fdata f' = fdata f"
  by (auto simp: IndexWriter_Close_def file_Sync_def split: prod.splits if_splits dest!: next_outcome_data)

text \<open>What a write of \<open>c\<close> bytes of the record to the index file makes of the files.\<close>

definition written :: "(u64 \<rightharpoonup> IndexEntry list) \<Rightarrow> CommitDocument \<Rightarrow> nat \<Rightarrow> u64 \<rightharpoonup> bytes" where
  "written F doc c =
     (map_option idx_file_bytes \<circ> F)(cdBlockId doc \<mapsto> idx_file_bytes (the (F (cdBlockId doc))) @ take c (entry_record (commit_entry doc)))"

lemma written_all:
  assumes "commit_new F M doc" and "length (entry_record (commit_entry doc)) \<le> c" and "holds F st0"
  shows "indexed (written F doc c) (committed_files F doc)"
proof -
  obtain es where es: "F (cdBlockId doc) = Some es" using assms(1) by (auto simp: commit_new_def)
  have "written F doc c = map_option idx_file_bytes \<circ> committed_files F doc"
    using assms(2) es by (auto simp: written_def committed_files_def idx_file_bytes_def fun_eq_iff)
  moreover have "entry_storable (commit_entry doc)" "stored_entry (commit_entry doc) = commit_entry doc" using assms(1) by (simp_all add: commit_new_def)
  ultimately show ?thesis using holds_storable [OF assms(3)] es by (auto simp: indexed_def committed_files_def split: if_splits)
qed

lemma append_phase:
  assumes ok: "pebble_ok contents db" and st: "holds F st" and rd: "commit_new F M doc"
    and new: "\<forall>e \<in> set (tx_entries F (cdTransactionId doc) (cdBlockId doc)). DocName e \<noteq> cdDocumentName doc"
    and run: "appendDocumentIndexEntry J db env doc (commit_entry doc) i False st = (err, st1)"
  shows "entries contents (shIndex st1) = entries contents (shIndex st) \<and> shIdxNil st1 = shIdxNil st \<and>
    (\<exists>c. idx_content st1 = written F doc c \<and> (err = None \<longrightarrow> length (entry_record (commit_entry doc)) \<le> c)) \<and>
    (\<forall>b f. shOpen st1 = Some (b, f) \<longrightarrow> at_end f)"
proof -
  let ?b = "cdBlockId doc" and ?r = "entry_record (commit_entry doc)"
  obtain es where es: "F ?b = Some es" using rd by (auto simp: commit_new_def)
  have c: "idx_content st ?b = Some (idx_file_bytes es)" using holds_content [OF st, of ?b] es by simp
  have w0: "idx_content st = written F doc 0" using holds_content [OF st] es by (auto simp: written_def fun_eq_iff)
  have wr: "(idx_content st)(?b \<mapsto> idx_file_bytes es @ take k ?r) = written F doc k" for k
    using w0 es by (auto simp: written_def fun_eq_iff)
  have open_end: "\<forall>b f. shOpen st = Some (b, f) \<longrightarrow> at_end f" using st by (simp add: holds_def)
  show ?thesis
  proof (cases "\<exists>f. shOpen st = Some (?b, f)")
    case True
    then obtain f where f: "shOpen st = Some (?b, f)" by blast
    obtain e f1 where a: "IndexWriter_Append (commit_entry doc) f = (e, f1)" by (metis surj_pair)
    have fd: "fdata f = idx_file_bytes es" "at_end f" using c f open_end by (auto simp: idx_content_def)
    obtain k where k: "k \<le> length ?r" "fdata f1 = fdata f @ take k ?r" "at_end f1" "e = None \<longrightarrow> k = length ?r"
      using IndexWriter_Append_prefix [OF a fd(2)] by blast
    have st1: "st1 = st\<lparr>shOpen := Some (?b, f1)\<rparr>" "err = None \<longleftrightarrow> e = None"
      using run f a by (auto simp: appendDocumentIndexEntry_def Let_def split: option.splits)
    have "idx_content st1 = (idx_content st)(?b \<mapsto> fdata f1)" using f by (auto simp: st1 idx_content_def fun_eq_iff)
    then have "idx_content st1 = written F doc k" using k(2) fd(1) wr by simp
    then show ?thesis using st1 k by auto
  next
    case False
    then have run: "append_historical J db env doc (commit_entry doc) i st = (err, st1)"
      using run by (auto simp: appendDocumentIndexEntry_def split: option.splits if_splits)
    obtain rc stc where ct: "blockIndexContainsDocumentRepairingTail (aeContains env) ?b (cdTransactionId doc) (cdDocumentName doc) st = (rc, stc)"
      by (metis surj_pair)
    have stc: "stc = st" "rc \<noteq> Inr True" using contains_whole [OF st es ct] new by auto
    show ?thesis
    proof (cases "rc = Inr False")
      case no: False
      then obtain e where "rc = Inl e" using stc(2) by (cases rc) auto
      then have "st1 = st" "err \<noteq> None" using run ct stc by (auto simp: append_historical_def Let_def)
      then show ?thesis using w0 open_end by auto
    next
      case True
      show ?thesis
      proof (cases "OpenIndexWriter (idx_file_bytes es) (aeAppend env)")
        case (Inl e)
        then have "st1 = st" "err \<noteq> None" using run ct stc True c by (auto simp: append_historical_def Let_def)
        then show ?thesis using w0 open_end by auto
      next
        case (Inr f)
        note fe = OpenIndexWriter_end [OF Inr]
        obtain e f1 where a: "IndexWriter_Append (commit_entry doc) f = (e, f1)" by (metis surj_pair)
        obtain e2 f2 where cl: "IndexWriter_Close f1 = (e2, f2)" by (metis surj_pair)
        obtain k where k: "k \<le> length ?r" "fdata f1 = idx_file_bytes es @ take k ?r" "e = None \<longrightarrow> k = length ?r"
          using IndexWriter_Append_prefix [OF a fe(2)] by (auto simp: fe(1))
        have f2: "fdata f2 = fdata f1" by (rule IndexWriter_Close_data [OF cl])
        let ?st = "set_idx ?b (fdata f1) st"
        have so: "\<forall>b f. shOpen ?st = Some (b, f) \<longrightarrow> at_end f" using open_end False by (auto simp: set_idx_def split: option.splits if_splits)
        have ic: "idx_content ?st = written F doc k" using wr k(2) by simp
        have "st1 = ?st \<and> err \<noteq> None \<or> e = None \<and> requeueBlockUploadAfterIndexAppend J db (aeStat env) ?b (uploadGenerationFromApplyIndex i (cdCreatedAtUs doc)) ?st = (err, st1)"
          using run ct stc True c Inr a cl f2 by (cases e; cases e2) (auto simp: append_historical_def Let_def)
        then show ?thesis
        proof (elim disjE conjE)
          assume "st1 = ?st" "err \<noteq> None"
          then show ?thesis using ic so by auto
        next
          assume "e = None" and rq: "requeueBlockUploadAfterIndexAppend J db (aeStat env) ?b (uploadGenerationFromApplyIndex i (cdCreatedAtUs doc)) ?st = (err, st1)"
          then show ?thesis using requeue_keeps [OF ok rq] ic so k(3) by auto
        qed
      qed
    qed
  qed
qed

section \<open>What the inspection finds\<close>

text \<open>\<open>commitProjectionEntry\<close> reads the entry of the Transaction or reports an error.\<close>

lemma commitProjectionEntry_sound:
  assumes "pebble_ok contents db"
  shows "commitProjectionEntry db txID st = Inr None \<Longrightarrow> entries contents (shIndex st) txID = None"
    and "commitProjectionEntry db txID st = Inr (Some e) \<Longrightarrow> entries contents (shIndex st) txID = Some e \<and> BlockIDs e \<noteq> []"
  using Index_Get_missing [OF assms] Index_Get_entries [OF assms]
  by (auto simp: commitProjectionEntry_def split: if_splits sum.splits)

lemma tx_entries_docs: "e \<in> set (tx_entries F txID b) \<Longrightarrow> b \<in> set ids \<Longrightarrow> \<lparr>rdEntry = e, rdBlockID = b\<rparr> \<in> set (tx_docs F txID ids)"
  by (auto simp: tx_docs_def)

lemma ready_new:
  assumes "commit_new F M doc"
  shows "\<forall>e \<in> set (tx_entries F (cdTransactionId doc) (cdBlockId doc)). DocName e \<noteq> cdDocumentName doc"
proof (cases "M (cdTransactionId doc)")
  case None
  then show ?thesis using assms by (simp add: commit_new_def tx_blocks_def)
next
  case (Some e)
  show ?thesis
  proof (cases "cdBlockId doc \<in> set (BlockIDs e)")
    case True
    then show ?thesis using assms Some tx_entries_docs [OF _ True, of _ F "cdTransactionId doc"] by (fastforce simp: commit_new_def)
  next
    case False
    then show ?thesis using assms Some by (simp add: commit_new_def tx_blocks_def)
  qed
qed

text \<open>Before the Document is in its index, the inspection does not find it and does not count it.\<close>

lemma inspect_before:
  assumes "pebble_ok contents db" and "holds F st" and "entries contents (shIndex st) = M" and "commit_new F M doc"
    and "inspectCommitProjectionState db ios doc st = (r, st1)"
  shows "st1 = st \<and> (\<forall>state. r = Inr state \<longrightarrow> state = zero_state)"
proof -
  let ?tx = "cdTransactionId doc"
  show ?thesis
  proof (cases "commitProjectionEntry db ?tx st")
    case (Inl e)
    then show ?thesis using assms(5) by (auto simp: inspectCommitProjectionState_def)
  next
    case (Inr oe)
    show ?thesis
    proof (cases oe)
      case None
      then show ?thesis using assms(5) Inr by (auto simp: inspectCommitProjectionState_def)
    next
      case (Some e)
      have e: "M ?tx = Some e" using commitProjectionEntry_sound(2) [OF assms(1)] Inr Some assms(3) by auto
      have rd: "length (tx_docs F ?tx (BlockIDs e)) = unat (DocCount e)" "\<forall>d \<in> set (tx_docs F ?tx (BlockIDs e)). DocName (rdEntry d) \<noteq> cdDocumentName doc"
        using assms(4) e by (simp_all add: commit_new_def)
      obtain ri sti where i: "inspect_blocks ios doc (DocCount e) 0 0 zero_state (BlockIDs e) st = (ri, sti)" by (metis surj_pair)
      note w = inspect_blocks_whole [OF assms(2) i]
      have "scan_docs doc (DocCount e) 0 zero_state (tx_docs F ?tx (BlockIDs e)) = Inr (zero_state, unat (DocCount e))"
        using scan_docs_skip [OF rd(2)] rd(1) by simp
      then show ?thesis using assms(5) Inr Some i w
        by (auto simp: inspectCommitProjectionState_def inspectCommitProjectionEntry_def zero_state_def split: sum.splits)
    qed
  qed
qed

text \<open>Whatever calls fail, an apply leaves one of the states of \<open>commit_phase\<close>, and success means the last one.\<close>

lemma apply_phase:
  assumes "pebble_ok contents db" and "holds F st" and "entries contents (shIndex st) = M" and "commit_new F M doc"
    and "applyCommitDocument J db env doc i st = (err, st1)"
  shows "commit_phase contents F M doc st1 \<and>
    (err = None \<longrightarrow> holds (committed_files F doc) st1 \<and> entries contents (shIndex st1) = committed_map M doc)"
proof -
  let ?tx = "cdTransactionId doc"
  obtain r sti where i: "inspectCommitProjectionState db (aeInspect env) doc st = (r, sti)" by (metis surj_pair)
  note ins = inspect_before [OF assms(1-4) i]
  have before: "commit_phase contents F M doc st" using assms(2,3) by (rule commit_phase.before)
  show ?thesis
  proof (cases r)
    case (Inl e)
    then show ?thesis using assms(5) i ins before by (auto simp: applyCommitDocument_def)
  next
    case (Inr state)
    then have st: "state = zero_state" "sti = st" using ins by auto
    have sha: "length (cdSha256 doc) = 32"
      using assms(4) by (simp add: commit_new_def entry_storable_def entry_typed_def commit_entry_def)
    show ?thesis
    proof (cases "preflightProjectionDocCount db ?tx (shIndex st)")
      case (Some e)
      then show ?thesis using assms(5) i Inr st before sha
        by (auto simp: applyCommitDocument_def handleExistingCommitProjection_def zero_state_def)
    next
      case None
      obtain ae sta where a: "appendDocumentIndexEntry J db env doc (commit_entry doc) i False st = (ae, sta)" by (metis surj_pair)
      from append_phase [OF assms(1,2,4) ready_new [OF assms(4)] a]
      obtain c where c: "entries contents (shIndex sta) = M" "idx_content sta = written F doc c" "ae = None \<longrightarrow> length (entry_record (commit_entry doc)) \<le> c"
          "\<forall>b f. shOpen sta = Some (b, f) \<longrightarrow> at_end f"
        using assms(3) by auto
      have full: "holds (committed_files F doc) sta" if "length (entry_record (commit_entry doc)) \<le> c"
        using written_all [OF assms(4) that assms(2)] c(2,4) by (simp add: holds_def)
      have phase: "commit_phase contents F M doc sta"
      proof (cases "length (entry_record (commit_entry doc)) \<le> c")
        case True
        then show ?thesis using full c(1) by (intro in_index) auto
      next
        case False
        then show ?thesis using c(1,2) by (intro torn [of sta F doc c]) (simp_all add: written_def)
      qed
      show ?thesis
      proof (cases ae)
        case (Some e)
        then show ?thesis using assms(5) i Inr st sha None a phase
          by (auto simp: applyCommitDocument_def handleExistingCommitProjection_def zero_state_def)
      next
        case an: None
        obtain pe ix where p: "addProjectionDocument db ?tx (cdBlockId doc) (shIndex sta) = (pe, ix)" by (metis surj_pair)
        have ph: "entries contents ix \<in> {M, listed_map M doc, committed_map M doc}" "pe = None \<longrightarrow> entries contents ix = committed_map M doc"
          using addProjectionDocument_phase [OF assms(1) p, of M] c(1) assms(4) by (auto simp: commit_new_def)
        have st1: "holds F' st1 = holds F' sta" "shIndex st1 = ix" "err = pe" for F'
          using assms(5) i Inr st sha None a an p
          by (auto simp: applyCommitDocument_def handleExistingCommitProjection_def zero_state_def split: option.splits)
        show ?thesis using st1 ph full c(3) an by (auto intro!: in_index)
      qed
    qed
  qed
qed

section \<open>The rows of the store stay readable\<close>

definition store_ok :: "record_json \<Rightarrow> ('s \<Rightarrow> bytes \<rightharpoonup> bytes) \<Rightarrow> 's Index \<Rightarrow> bool" where
  "store_ok J contents ix \<longleftrightarrow> uploads_ok J contents ix \<and> (\<forall>t. contents (idxdb ix) (txKey t) \<noteq> None \<longrightarrow> entries contents ix t \<noteq> None)"

text \<open>What a requeue of the Block needs: its file, and a generation \<open>PutPendingUpload\<close> accepts.\<close>

definition requeue_ok :: "CommitDocument \<Rightarrow> u64 \<Rightarrow> 's shard \<Rightarrow> bool" where
  "requeue_ok doc i st \<longleftrightarrow> shUploadEnabled st \<longrightarrow>
     cdBlockId doc \<noteq> 0 \<and> (\<exists>content. shBlkFiles st (cdBlockId doc) = Some content \<and> is_int64 (int (length content))) \<and>
     is_int64 (uploadGenerationFromApplyIndex i (cdCreatedAtUs doc)) \<and> 0 \<le> uploadGenerationFromApplyIndex i (cdCreatedAtUs doc)"

lemma tx_write_store:
  assumes "store_ok J contents ix" and "contents (idxdb ix') = (contents (idxdb ix))(txKey t \<mapsto> encodeEntry e)" and "length (BlockIDs e) < 65536"
  shows "store_ok J contents ix'"
proof -
  have "entries contents ix' = (entries contents ix)(t \<mapsto> e)" unfolding entries_def assms(2) using tx_table.table_put [where k = t and v = e] assms(3) by simp
  moreover have "uploads_ok J contents ix' = uploads_ok J contents ix"
    unfolding uploads_ok_def assms(2) by (simp add: outbox.rows_ok_foreign catalog.rows_ok_foreign pending_bounds confirmed_bounds upload_keys_disjoint)
  ultimately show ?thesis using assms(1) by (auto simp: store_ok_def assms(2) txKey_def)
qed

lemma Index_put_store:
  assumes "pebble_ok contents db" and "Index_put db t e ix = (err, ix')" and "length (BlockIDs e) < 65536" and "store_ok J contents ix"
  shows "store_ok J contents ix'"
proof -
  obtain ok s where st: "pb_Set db (txKey t) (encodeEntry e) (idxdb ix) = (ok, s)" by (metis surj_pair)
  have ix': "idxdb ix' = s" using assms(2) st by (auto simp: Index_put_def)
  from pebble_Set [OF assms(1) st] show ?thesis
  proof (elim disjE conjE)
    assume "contents s = (contents (idxdb ix))(txKey t \<mapsto> encodeEntry e)"
    then show ?thesis using tx_write_store [OF assms(4), of ix' t e] assms(3) ix' by simp
  next
    assume "contents s = contents (idxdb ix)"
    then have "contents (idxdb ix') = contents (idxdb ix)" using ix' by simp
    from kv_eq_tables [OF this] show ?thesis using assms(4) \<open>contents (idxdb ix') = _\<close> by (simp add: store_ok_def)
  qed
qed

lemma addProjectionDocument_store:
  assumes "pebble_ok contents db" and "store_ok J contents ix" and run: "addProjectionDocument db t b ix = (err, ix')"
    and bound: "\<And>e. entries contents ix t = Some e \<Longrightarrow> length (BlockIDs e) < 65535"
  shows "store_ok J contents ix'"
proof (cases "Index_Get db t ix")
  case (Inl e)
  then show ?thesis using run assms(2) Index_put_store [OF assms(1), of t "\<lparr>BlockIDs = [b], DocCount = 1, Completed = False\<rparr>" ix _ ix' J]
    by (auto simp: addProjectionDocument_def Index_Put_def split: if_splits prod.splits)
next
  case (Inr e)
  have be: "length (BlockIDs e) < 65535" using bound Index_Get_entries [OF assms(1) Inr] by blast
  let ?add = "BlockIDs e = [] \<or> b \<noteq> List.last (BlockIDs e)"
  obtain err1 ix1 where a: "(if ?add then Index_AddBlockID db t b ix else (None, ix)) = (err1, ix1)" by (metis surj_pair)
  have s1: "store_ok J contents ix1" and e1: "entries contents ix1 t = Some e' \<Longrightarrow> length (BlockIDs e') < 65536" for e'
  proof -
    show "store_ok J contents ix1"
      using a assms(2) Inr be Index_put_store [OF assms(1), of t "e\<lparr>BlockIDs := BlockIDs e @ [b]\<rparr>" ix err1 ix1 J]
      by (auto simp: Index_AddBlockID_def split: if_splits)
    show "entries contents ix1 t = Some e' \<Longrightarrow> length (BlockIDs e') < 65536"
      using a be Index_Get_entries [OF assms(1) Inr] Index_AddBlockID_entries [OF assms(1) _ Index_Get_entries [OF assms(1) Inr] be, of b err1 ix1]
      by (auto split: if_splits)
  qed
  show ?thesis
  proof (cases err1)
    case (Some er)
    then show ?thesis using run Inr a s1 by (auto simp: addProjectionDocument_def)
  next
    case None
    then obtain err2 where i: "Index_IncrementDocCount db t ix1 = (err2, ix')"
      using run Inr a by (auto simp: addProjectionDocument_def split: prod.splits)
    show ?thesis
    proof (cases "Index_Get db t ix1")
      case (Inr e2)
      then show ?thesis using i s1 e1 [OF Index_Get_entries [OF assms(1) Inr]] Index_put_store [OF assms(1), of t "e2\<lparr>DocCount := DocCount e2 + 1\<rparr>" ix1 err2 ix' J]
        by (auto simp: Index_IncrementDocCount_def split: if_splits)
    qed (use i s1 in \<open>auto simp: Index_IncrementDocCount_def\<close>)
  qed
qed

lemma requeue_store:
  assumes "pebble_ok contents db" and "requeue_ok doc i st" and "store_ok J contents (shIndex st)"
    and run: "requeueBlockUploadAfterIndexAppend J db statOk (cdBlockId doc) (uploadGenerationFromApplyIndex i (cdCreatedAtUs doc)) st = (err, st1)"
  shows "store_ok J contents (shIndex st1)"
proof (cases "shUploadEnabled st \<and> statOk")
  case True
  then obtain content where c: "shBlkFiles st (cdBlockId doc) = Some content" "is_int64 (int (length content))" using assms(2) by (auto simp: requeue_ok_def)
  define u where "u = \<lparr>puBlockID = cdBlockId doc, puShardID = shShardID st, puSealedSizeBytes = int (length content),
      puSealedAtUs = uploadGenerationFromApplyIndex i (cdCreatedAtUs doc), puUploadGeneration = uploadGenerationFromApplyIndex i (cdCreatedAtUs doc)\<rparr>"
  obtain pe ix where p: "PutPendingUpload db u (shIndex st) = (pe, ix)" by (metis surj_pair)
  have st1: "shIndex st1 = ix" using run True c p by (auto simp: requeueBlockUploadAfterIndexAppend_def sealedSizeForUploadRequeueLocked_def u_def Let_def split: option.splits)
  have "pending_int64 u" using True assms(2) c by (simp add: pending_int64_def u_def requeue_ok_def)
  from PutPendingUpload_contents [OF assms(1) p this] show ?thesis unfolding st1
  proof (elim disjE conjE)
    assume w: "pending_valid (puBlockID u) u" "contents (idxdb ix) = (contents (idxdb (shIndex st)))(pendingUploadKey (puBlockID u) \<mapsto> encodePendingUpload u)"
    note t = tables_pending_write [of _ _ contents, OF w]
    show "store_ok J contents ix" using t(3,4) assms(3) by (simp add: store_ok_def w(2) upload_keys_disjoint)
  next
    assume e: "contents (idxdb ix) = contents (idxdb (shIndex st))"
    from kv_eq_tables [OF e] show "store_ok J contents ix" using assms(3) e by (simp add: store_ok_def)
  qed
qed (use run assms(3) in \<open>auto simp: requeueBlockUploadAfterIndexAppend_def sealedSizeForUploadRequeueLocked_def split: if_splits\<close>)

lemma requeue_ok_set_idx [simp]: "requeue_ok doc i (set_idx b content st) = requeue_ok doc i st"
  by (simp add: requeue_ok_def)

lemma contains_index: "blockIndexContainsDocumentRepairingTail io b t n st = (r, st1) \<Longrightarrow> shIndex st1 = shIndex st \<and> requeue_ok doc i st1 = requeue_ok doc i st"
  by (auto simp: blockIndexContainsDocumentRepairingTail_def Let_def split: sum.splits if_splits option.splits prod.splits)

lemma append_store:
  assumes "pebble_ok contents db" and "requeue_ok doc i st" and "store_ok J contents (shIndex st)"
    and "appendDocumentIndexEntry J db env doc e i already st = (err, st1)"
  shows "store_ok J contents (shIndex st1)"
proof (cases "\<exists>f. shOpen st = Some (cdBlockId doc, f)")
  case True
  then show ?thesis using assms(3,4) by (auto simp: appendDocumentIndexEntry_def split: if_splits option.splits prod.splits)
next
  case False
  then have run: "append_historical J db env doc e i st = (err, st1)"
    using assms(4) by (auto simp: appendDocumentIndexEntry_def split: option.splits if_splits)
  obtain rc stc where ct: "blockIndexContainsDocumentRepairingTail (aeContains env) (cdBlockId doc) (cdTransactionId doc) (cdDocumentName doc) st = (rc, stc)"
    by (metis surj_pair)
  have stc: "store_ok J contents (shIndex stc)" "requeue_ok doc i stc" using contains_index [OF ct, of doc i] assms(2,3) by auto
  have rq: "store_ok J contents (shIndex st')" if "requeueBlockUploadAfterIndexAppend J db (aeStat env) (cdBlockId doc) (uploadGenerationFromApplyIndex i (cdCreatedAtUs doc)) (set_idx (cdBlockId doc) x stc) = (er, st')" for x er st'
    using requeue_store [OF assms(1) _ _ that] stc by simp
  show ?thesis using run ct stc rq requeue_store [OF assms(1) stc(2,1)]
    by (auto simp: append_historical_def Let_def split: sum.splits bool.splits option.splits prod.splits)
qed

end
