(* ===== verification/Shard_Commit_Replay.thy ===== *)
theory Shard_Commit_Replay
  imports Shard_Commit_Sound
begin

text \<open>
  Replaying a committed Document after a crash: the fault-free apply on every state an interrupted
  apply can leave behind, and that the interrupted apply and its replay together count the Document
  exactly once.
\<close>

section \<open>The first, interrupted apply\<close>

lemma apply_store:
  assumes "pebble_ok contents db" and "holds F st" and "entries contents (shIndex st) = M" and "commit_new F M doc"
    and "requeue_ok doc i st" and "store_ok J contents (shIndex st)"
    and "applyCommitDocument J db env doc i st = (err, st1)"
  shows "store_ok J contents (shIndex st1)"
proof -
  obtain r sti where i: "inspectCommitProjectionState db (aeInspect env) doc st = (r, sti)" by (metis surj_pair)
  note ins = inspect_before [OF assms(1-4) i]
  obtain ae sta where a: "appendDocumentIndexEntry J db env doc (commit_entry doc) i False st = (ae, sta)" by (metis surj_pair)
  have sa: "store_ok J contents (shIndex sta)" by (rule append_store [OF assms(1,5,6) a])
  have ea: "entries contents (shIndex sta) = M" using append_phase [OF assms(1,2,4) ready_new [OF assms(4)] a] assms(3) by simp
  obtain pe ix where p: "addProjectionDocument db (cdTransactionId doc) (cdBlockId doc) (shIndex sta) = (pe, ix)" by (metis surj_pair)
  have sp: "store_ok J contents ix"
    using addProjectionDocument_store [OF assms(1) sa p] ea assms(4) by (fastforce simp: commit_new_def)
  have "shIndex st1 \<in> {shIndex st, shIndex sta, ix}"
    using assms(7) i ins a p
    by (auto simp: applyCommitDocument_def handleExistingCommitProjection_def zero_state_def split: sum.splits if_splits option.splits)
  then show ?thesis using assms(6) sa sp by auto
qed

section \<open>A torn index\<close>

text \<open>The index of the Document's Block ends in \<open>c\<close> bytes of its record, a cut the repair recognizes.\<close>

definition torn_at :: "(u64 \<rightharpoonup> IndexEntry list) \<Rightarrow> CommitDocument \<Rightarrow> nat \<Rightarrow> 's shard \<Rightarrow> bool" where
  "torn_at F doc c st \<longleftrightarrow> idx_content st = written F doc c \<and> c < length (entry_record (commit_entry doc)) \<and>
     c \<noteq> 4 \<and> c \<noteq> 4 + length (encodeIndexEntry (commit_entry doc)) \<and> (\<forall>b f. shOpen st = Some (b, f) \<longrightarrow> at_end f \<and> b \<noteq> cdBlockId doc)"

definition files_storable :: "(u64 \<rightharpoonup> IndexEntry list) \<Rightarrow> bool" where
  "files_storable F \<longleftrightarrow> (\<forall>b es. F b = Some es \<longrightarrow> (\<forall>e \<in> set es. entry_storable e \<and> stored_entry e = e))"

lemma holds_files: "holds F st \<Longrightarrow> files_storable F"
  by (auto simp: files_storable_def holds_def indexed_def)

lemma open_torn:
  assumes "torn_at F doc c st" and "files_storable F" and "entry_storable (commit_entry doc)" and "F (cdBlockId doc) = Some es"
  shows "c = 0 \<Longrightarrow> open_index (idx_content st) [] (cdBlockId doc) = Inr es"
    and "c \<noteq> 0 \<Longrightarrow> \<exists>cause. open_index (idx_content st) [] (cdBlockId doc) = Inl (IdxOpenErr (ErrIdxCorrupt cause))"
    and "RepairIndexTail (the (idx_content st (cdBlockId doc))) [] = (None, idx_file_bytes es)"
    and "b \<noteq> cdBlockId doc \<Longrightarrow> open_index (idx_content st) [] b = (case F b of None \<Rightarrow> Inl IdxNotExist | Some es \<Rightarrow> Inr es)"
proof -
  have st: "\<forall>e \<in> set es. entry_storable e" "map stored_entry es = es" using assms(2,4) by (auto simp: files_storable_def map_idI)
  have c: "idx_content st (cdBlockId doc) = Some (idx_file_bytes es @ take c (entry_record (commit_entry doc)))"
    using assms(1,4) by (simp add: torn_at_def written_def)
  show "c = 0 \<Longrightarrow> open_index (idx_content st) [] (cdBlockId doc) = Inr es"
    using c OpenIndexReader_file [OF st(1)] st(2) by (simp add: open_index_def)
  have cut: "c < length (entry_record (commit_entry doc))" using assms(1) by (simp add: torn_at_def)
  show "\<exists>cause. open_index (idx_content st) [] (cdBlockId doc) = Inl (IdxOpenErr (ErrIdxCorrupt cause))" if c0: "c \<noteq> 0"
  proof -
    obtain cause where cause: "torn_result (length (encodeIndexEntry (commit_entry doc))) c = Inl (ErrIdxCorrupt cause)"
      using c0 by (auto simp: torn_result_def)
    have "OpenIndexReader (idx_file_bytes es @ take c (entry_record (commit_entry doc))) [] = Inl (ErrIdxCorrupt cause)"
      by (rule OpenIndexReader_error [OF st(1)]) (use readNextEntry_torn [OF _ _ assms(3) cut] cause in fastforce)
    then show ?thesis using c by (simp add: open_index_def)
  qed
  show "RepairIndexTail (the (idx_content st (cdBlockId doc))) [] = (None, idx_file_bytes es)"
    using RepairIndexTail_torn [OF st(1) assms(3) cut] assms(1) c by (simp add: torn_at_def)
  show "open_index (idx_content st) [] b = (case F b of None \<Rightarrow> Inl IdxNotExist | Some es \<Rightarrow> Inr es)" if "b \<noteq> cdBlockId doc"
  proof (cases "F b")
    case (Some es')
    then have "\<forall>e \<in> set es'. entry_storable e" "map stored_entry es' = es'" using assms(2) by (auto simp: files_storable_def map_idI)
    then show ?thesis using OpenIndexReader_file [of es'] Some that assms(1) by (simp add: open_index_def torn_at_def written_def)
  qed (use that assms(1) in \<open>simp add: open_index_def torn_at_def written_def\<close>)
qed

lemma torn_repaired:
  assumes "torn_at F doc c st" and "F (cdBlockId doc) = Some es"
  shows "torn_at F doc 0 (set_idx (cdBlockId doc) (idx_file_bytes es) st)"
proof -
  have "idx_content (set_idx (cdBlockId doc) (idx_file_bytes es) st) = written F doc 0" using assms by (simp add: torn_at_def written_def)
  moreover have "shOpen (set_idx (cdBlockId doc) (idx_file_bytes es) st) = shOpen st"
    using assms(1) by (auto simp: torn_at_def set_idx_def split: option.splits)
  ultimately show ?thesis using assms(1) by (auto simp: torn_at_def)
qed

text \<open>The part of the Shard the repair of an index leaves alone.\<close>

definition same_store :: "'s shard \<Rightarrow> 's shard \<Rightarrow> bool" where
  "same_store st st' \<longleftrightarrow> shOutbox st' = shOutbox st \<and> shIdxNil st' = shIdxNil st \<and> shBlkFiles st' = shBlkFiles st \<and> shUploadEnabled st' = shUploadEnabled st \<and>
     shShardID st' = shShardID st"

lemma same_store_refl [simp]: "same_store st st"
  and same_store_trans: "same_store st st' \<Longrightarrow> same_store st' st'' \<Longrightarrow> same_store st st''"
  and same_store_set_idx [simp]: "same_store st (set_idx b x st)"
  by (simp_all add: same_store_def)

definition calm_io :: "index_io \<Rightarrow> bool" where
  "calm_io io \<longleftrightarrow> ioOpen io = [] \<and> ioRepair io = [] \<and> ioReopen io = []"

lemma entries_torn:
  assumes "torn_at F doc c st" and "files_storable F" and "entry_storable (commit_entry doc)" and "F (cdBlockId doc) = Some es" and "calm_io io"
  shows "\<exists>c' st'. blockIndexEntriesForApply io b t st = (Inr (tx_entries F t b), st') \<and> torn_at F doc c' st' \<and> same_store st st'"
proof (cases "b = cdBlockId doc \<and> c \<noteq> 0")
  case True
  then obtain cause where o1: "open_index (idx_content st) [] b = Inl (IdxOpenErr (ErrIdxCorrupt cause))" using open_torn(2) [OF assms(1-4)] by blast
  let ?st = "set_idx b (idx_file_bytes es) st"
  have tr: "torn_at F doc 0 ?st" using torn_repaired [OF assms(1,4)] True by simp
  have "open_index (idx_content ?st) [] b = Inr es" using open_torn(1) [OF tr assms(2-4)] True by simp
  then have "blockIndexEntriesForApply io b t st = (Inr (tx_entries F t b), ?st)"
    using o1 open_torn(3) [OF assms(1-4)] True assms(4,5)
    by (simp add: blockIndexEntriesForApply_def calm_io_def Let_def IndexReader_FindByTransaction_def tx_entries_def)
  then show ?thesis using tr same_store_set_idx by blast
next
  case False
  have "open_index (idx_content st) [] b = (case F b of None \<Rightarrow> Inl IdxNotExist | Some es \<Rightarrow> Inr es)"
    using False open_torn(1,4) [OF assms(1-4)] assms(4) by (cases "b = cdBlockId doc") auto
  then have "blockIndexEntriesForApply io b t st = (Inr (tx_entries F t b), st)"
    using assms(5) by (auto simp: blockIndexEntriesForApply_def calm_io_def IndexReader_FindByTransaction_def tx_entries_def split: option.splits)
  then show ?thesis using assms(1) by auto
qed

lemma inspect_torn:
  assumes "files_storable F" and "entry_storable (commit_entry doc)" and "F (cdBlockId doc) = Some es" and "\<forall>k. calm_io (ios k)"
  shows "torn_at F doc c st \<Longrightarrow> (\<exists>x. scan_docs doc n m state (tx_docs F (cdTransactionId doc) ids) = Inr x) \<Longrightarrow>
    \<exists>c' st'. inspect_blocks ios doc n k m state ids st = (scan_docs doc n m state (tx_docs F (cdTransactionId doc) ids), st') \<and> torn_at F doc c' st' \<and> same_store st st'"
proof (induction ids arbitrary: c st k m state)
  case Nil
  then show ?case by auto
next
  case (Cons b ids)
  obtain c1 st1 where b: "blockIndexEntriesForApply (ios k) b (cdTransactionId doc) st = (Inr (tx_entries F (cdTransactionId doc) b), st1)"
      "torn_at F doc c1 st1" "same_store st st1"
    using entries_torn [OF Cons.prems(1) assms(1-3) spec [OF assms(4)]] by blast
  obtain state' m' where i: "inspectCommitProjectionBlock doc n b m state (tx_entries F (cdTransactionId doc) b) = Inr (state', m')"
    using Cons.prems(2) by (auto simp: inspectBlock_scan scan_docs_append split: sum.splits)
  then have "\<exists>x. scan_docs doc n m' state' (tx_docs F (cdTransactionId doc) ids) = Inr x"
    using Cons.prems(2) by (simp add: inspectBlock_scan scan_docs_append)
  from Cons.IH [OF b(2) this, of "Suc k"] obtain c' st' where
    "inspect_blocks ios doc n (Suc k) m' state' ids st1 = (scan_docs doc n m' state' (tx_docs F (cdTransactionId doc) ids), st')" "torn_at F doc c' st'" "same_store st1 st'"
    by blast
  then show ?case using b i same_store_trans [OF b(3)] by (intro exI [of _ c'] exI [of _ st']) (simp add: inspectBlock_scan scan_docs_append)
qed

section \<open>The steps of a replay without faults\<close>

definition calm_env :: "apply_env \<Rightarrow> bool" where
  "calm_env env \<longleftrightarrow> (\<forall>k. calm_io (aeInspect env k)) \<and> calm_io (aeContains env) \<and> aeAppend env = [] \<and> aeStat env"

text \<open>What a replay finds of the store: readable rows and a Block that can be requeued.\<close>

definition replayable :: "record_json \<Rightarrow> ('s \<Rightarrow> bytes \<rightharpoonup> bytes) \<Rightarrow> CommitDocument \<Rightarrow> u64 \<Rightarrow> 's shard \<Rightarrow> bool" where
  "replayable J contents doc i st \<longleftrightarrow> \<not> shIdxNil st \<and> store_ok J contents (shIndex st) \<and> requeue_ok doc i st"

lemma replayable_same: "same_store st st' \<Longrightarrow> replayable J contents doc i st' = replayable J contents doc i st"
  by (simp add: replayable_def same_store_def requeue_ok_def)

lemma replayable_set_idx [simp]: "replayable J contents doc i (set_idx b x st) = replayable J contents doc i st"
  by (rule replayable_same) simp

lemma contains_present:
  assumes "holds F st" and "F b = Some es" and "e \<in> set es" "TransactionID e = t" "DocName e = n" and "calm_io io"
  shows "blockIndexContainsDocumentRepairingTail io b t n st = (Inr True, st)"
proof -
  have "open_index (idx_content st) [] b = Inr es" using open_index_indexed(1) [of "idx_content st" F b] assms(1,2) by (simp add: holds_def)
  moreover obtain e' where "IndexReader_Find es t n = Inr e'" using find_tx_entry(1) [of es t n] assms(3-5) by blast
  ultimately show ?thesis using assms(6) by (simp add: blockIndexContainsDocumentRepairingTail_def blockIndexContainsDocument_def calm_io_def)
qed

lemma contains_torn:
  assumes "torn_at F doc c st" and "files_storable F" and "entry_storable (commit_entry doc)" and "F (cdBlockId doc) = Some es" and "calm_io io"
    and new: "\<forall>e \<in> set (tx_entries F (cdTransactionId doc) (cdBlockId doc)). DocName e \<noteq> cdDocumentName doc"
  shows "\<exists>st'. blockIndexContainsDocumentRepairingTail io (cdBlockId doc) (cdTransactionId doc) (cdDocumentName doc) st = (Inr False, st') \<and>
    torn_at F doc 0 st' \<and> same_store st st'"
proof -
  let ?b = "cdBlockId doc" and ?st = "set_idx (cdBlockId doc) (idx_file_bytes es) st"
  have nf: "IndexReader_Find es (cdTransactionId doc) (cdDocumentName doc) = Inl ErrDocNotFound"
    using find_tx_entry [of es "cdTransactionId doc" "cdDocumentName doc"] new assms(4)
    by (cases "IndexReader_Find es (cdTransactionId doc) (cdDocumentName doc)") (auto simp: tx_entries_def)
  have tr: "torn_at F doc 0 ?st" by (rule torn_repaired [OF assms(1,4)])
  note o0 = open_torn(1) [OF tr assms(2-4)]
  show ?thesis
  proof (cases "c = 0")
    case True
    then show ?thesis using open_torn(1) [OF assms(1-4)] nf assms(1,5)
      by (simp add: blockIndexContainsDocumentRepairingTail_def blockIndexContainsDocument_def calm_io_def)
  next
    case False
    then obtain cause where "open_index (idx_content st) [] ?b = Inl (IdxOpenErr (ErrIdxCorrupt cause))" using open_torn(2) [OF assms(1-4)] by blast
    then show ?thesis using open_torn(3) [OF assms(1-4)] o0 nf tr assms(5)
      by (simp add: blockIndexContainsDocumentRepairingTail_def blockIndexContainsDocument_def calm_io_def Let_def)
  qed
qed

lemma requeue_total:
  assumes pb: "pebble_ok contents db" "pebble_total db" and r: "replayable J contents doc i st"
  shows "\<exists>ix. requeueBlockUploadAfterIndexAppend J db True (cdBlockId doc) (uploadGenerationFromApplyIndex i (cdCreatedAtUs doc)) st = (None, with_index ix st) \<and>
    entries contents ix = entries contents (shIndex st) \<and> store_ok J contents ix"
proof (cases "shUploadEnabled st")
  case False
  have "with_index (shIndex st) st = st" by (simp add: with_index_def)
  then show ?thesis using False r by (intro exI [of _ "shIndex st"]) (simp add: requeueBlockUploadAfterIndexAppend_def replayable_def)
next
  case True
  then obtain content where c: "shBlkFiles st (cdBlockId doc) = Some content" "is_int64 (int (length content))" and b0: "cdBlockId doc \<noteq> 0"
      and g: "0 \<le> uploadGenerationFromApplyIndex i (cdCreatedAtUs doc)"
    using r by (auto simp: replayable_def requeue_ok_def)
  define u where "u = \<lparr>puBlockID = cdBlockId doc, puShardID = shShardID st, puSealedSizeBytes = int (length content),
      puSealedAtUs = uploadGenerationFromApplyIndex i (cdCreatedAtUs doc), puUploadGeneration = uploadGenerationFromApplyIndex i (cdCreatedAtUs doc)\<rparr>"
  obtain ix where p: "PutPendingUpload db u (shIndex st) = (None, ix)"
    using pebble_Set_total [OF pb, of "pendingUploadKey (cdBlockId doc)" "encodePendingUpload u" "idxdb (shIndex st)"] b0 g
    by (auto simp: PutPendingUpload_def durable_def u_def)
  have sz: "sealedSizeForUploadRequeueLocked J db True (cdBlockId doc) st = Inr (int (length content))" using c by (simp add: sealedSizeForUploadRequeueLocked_def)
  obtain err st1 where run: "requeueBlockUploadAfterIndexAppend J db True (cdBlockId doc) (uploadGenerationFromApplyIndex i (cdCreatedAtUs doc)) st = (err, st1)" by (metis surj_pair)
  have st1: "st1 = with_index ix st" using run True sz p by (auto simp: requeueBlockUploadAfterIndexAppend_def u_def Let_def)
  have so: "store_ok J contents ix" using requeue_store [OF pb(1) _ _ run] r st1 by (simp add: replayable_def)
  then have "uploads_ok J contents (oxIndex (shOutbox (with_index ix st)))" by (simp add: store_ok_def)
  then obtain stats where "refreshPressure db (shOutbox (with_index ix st)) = Inr stats" using refreshPressure_total [OF pb] by blast
  then have "err = None" using run True sz p by (auto simp: requeueBlockUploadAfterIndexAppend_def u_def Let_def)
  then show ?thesis using run st1 so requeue_keeps(1) [OF pb(1) run] by auto
qed

lemma OpenIndexWriter_calm: "\<exists>f. OpenIndexWriter (idx_file_bytes es) [] = Inr f \<and> fsched f = []"
proof -
  let ?f = "\<lparr>fdata = idx_file_bytes es, fpos = 0, fsched = []\<rparr>"
  have "rest ?f = idx_header_bytes @ concat (map entry_record es)" by (simp add: rest_def idx_file_bytes_def)
  from validateIndexHeader_ok [OF _ this] show ?thesis by (simp add: OpenIndexWriter_def file_Open_def file_SeekEnd_def file_Seek_def)
qed

lemma IndexWriter_calm:
  assumes "fsched f = []" and "entry_storable e"
  shows "\<exists>f1 f2. IndexWriter_Append e f = (None, f1) \<and> IndexWriter_Close f1 = (None, f2)"
  using assms by (simp add: IndexWriter_Append_def IndexWriter_Close_def file_Write_def file_Sync_def entry_storable_def Let_def)

lemma append_torn_total:
  assumes pb: "pebble_ok contents db" "pebble_total db" and tr: "torn_at F doc c st" and fs: "files_storable F" and rd: "commit_new F M doc"
    and r: "replayable J contents doc i st" and env: "calm_env env"
  shows "\<exists>st1. appendDocumentIndexEntry J db env doc (commit_entry doc) i x st = (None, st1) \<and> holds (committed_files F doc) st1 \<and>
    entries contents (shIndex st1) = entries contents (shIndex st) \<and> store_ok J contents (shIndex st1)"
proof -
  let ?b = "cdBlockId doc"
  obtain es where es: "F ?b = Some es" and sto: "entry_storable (commit_entry doc)" using rd by (auto simp: commit_new_def)
  obtain st' where ct: "blockIndexContainsDocumentRepairingTail (aeContains env) ?b (cdTransactionId doc) (cdDocumentName doc) st = (Inr False, st')"
      "torn_at F doc 0 st'" "same_store st st'"
    using contains_torn [OF tr fs sto es _ ready_new [OF rd]] env by (auto simp: calm_env_def)
  have c: "idx_content st' ?b = Some (idx_file_bytes es)" and op: "\<forall>b f. shOpen st' = Some (b, f) \<longrightarrow> at_end f \<and> b \<noteq> ?b"
    using ct(2) es by (simp_all add: torn_at_def written_def)
  obtain f where f: "OpenIndexWriter (idx_file_bytes es) (aeAppend env) = Inr f" "fsched f = []" using OpenIndexWriter_calm env by (auto simp: calm_env_def)
  note fe = OpenIndexWriter_end [OF f(1)]
  obtain f1 f2 where w: "IndexWriter_Append (commit_entry doc) f = (None, f1)" "IndexWriter_Close f1 = (None, f2)" using IndexWriter_calm [OF f(2) sto] by blast
  have fd: "fdata f2 = idx_file_bytes es @ entry_record (commit_entry doc)"
    using IndexWriter_Append_prefix [OF w(1) fe(2)] IndexWriter_Close_data [OF w(2)] fe(1) by auto
  let ?st = "set_idx ?b (fdata f2) st'"
  have "replayable J contents doc i ?st" using r replayable_same [OF ct(3)] by simp
  then obtain ix where q: "requeueBlockUploadAfterIndexAppend J db True ?b (uploadGenerationFromApplyIndex i (cdCreatedAtUs doc)) ?st = (None, with_index ix ?st)"
      "entries contents ix = entries contents (shIndex ?st)" "store_ok J contents ix"
    using requeue_total [OF pb] by blast
  have "idx_content ?st = map_option idx_file_bytes \<circ> committed_files F doc"
    using ct(2) fd es by (auto simp: torn_at_def written_def committed_files_def idx_file_bytes_def fun_eq_iff)
  moreover have "shOpen ?st = shOpen st'" using op by (auto simp: set_idx_def split: option.splits)
  ultimately have h: "holds (committed_files F doc) ?st"
    using fs es sto rd op by (auto simp: holds_def indexed_def committed_files_def files_storable_def commit_new_def split: if_splits)
  have "append_historical J db env doc (commit_entry doc) i st = (None, with_index ix ?st)"
    using ct(1) c f(1) w q(1) env by (simp add: append_historical_def Let_def calm_env_def)
  moreover have "appendDocumentIndexEntry J db env doc (commit_entry doc) i x st = append_historical J db env doc (commit_entry doc) i st"
    using tr by (auto simp: appendDocumentIndexEntry_def torn_at_def split: option.splits)
  ultimately show ?thesis using h q(2,3) ct(3) by (simp add: same_store_def)
qed

lemma append_present_total:
  assumes pb: "pebble_ok contents db" "pebble_total db" and h: "holds (committed_files F doc) st" and op: "\<forall>b f. shOpen st = Some (b, f) \<longrightarrow> b \<noteq> cdBlockId doc"
    and r: "replayable J contents doc i st" and env: "calm_env env"
  shows "\<exists>ix. appendDocumentIndexEntry J db env doc (commit_entry doc) i x st = (None, with_index ix st) \<and>
    entries contents ix = entries contents (shIndex st) \<and> store_ok J contents ix"
proof -
  let ?b = "cdBlockId doc"
  have cf: "committed_files F doc ?b = Some (the (F ?b) @ [commit_entry doc])" by (simp add: committed_files_def)
  have "blockIndexContainsDocumentRepairingTail (aeContains env) ?b (cdTransactionId doc) (cdDocumentName doc) st = (Inr True, st)"
    by (rule contains_present [OF h cf, of "commit_entry doc"]) (use env in \<open>simp_all add: calm_env_def commit_entry_def\<close>)
  moreover obtain ix where "requeueBlockUploadAfterIndexAppend J db True ?b (uploadGenerationFromApplyIndex i (cdCreatedAtUs doc)) st = (None, with_index ix st)"
      "entries contents ix = entries contents (shIndex st)" "store_ok J contents ix"
    using requeue_total [OF pb r] by blast
  ultimately show ?thesis using op env by (auto simp: appendDocumentIndexEntry_def append_historical_def calm_env_def Let_def split: option.splits)
qed

lemma Index_Get_store:
  assumes "pebble_ok contents db" "pebble_total db" "store_ok J contents ix"
  shows "Index_Get db t ix = (case entries contents ix t of None \<Rightarrow> Inl ErrNotFound | Some e \<Rightarrow> Inr e)"
proof (cases "entries contents ix t")
  case None
  then have "contents (idxdb ix) (txKey t) = None" using assms(3) by (auto simp: store_ok_def)
  then show ?thesis using pebble_Get_total [OF assms(1,2)] None by (simp add: Index_Get_def)
next
  case (Some e)
  then show ?thesis using Index_Get_total [OF assms(1,2)] by simp
qed

lemma Index_put_total:
  assumes "pebble_ok contents db" "pebble_total db"
  shows "\<exists>ix'. Index_put db t e ix = (None, ix')"
  using pebble_Set_total [OF assms, of "txKey t" "encodeEntry e" "idxdb ix"] by (auto simp: Index_put_def)

lemma addProjectionDocument_total:
  assumes pb: "pebble_ok contents db" "pebble_total db" and so: "store_ok J contents ix"
    and e: "entries contents ix \<in> {M, listed_map M doc}" and bound: "\<forall>e. M (cdTransactionId doc) = Some e \<longrightarrow> length (BlockIDs e) < 65534 \<and> DocCount e \<noteq> 0xFFFF"
  shows "\<exists>ix'. addProjectionDocument db (cdTransactionId doc) (cdBlockId doc) ix = (None, ix') \<and> entries contents ix' = committed_map M doc"
proof -
  let ?t = "cdTransactionId doc" and ?b = "cdBlockId doc"
  obtain err ix' where run: "addProjectionDocument db ?t ?b ix = (err, ix')" by (metis surj_pair)
  have "err = None"
  proof (cases "entries contents ix ?t")
    case None
    then show ?thesis
      using run Index_Get_store [OF pb so, of ?t] Index_put_total [OF pb, of ?t "\<lparr>BlockIDs = [?b], DocCount = 1, Completed = False\<rparr>" ix]
      by (auto simp: addProjectionDocument_def Index_Put_def)
  next
    case (Some e0)
    have e0: "length (BlockIDs e0) < 65535" "DocCount e0 \<noteq> 0xFFFF"
    proof -
      obtain e1 where "M ?t = Some e1" "e0 = e1 \<or> e0 = listed_entry doc e1"
        using e Some by (auto simp: listed_map_def split: option.splits)
      then show "length (BlockIDs e0) < 65535" "DocCount e0 \<noteq> 0xFFFF" using bound listed_entry_idem(3) [of doc e1] by fastforce+
    qed
    let ?add = "BlockIDs e0 = [] \<or> ?b \<noteq> List.last (BlockIDs e0)"
    have g: "Index_Get db ?t ix = Inr e0" using Index_Get_store [OF pb so, of ?t] Some by simp
    obtain ix1 where a: "(if ?add then Index_AddBlockID db ?t ?b ix else (None, ix)) = (None, ix1)"
      using Index_put_total [OF pb, of ?t "e0\<lparr>BlockIDs := BlockIDs e0 @ [?b]\<rparr>" ix] g by (cases ?add) (auto simp: Index_AddBlockID_def)
    have "\<exists>e1. entries contents ix1 ?t = Some e1 \<and> DocCount e1 \<noteq> 0xFFFF"
    proof (cases ?add)
      case True
      then have "Index_AddBlockID db ?t ?b ix = (None, ix1)" using a by simp
      then show ?thesis using Index_AddBlockID_entries [OF pb(1) _ Some e0(1)] e0(2) by fastforce
    qed (use a Some e0 in auto)
    then obtain e1 where e1: "Index_Get db ?t ix1 = Inr e1" "DocCount e1 \<noteq> 0xFFFF" using Index_Get_total [OF pb] by blast
    obtain ix2 where "Index_IncrementDocCount db ?t ix1 = (None, ix2)" using Index_put_total [OF pb, of ?t "e1\<lparr>DocCount := DocCount e1 + 1\<rparr>" ix1] e1 by (auto simp: Index_IncrementDocCount_def)
    then show ?thesis using run g a by (simp add: addProjectionDocument_def)
  qed
  then show ?thesis using run addProjectionDocument_phase [OF pb(1) run e] bound by blast
qed

text \<open>The Documents the inspection of a replay sees.\<close>

lemma tx_entries_committed:
  "b \<noteq> cdBlockId doc \<Longrightarrow> tx_entries (committed_files F doc) t b = tx_entries F t b"
  "F (cdBlockId doc) \<noteq> None \<Longrightarrow> tx_entries (committed_files F doc) (cdTransactionId doc) (cdBlockId doc) = tx_entries F (cdTransactionId doc) (cdBlockId doc) @ [commit_entry doc]"
  by (auto simp: tx_entries_def committed_files_def commit_entry_def split: option.splits)

lemma tx_docs_other: "cdBlockId doc \<notin> set ids \<Longrightarrow> tx_docs (committed_files F doc) t ids = tx_docs F t ids"
  by (induction ids) (auto simp: tx_entries_committed(1))

lemma tx_docs_committed:
  assumes "F (cdBlockId doc) \<noteq> None" and "ids \<noteq> []" and "List.last ids = cdBlockId doc" and "cdBlockId doc \<notin> set (butlast ids)"
  shows "tx_docs (committed_files F doc) (cdTransactionId doc) ids =
    tx_docs F (cdTransactionId doc) ids @ [\<lparr>rdEntry = commit_entry doc, rdBlockID = cdBlockId doc\<rparr>]"
proof -
  have ids: "ids = butlast ids @ [cdBlockId doc]" using assms(2,3) append_butlast_last_id [of ids] by simp
  have "tx_docs (committed_files F doc) (cdTransactionId doc) (butlast ids @ [cdBlockId doc]) =
      tx_docs F (cdTransactionId doc) (butlast ids @ [cdBlockId doc]) @ [\<lparr>rdEntry = commit_entry doc, rdBlockID = cdBlockId doc\<rparr>]"
    using assms(1) tx_docs_other [OF assms(4), of F] by (simp add: tx_entries_committed(2))
  then show ?thesis using ids by simp
qed

lemma scan_last:
  assumes "\<forall>d \<in> set ds. DocName (rdEntry d) \<noteq> cdDocumentName doc"
  shows "scan_docs doc n 0 zero_state (ds @ [\<lparr>rdEntry = commit_entry doc, rdBlockID = cdBlockId doc\<rparr>]) =
    Inr (\<lparr>targetExists = True, targetCounted = length ds + 1 \<le> unat n, existing = commit_entry doc, existingBlockID = cdBlockId doc\<rparr>, length ds + 1)"
  using scan_docs_skip [OF assms] by (simp add: scan_docs_append zero_state_def commit_entry_def)

section \<open>The replay\<close>

lemma commitProjectionEntry_total:
  assumes "pebble_ok contents db" "pebble_total db" "replayable J contents doc i st" and "\<forall>e. entries contents (shIndex st) t = Some e \<longrightarrow> BlockIDs e \<noteq> []"
  shows "commitProjectionEntry db t st = Inr (entries contents (shIndex st) t)"
  using Index_Get_store [OF assms(1,2), of J "shIndex st" t] assms(3,4) by (auto simp: commitProjectionEntry_def replayable_def split: option.splits)

lemma preflight_total:
  assumes "pebble_ok contents db" "pebble_total db" "store_ok J contents ix" and "\<forall>e. entries contents ix t = Some e \<longrightarrow> DocCount e \<noteq> 0xFFFF"
  shows "preflightProjectionDocCount db t ix = None"
  using Index_Get_store [OF assms(1,2,3), of t] assms(4) by (auto simp: preflightProjectionDocCount_def split: option.splits)

lemma apply_uncounted:
  assumes "inspectCommitProjectionState db (aeInspect env) doc st = (Inr state, st1)" and "\<not> targetCounted state"
    and "targetExists state \<longrightarrow> existing state = commit_entry doc \<and> existingBlockID state = cdBlockId doc"
    and "length (cdSha256 doc) = 32" and "preflightProjectionDocCount db (cdTransactionId doc) (shIndex st1) = None"
    and "appendDocumentIndexEntry J db env doc (commit_entry doc) i (targetExists state) st1 = (None, st2)"
    and "addProjectionDocument db (cdTransactionId doc) (cdBlockId doc) (shIndex st2) = (None, ix)"
  shows "applyCommitDocument J db env doc i st = (None, cleanupCommittedOpenlogPreps (aeOpenlog env) doc (with_index ix st2))"
proof -
  have "commitDocumentMatchesExisting doc (commit_entry doc)"
    using assms(4) by (simp add: commitDocumentMatchesExisting_def duplicateDocumentMatches_def commit_entry_def)
  then show ?thesis using assms by (cases "targetExists state") (simp_all add: applyCommitDocument_def handleExistingCommitProjection_def)
qed

lemma ready_sha: "commit_new F M doc \<Longrightarrow> length (cdSha256 doc) = 32"
  by (simp add: commit_new_def entry_storable_def entry_typed_def commit_entry_def)

lemma replay_torn:
  assumes pb: "pebble_ok contents db" "pebble_total db" and rd: "commit_new F M doc" and fs: "files_storable F" and env: "calm_env env"
    and r: "replayable J contents doc i st" and tr: "torn_at F doc c st" and M: "entries contents (shIndex st) = M"
  shows "\<exists>st'. applyCommitDocument J db env doc i st = (None, st') \<and> holds (committed_files F doc) st' \<and> entries contents (shIndex st') = committed_map M doc"
proof -
  let ?t = "cdTransactionId doc"
  obtain es where es: "F (cdBlockId doc) = Some es" "entry_storable (commit_entry doc)" using rd by (auto simp: commit_new_def)
  have ids: "\<forall>e. entries contents (shIndex st) ?t = Some e \<longrightarrow> BlockIDs e \<noteq> []" using rd M by (simp add: commit_new_def)
  obtain c1 st1 where ins: "inspectCommitProjectionState db (aeInspect env) doc st = (Inr zero_state, st1)" "torn_at F doc c1 st1" "same_store st st1"
  proof (cases "M ?t")
    case None
    then show ?thesis using that [of st c] tr commitProjectionEntry_total [OF pb r ids] M by (simp add: inspectCommitProjectionState_def)
  next
    case (Some e)
    have old: "\<forall>d \<in> set (tx_docs F ?t (BlockIDs e)). DocName (rdEntry d) \<noteq> cdDocumentName doc" "length (tx_docs F ?t (BlockIDs e)) = unat (DocCount e)"
      using rd Some by (simp_all add: commit_new_def)
    have sc: "scan_docs doc (DocCount e) 0 zero_state (tx_docs F ?t (BlockIDs e)) = Inr (zero_state, unat (DocCount e))" using scan_docs_skip [OF old(1)] old(2) by simp
    have ios: "\<forall>k. calm_io (aeInspect env k)" using env by (simp add: calm_env_def)
    obtain c1 st1 where "inspect_blocks (aeInspect env) doc (DocCount e) 0 0 zero_state (BlockIDs e) st = (Inr (zero_state, unat (DocCount e)), st1)" "torn_at F doc c1 st1" "same_store st st1"
      using inspect_torn [OF fs es(2,1) ios tr, of "DocCount e" 0 zero_state "BlockIDs e" 0] sc by auto
    then show ?thesis using that [of st1 c1] commitProjectionEntry_total [OF pb r ids] M Some
      by (simp add: inspectCommitProjectionState_def inspectCommitProjectionEntry_def zero_state_def)
  qed
  have r1: "replayable J contents doc i st1" and M1: "entries contents (shIndex st1) = M" using r replayable_same [OF ins(3)] M ins(3) by (simp_all add: same_store_def)
  obtain st2 where a: "appendDocumentIndexEntry J db env doc (commit_entry doc) i False st1 = (None, st2)" "holds (committed_files F doc) st2"
      "entries contents (shIndex st2) = M" "store_ok J contents (shIndex st2)"
    using append_torn_total [OF pb ins(2) fs rd r1 env, of False] M1 by auto
  have bound: "\<forall>e. M ?t = Some e \<longrightarrow> length (BlockIDs e) < 65534 \<and> DocCount e \<noteq> 0xFFFF" using rd by (simp add: commit_new_def)
  obtain ix where p: "addProjectionDocument db ?t (cdBlockId doc) (shIndex st2) = (None, ix)" "entries contents ix = committed_map M doc"
    using addProjectionDocument_total [OF pb a(4), of M doc] bound a(3) by auto
  have pf: "preflightProjectionDocCount db ?t (shIndex st1) = None"
    using preflight_total [OF pb, of J "shIndex st1" ?t] r1 M1 bound by (simp add: replayable_def)
  have z: "\<not> targetExists zero_state" "\<not> targetCounted zero_state" by (simp_all add: zero_state_def)
  from apply_uncounted [OF ins(1) z(2) _ ready_sha [OF rd] pf _ p(1)] a(1) z show ?thesis using a(2) p(2) by simp
qed

lemmas ready_defs = commit_ready_def commit_new_def

lemma listed_nonempty: "BlockIDs (listed_entry doc e) \<noteq> []"
  by (auto simp: listed_entry_def)

lemma listed_ids:
  assumes "commit_ready F M doc" and "M (cdTransactionId doc) = Some e"
  shows "List.last (BlockIDs (listed_entry doc e)) = cdBlockId doc \<and> cdBlockId doc \<notin> set (butlast (BlockIDs (listed_entry doc e))) \<and>
    tx_docs F (cdTransactionId doc) (BlockIDs (listed_entry doc e)) = tx_docs F (cdTransactionId doc) (BlockIDs e)"
proof (cases "cdBlockId doc \<in> set (BlockIDs e)")
  case True
  then have "cdBlockId doc = List.last (BlockIDs e)" "cdBlockId doc \<notin> set (butlast (BlockIDs e))" "BlockIDs e \<noteq> []"
    using assms unfolding ready_defs by blast+
  then show ?thesis by (simp add: listed_entry_def)
next
  case False
  then have t: "tx_entries F (cdTransactionId doc) (cdBlockId doc) = []"
    using assms unfolding ready_defs tx_blocks_def by simp
  have "BlockIDs (listed_entry doc e) = BlockIDs e @ [cdBlockId doc]" using False last_in_set [of "BlockIDs e"] by (auto simp: listed_entry_def)
  then show ?thesis using False t by simp
qed

text \<open>The Documents of the Transaction once the Block is listed.\<close>

lemma listed_docs:
  assumes "commit_ready F M doc" and "M (cdTransactionId doc) = Some e"
  shows "tx_docs (committed_files F doc) (cdTransactionId doc) (BlockIDs (listed_entry doc e)) =
    tx_docs F (cdTransactionId doc) (BlockIDs e) @ [\<lparr>rdEntry = commit_entry doc, rdBlockID = cdBlockId doc\<rparr>]"
  using tx_docs_committed [of F doc "BlockIDs (listed_entry doc e)"] listed_ids [OF assms] listed_nonempty [of doc e] assms(1) by (simp add: ready_defs)

lemma unat_inc: "w \<noteq> (0xFFFF :: u16) \<Longrightarrow> unat (w + 1) = unat w + 1"
proof -
  assume "w \<noteq> 0xFFFF"
  then have "unat w \<noteq> 65535" by (auto simp: word_unat_eq_iff)
  moreover have "unat w < 65536" using unsigned_less [of w] by simp
  ultimately show ?thesis by (simp add: unat_word_ariths)
qed

lemma replay_counted:
  assumes "inspectCommitProjectionState db (aeInspect env) doc st = (Inr state, st)" and "targetExists state" "targetCounted state"
    and "existing state = commit_entry doc" and "length (cdSha256 doc) = 32"
  shows "applyCommitDocument J db env doc i st = (None, cleanupCommittedOpenlogPreps (aeOpenlog env) doc st)"
  using assms by (simp add: applyCommitDocument_def handleExistingCommitProjection_def commitDocumentMatchesExisting_def duplicateDocumentMatches_def commit_entry_def)

lemma replay_in_index:
  assumes pb: "pebble_ok contents db" "pebble_total db" and rd: "commit_ready F M doc" and env: "calm_env env"
    and r: "replayable J contents doc i st" and h: "holds (committed_files F doc) st" and op: "\<forall>b f. shOpen st = Some (b, f) \<longrightarrow> b \<noteq> cdBlockId doc"
    and M: "entries contents (shIndex st) \<in> {M, listed_map M doc, committed_map M doc}"
  shows "\<exists>st'. applyCommitDocument J db env doc i st = (None, st') \<and> holds (committed_files F doc) st' \<and> entries contents (shIndex st') = committed_map M doc"
proof -
  let ?t = "cdTransactionId doc" and ?b = "cdBlockId doc" and ?E = "\<lparr>rdEntry = commit_entry doc, rdBlockID = cdBlockId doc\<rparr>"
  let ?X = "entries contents (shIndex st)"
  have Fb: "F ?b \<noteq> None" and ios: "\<forall>k. ioOpen (aeInspect env k) = []" using rd env by (simp_all add: ready_defs calm_env_def calm_io_def)
  have ids: "\<forall>e. ?X ?t = Some e \<longrightarrow> BlockIDs e \<noteq> []"
    using M rd listed_nonempty [of doc] by (auto simp: ready_defs listed_map_def committed_map_def split: option.splits)
  have pe: "commitProjectionEntry db ?t st = Inr (?X ?t)" by (rule commitProjectionEntry_total [OF pb r ids])
  have insp: "inspect_blocks (aeInspect env) doc n 0 0 zero_state bs st = (scan_docs doc n 0 zero_state (tx_docs (committed_files F doc) ?t bs), st)" for n bs
    by (rule inspect_blocks_calm [OF h ios])
  have bound: "\<forall>e. M ?t = Some e \<longrightarrow> length (BlockIDs e) < 65534 \<and> DocCount e \<noteq> 0xFFFF" using rd by (simp add: ready_defs)
  have finish: "\<exists>st'. applyCommitDocument J db env doc i st = (None, st') \<and> holds (committed_files F doc) st' \<and> entries contents (shIndex st') = committed_map M doc"
    if state: "inspectCommitProjectionState db (aeInspect env) doc st = (Inr state, st)" "\<not> targetCounted state"
      "targetExists state \<longrightarrow> existing state = commit_entry doc \<and> existingBlockID state = ?b" and X: "?X \<in> {M, listed_map M doc}" for state
  proof -
    obtain ix where a: "appendDocumentIndexEntry J db env doc (commit_entry doc) i (targetExists state) st = (None, with_index ix st)" "entries contents ix = ?X" "store_ok J contents ix"
      using append_present_total [OF pb h op r env] by blast
    obtain ix' where p: "addProjectionDocument db ?t ?b ix = (None, ix')" "entries contents ix' = committed_map M doc"
      using addProjectionDocument_total [OF pb a(3), of M doc] bound a(2) X by auto
    have "preflightProjectionDocCount db ?t (shIndex st) = None"
      using preflight_total [OF pb, of J "shIndex st" ?t] r X bound by (auto simp: replayable_def listed_map_def split: option.splits)
    from apply_uncounted [OF state ready_sha [OF ready_commit_new [OF rd]] this a(1)] p h show ?thesis by simp
  qed
  show ?thesis
  proof (cases "M ?t")
    case None
    show ?thesis
    proof (cases "?X = M")
      case True
      then show ?thesis using finish [of zero_state] pe None by (simp add: inspectCommitProjectionState_def zero_state_def)
    next
      case False
      then have X: "?X = committed_map M doc" using M None by (auto simp: listed_map_def)
      have "tx_entries F ?t ?b = []" using rd None by (simp add: ready_defs tx_blocks_def)
      then have d: "tx_docs (committed_files F doc) ?t [?b] = [] @ [?E]" using tx_entries_committed(2) [of F doc] Fb by simp
      have s1: "inspect_blocks (aeInspect env) doc 1 0 0 zero_state [?b] st =
          (Inr (\<lparr>targetExists = True, targetCounted = True, existing = commit_entry doc, existingBlockID = ?b\<rparr>, 1), st)"
        unfolding insp d using scan_last [of "[]" doc 1] by simp
      have "inspectCommitProjectionState db (aeInspect env) doc st =
          (Inr \<lparr>targetExists = True, targetCounted = True, existing = commit_entry doc, existingBlockID = ?b\<rparr>, st)"
        using pe X None s1 by (simp add: inspectCommitProjectionState_def inspectCommitProjectionEntry_def committed_map_def del: inspect_blocks.simps)
      from replay_counted [OF this _ _ _ ready_sha [OF ready_commit_new [OF rd]]] show ?thesis using h X by simp
    qed
  next
    case (Some e)
    have old: "\<forall>d \<in> set (tx_docs F ?t (BlockIDs e)). DocName (rdEntry d) \<noteq> cdDocumentName doc" "length (tx_docs F ?t (BlockIDs e)) = unat (DocCount e)"
      using rd Some by (simp_all add: ready_defs)
    note docs = listed_docs [OF rd Some]
    have seen: "inspectCommitProjectionState db (aeInspect env) doc st =
        (Inr \<lparr>targetExists = True, targetCounted = unat (DocCount e) + 1 \<le> unat n, existing = commit_entry doc, existingBlockID = ?b\<rparr>, st)"
      if "?X ?t = Some e'" "BlockIDs e' = BlockIDs (listed_entry doc e)" "DocCount e' = n" for e' n
      using pe that insp scan_last [OF old(1), of n] by (simp add: inspectCommitProjectionState_def inspectCommitProjectionEntry_def docs old(2))
    have keep: "M = listed_map M doc" if "BlockIDs (listed_entry doc e) = BlockIDs e"
    proof -
      have "listed_entry doc e = e" using that by (simp add: listed_entry_def split: if_splits)
      then show ?thesis using Some by (simp add: listed_map_def fun_upd_idem)
    qed
    consider (same) "?X = M" "BlockIDs (listed_entry doc e) \<noteq> BlockIDs e" | (listed) "?X = listed_map M doc" | (counted) "?X = committed_map M doc"
      using M keep by blast
    then show ?thesis
    proof cases
      case same
      then have nb: "?b \<notin> set (BlockIDs e)" using rd Some by (auto simp: listed_entry_def ready_defs split: if_splits)
      have "inspectCommitProjectionState db (aeInspect env) doc st = (Inr zero_state, st)"
        using pe same(1) Some insp scan_docs_skip [OF old(1)] old(2) nb tx_docs_other [OF nb, of F ?t]
        by (simp add: inspectCommitProjectionState_def inspectCommitProjectionEntry_def zero_state_def)
      from finish [OF this] show ?thesis using same(1) by (simp add: zero_state_def)
    next
      case listed
      have "?X ?t = Some (listed_entry doc e)" using listed Some by (simp add: listed_map_def)
      from finish [OF seen [OF this, of "DocCount e"]] show ?thesis using listed by simp
    next
      case counted
      have un: "unat (DocCount e + 1) = unat (DocCount e) + 1" using bound Some by (intro unat_inc) simp
      from replay_counted [OF seen [of "(listed_entry doc e)\<lparr>DocCount := DocCount e + 1\<rparr>" "DocCount e + 1"] _ _ _ ready_sha [OF ready_commit_new [OF rd]]]
      show ?thesis using counted Some un h by (simp add: committed_map_def)
    qed
  qed
qed

section \<open>Properties\<close>

text \<open>
  The Shard after a restart: the same rows and files, and the freshly opened Block \<open>n\<close> with an empty index.
\<close>

definition restarted :: "u64 \<Rightarrow> 's shard \<Rightarrow> 's shard \<Rightarrow> bool" where
  "restarted n st st' \<longleftrightarrow> shIndex st' = shIndex st \<and> \<not> shIdxNil st' \<and> shUploadEnabled st' = shUploadEnabled st \<and>
     (\<forall>b. b \<noteq> n \<longrightarrow> shBlkFiles st' b = shBlkFiles st b) \<and>
     idx_content st' = (idx_content st)(n \<mapsto> idx_file_bytes []) \<and> (\<exists>f. shOpen st' = Some (n, f) \<and> at_end f)"

text \<open>The record of the Document is not cut right after its length or right before its checksum, the two cuts \<open>RepairIndexTail\<close> refuses.\<close>

definition repairable :: "(u64 \<rightharpoonup> IndexEntry list) \<Rightarrow> CommitDocument \<Rightarrow> 's shard \<Rightarrow> bool" where
  "repairable F doc st \<longleftrightarrow> (\<forall>c \<in> {4, 4 + length (encodeIndexEntry (commit_entry doc))}. idx_content st \<noteq> written F doc c)"

lemma append_keeps_files:
  assumes "appendDocumentIndexEntry J db env doc e i x st = (err, st1)"
  shows "shBlkFiles st1 = shBlkFiles st \<and> shUploadEnabled st1 = shUploadEnabled st \<and> shIdxNil st1 = shIdxNil st"
proof -
  have q: "shBlkFiles st' = shBlkFiles st0 \<and> shUploadEnabled st' = shUploadEnabled st0 \<and> shIdxNil st' = shIdxNil st0"
    if "requeueBlockUploadAfterIndexAppend J db ok b g st0 = (er, st')" for ok b g st0 er st'
    using that by (auto simp: requeueBlockUploadAfterIndexAppend_def with_index_def Let_def split: if_splits sum.splits prod.splits option.splits)
  have c: "shBlkFiles st' = shBlkFiles st \<and> shUploadEnabled st' = shUploadEnabled st \<and> shIdxNil st' = shIdxNil st"
    if "blockIndexContainsDocumentRepairingTail io b t n st = (r, st')" for io b t n r st'
    using that by (auto simp: blockIndexContainsDocumentRepairingTail_def Let_def split: sum.splits if_splits option.splits prod.splits)
  have "shBlkFiles st1 = shBlkFiles st \<and> shUploadEnabled st1 = shUploadEnabled st \<and> shIdxNil st1 = shIdxNil st" if "append_historical J db env doc e i st = (err, st1)"
    using that by (auto simp: append_historical_def Let_def split: sum.splits bool.splits option.splits prod.splits dest!: c q)
  then show ?thesis using assms by (auto simp: appendDocumentIndexEntry_def split: option.splits if_splits prod.splits)
qed

lemma apply_keeps_files:
  assumes "pebble_ok contents db" and "holds F st" and "commit_new F (entries contents (shIndex st)) doc"
    and "applyCommitDocument J db env doc i st = (err, st1)"
  shows "shBlkFiles st1 = shBlkFiles st \<and> shUploadEnabled st1 = shUploadEnabled st \<and> shIdxNil st1 = shIdxNil st"
proof -
  obtain r sti where i: "inspectCommitProjectionState db (aeInspect env) doc st = (r, sti)" by (metis surj_pair)
  note ins = inspect_before [OF assms(1,2) refl assms(3) i]
  obtain ae sta where a: "appendDocumentIndexEntry J db env doc (commit_entry doc) i False st = (ae, sta)" by (metis surj_pair)
  show ?thesis
    using assms(4) i ins a append_keeps_files [OF a]
    by (auto simp: applyCommitDocument_def handleExistingCommitProjection_def zero_state_def cleanupCommittedOpenlogPreps_def with_index_def
        split: sum.splits if_splits option.splits prod.splits)
qed

text \<open>An empty index file for a Block that had none changes no Transaction.\<close>

lemma fresh_entries: "F n = None \<Longrightarrow> tx_entries (F(n \<mapsto> [])) t b = tx_entries F t b"
  by (simp add: tx_entries_def)

lemma fresh_docs: "F n = None \<Longrightarrow> tx_docs (F(n \<mapsto> [])) t ids = tx_docs F t ids"
  by (simp add: tx_docs_def fresh_entries)

lemma fresh_ready: "F n = None \<Longrightarrow> commit_ready F M doc \<Longrightarrow> commit_ready (F(n \<mapsto> [])) M doc"
  by (auto simp: ready_defs fresh_entries fresh_docs)

lemma fresh_holds:
  assumes "holds G st" and "restarted n st st'"
  shows "holds (G(n \<mapsto> [])) st'"
  using assms by (auto simp: holds_def indexed_def restarted_def)

lemma fresh_committed: "F n = None \<Longrightarrow> F (cdBlockId doc) \<noteq> None \<Longrightarrow> (committed_files F doc)(n \<mapsto> []) = committed_files (F(n \<mapsto> [])) doc"
  by (auto simp: committed_files_def fun_eq_iff)

lemma committed_docs:
  assumes rd: "commit_ready F M doc"
  shows "\<exists>e. committed_map M doc (cdTransactionId doc) = Some e \<and>
    tx_docs (committed_files F doc) (cdTransactionId doc) (BlockIDs e) =
      tx_docs F (cdTransactionId doc) (tx_blocks M (cdTransactionId doc)) @ [\<lparr>rdEntry = commit_entry doc, rdBlockID = cdBlockId doc\<rparr>] \<and>
    length (tx_docs F (cdTransactionId doc) (tx_blocks M (cdTransactionId doc))) + 1 = unat (DocCount e)"
proof (cases "M (cdTransactionId doc)")
  case None
  then have "tx_entries F (cdTransactionId doc) (cdBlockId doc) = []" "F (cdBlockId doc) \<noteq> None" using rd by (simp_all add: ready_defs tx_blocks_def)
  then show ?thesis using None tx_entries_committed(2) [of F doc] by (simp add: committed_map_def tx_blocks_def)
next
  case (Some e)
  have "DocCount e \<noteq> 0xFFFF" "length (tx_docs F (cdTransactionId doc) (BlockIDs e)) = unat (DocCount e)" using rd Some by (simp_all add: ready_defs)
  then show ?thesis using Some listed_docs [OF rd Some] unat_inc [of "DocCount e"] by (simp add: committed_map_def tx_blocks_def)
qed

text \<open>
  C2: a committed Document is applied exactly once. Let the Transaction be complete and the Document
  new, in the last Block of the Transaction or in another one, and let its first apply run with any
  faults of the Projection store and of the index files and be cut off by a crash, only not exactly
  between two of the three writes of the index record (\<open>repairable\<close>), which \<open>RepairIndexTail\<close> refuses. With
  uploads enabled the Block has its file, and the generation of a requeue is a valid one (\<open>requeue_ok\<close>).
  Then the replay of the command after the restart, now without faults, succeeds, the index file of the Block holds the old entries followed by
  the Document, once, the Projection counts it, and the Documents of the Transaction are the old ones
  followed by the new one.
\<close>

theorem commit_applied_once:
  assumes pb: "pebble_ok contents db" and st: "holds F st" "store_ok J contents (shIndex st)"
    and rd: "commit_ready F (entries contents (shIndex st)) doc" and rq: "requeue_ok doc i st"
    and first_run: "applyCommitDocument J db env doc i st = (err, st1)" and cut: "repairable F doc st1"
    and restart: "restarted n st1 st2" "F n = None"
    and calm: "pebble_ok contents db'" "pebble_total db'" "calm_env env'"
  shows "\<exists>st3 e. applyCommitDocument J db' env' doc i st2 = (None, st3) \<and> holds (committed_files (F(n \<mapsto> [])) doc) st3 \<and>
    entries contents (shIndex st3) = committed_map (entries contents (shIndex st)) doc \<and>
    entries contents (shIndex st3) (cdTransactionId doc) = Some e \<and>
    tx_docs (committed_files (F(n \<mapsto> [])) doc) (cdTransactionId doc) (BlockIDs e) =
      tx_docs F (cdTransactionId doc) (tx_blocks (entries contents (shIndex st)) (cdTransactionId doc)) @ [\<lparr>rdEntry = commit_entry doc, rdBlockID = cdBlockId doc\<rparr>] \<and>
    length (tx_docs (committed_files (F(n \<mapsto> [])) doc) (cdTransactionId doc) (BlockIDs e)) = unat (DocCount e)"
proof -
  let ?M = "entries contents (shIndex st)" and ?t = "cdTransactionId doc" and ?F = "F(n \<mapsto> [])"
  note new = ready_commit_new [OF rd]
  have ph: "commit_phase contents F ?M doc st1" using apply_phase [OF pb st(1) refl new first_run] by simp
  have Fb: "F (cdBlockId doc) \<noteq> None" using rd by (simp add: ready_defs)
  then have nb: "n \<noteq> cdBlockId doc" using restart(2) by auto
  have rd2: "commit_ready ?F ?M doc" by (rule fresh_ready [of F, OF restart(2) rd])
  have fs: "files_storable ?F" using holds_files [OF st(1)] by (simp add: files_storable_def)
  have r2: "replayable J contents doc i st2"
    using apply_store [OF pb st(1) refl new rq st(2) first_run] apply_keeps_files [OF pb st(1) new first_run] restart(1) rq nb
    by (simp add: replayable_def restarted_def requeue_ok_def)
  have op: "\<forall>b f. shOpen st2 = Some (b, f) \<longrightarrow> b \<noteq> cdBlockId doc" "\<forall>b f. shOpen st2 = Some (b, f) \<longrightarrow> at_end f"
    and ix: "shIndex st2 = shIndex st1" using restart(1) nb by (auto simp: restarted_def)
  have wr: "written ?F doc c = (written F doc c)(n \<mapsto> idx_file_bytes [])" for c using nb by (auto simp: written_def fun_eq_iff)
  have torn2: "torn_at ?F doc c st2" if "idx_content st1 = written F doc c" "c < length (entry_record (commit_entry doc))" for c
    using that cut restart(1) op wr by (auto simp: torn_at_def repairable_def restarted_def)
  have "\<exists>st3. applyCommitDocument J db' env' doc i st2 = (None, st3) \<and> holds (committed_files ?F doc) st3 \<and> entries contents (shIndex st3) = committed_map ?M doc"
    using ph
  proof cases
    case before
    have "idx_content st1 = written F doc 0" using holds_content [OF before(1)] Fb by (auto simp: written_def fun_eq_iff)
    from torn2 [OF this] show ?thesis using replay_torn [OF calm(1,2) ready_commit_new [OF rd2] fs calm(3) r2] before(2) ix by (simp add: length_entry_record)
  next
    case (torn c)
    then have "torn_at ?F doc c st2" by (intro torn2) (simp_all add: written_def)
    then show ?thesis using replay_torn [OF calm(1,2) ready_commit_new [OF rd2] fs calm(3) r2] torn(3) ix by simp
  next
    case in_index
    have "holds (committed_files ?F doc) st2" using fresh_holds [OF in_index(1) restart(1)] fresh_committed [of F n doc] restart(2) Fb by simp
    from replay_in_index [OF calm(1,2) rd2 calm(3) r2 this op(1)] show ?thesis using in_index(2) ix by simp
  qed
  then obtain st3 where st3: "applyCommitDocument J db' env' doc i st2 = (None, st3)" "holds (committed_files ?F doc) st3" "entries contents (shIndex st3) = committed_map ?M doc"
    by blast
  from committed_docs [OF rd2] obtain e where e: "committed_map ?M doc ?t = Some e"
      "tx_docs (committed_files ?F doc) ?t (BlockIDs e) = tx_docs ?F ?t (tx_blocks ?M ?t) @ [\<lparr>rdEntry = commit_entry doc, rdBlockID = cdBlockId doc\<rparr>]"
      "length (tx_docs ?F ?t (tx_blocks ?M ?t)) + 1 = unat (DocCount e)"
    by blast
  have "tx_docs ?F ?t (tx_blocks ?M ?t) = tx_docs F ?t (tx_blocks ?M ?t)" by (rule fresh_docs [of F, OF restart(2)])
  then show ?thesis using st3 e by auto
qed

text \<open>The first Document of a Transaction, committed to the open Block 1; the first write of its index record stops after two bytes.\<close>

definition sample_commit :: CommitDocument where
  "sample_commit = \<lparr>cdTransactionId = lit ''t1'', cdDocumentName = lit ''doc'', cdContentType = lit ''text'', cdIdempotencyKey = [], cdBlockId = 1, cdFirstFrameOff = 64,
     cdFrameCount = 1, cdTotalBytes = 3, cdSha256 = replicate 32 1, cdCreatedAtUs = 7, cdEncryptionEnvelope = [], cdProposalId = []\<rparr>"

definition calm_apply :: apply_env where
  "calm_apply = (let io = \<lparr>ioOpen = [], ioRepair = [], ioReopen = []\<rparr> in
     \<lparr>aeInspect = \<lambda>_. io, aeContains = io, aeAppend = [], aeStat = True, aeOpenlog = Some []\<rparr>)"

definition sample_shard :: "u64 \<Rightarrow> io_outcome list \<Rightarrow> (u64 \<rightharpoonup> bytes) \<Rightarrow> (bytes \<times> bytes) list shard" where
  "sample_shard b sched files =
     \<lparr>shOutbox = \<lparr>oxIndex = empty_index, oxDir = \<lparr>dfiles = Map.empty, dsched = []\<rparr>, oxLife = \<lparr>obligations = [], committedConfirmUploads = Map.empty\<rparr>\<rparr>,
      shIdxNil = False, shIdxFiles = files, shBlkFiles = Map.empty, shOpen = Some (b, \<lparr>fdata = idx_header_bytes, fpos = 12, fsched = sched\<rparr>),
      shOpenlog = \<lparr>dfiles = Map.empty, dsched = []\<rparr>, shUploadEnabled = False, shShardID = 1\<rparr>"

lemma sample_shard_facts:
  "holds [1 \<mapsto> []] (sample_shard 1 sched Map.empty)" "store_ok J map_of (shIndex (sample_shard b sched files))"
  "entries map_of (shIndex (sample_shard b sched files)) = Map.empty"
proof -
  show "holds [1 \<mapsto> []] (sample_shard 1 sched Map.empty)"
    by (auto simp: holds_def indexed_def idx_content_def sample_shard_def idx_file_bytes_def at_end_def)
  show e: "entries map_of (shIndex (sample_shard b sched files)) = Map.empty"
    by (auto simp: sample_shard_def empty_index_def entries_def tx_table.table_def)
  show "store_ok J map_of (shIndex (sample_shard b sched files))"
    by (auto simp: store_ok_def uploads_ok_def sample_shard_def empty_index_def outbox.rows_ok_def catalog.rows_ok_def)
qed

lemma sample_commit_ready: "commit_ready [1 \<mapsto> []] Map.empty sample_commit"
  by (simp add: ready_defs sample_commit_def commit_entry_def tx_entries_def entry_storable_def entry_typed_def int64_range_def stored_entry_def
      time_UnixMicro_def time_to_UnixMicro_def wrap64_def safeUint64ToInt64_def MaxInt64_def validateEntryFieldLens_def maxUint16_def
      encodeIndexEntry_def idxMaxEntryLen_def idxEntryVersion_def idxEntryVersionV2_def lit_def)

text \<open>What the fault leaves: an index that ends in two bytes of the record.\<close>

definition sample_torn :: "(bytes \<times> bytes) list shard" where
  "sample_torn = (sample_shard 1 [] Map.empty)\<lparr>shOpen := Some (1, \<lparr>fdata = idx_header_bytes @ take 2 (entry_record (commit_entry sample_commit)), fpos = 14, fsched = []\<rparr>)\<rparr>"

lemma sample_first_run:
  "applyCommitDocument plain_json mem_pebble calm_apply sample_commit 5 (sample_shard 1 [Fault 2] Map.empty) =
     (Some (CommitIndexFile (IdxOpenErr ErrIdxIO)), sample_torn)"
proof -
  have g: "Index_Get mem_pebble t empty_index = Inl ErrNotFound" for t by (simp add: Index_Get_def mem_pebble_def empty_index_def)
  have a: "IndexWriter_Append (commit_entry sample_commit) \<lparr>fdata = idx_header_bytes, fpos = 12, fsched = [Fault 2]\<rparr> =
      (Some ErrIdxIO, \<lparr>fdata = idx_header_bytes @ take 2 (entry_record (commit_entry sample_commit)), fpos = 14, fsched = []\<rparr>)"
    using sample_commit_ready
    by (auto simp: ready_defs entry_storable_def IndexWriter_Append_def Let_def file_Write_def next_outcome_def entry_record_def)
  show ?thesis
    using a g by (simp add: applyCommitDocument_def inspectCommitProjectionState_def commitProjectionEntry_def handleExistingCommitProjection_def
        preflightProjectionDocCount_def appendDocumentIndexEntry_def sample_shard_def sample_torn_def zero_state_def sample_commit_def)
qed

definition sample_after_restart :: "(bytes \<times> bytes) list shard" where
  "sample_after_restart = sample_shard 2 [] [1 \<mapsto> idx_header_bytes @ take 2 (entry_record (commit_entry sample_commit))]"

lemma sample_restarted: "restarted 2 sample_torn sample_after_restart"
  by (auto simp: restarted_def sample_torn_def sample_after_restart_def sample_shard_def idx_content_def idx_file_bytes_def at_end_def fun_eq_iff)

lemma sample_repairable: "repairable [1 \<mapsto> []] sample_commit sample_torn"
proof -
  have n: "2 < length (encodeIndexEntry (commit_entry sample_commit))" by (rule encodeIndexEntry_nonempty)
  have "length (the (idx_content sample_torn 1)) = 14"
    using n by (simp add: idx_content_def sample_torn_def length_entry_record)
  moreover have "length (the (written [1 \<mapsto> []] sample_commit c 1)) = 12 + min (8 + length (encodeIndexEntry (commit_entry sample_commit))) c" for c
    by (simp add: written_def sample_commit_def idx_file_bytes_def length_entry_record)
  ultimately show ?thesis using n unfolding repairable_def by fastforce
qed

theorem commit_applied_once_witness:
  "\<exists>st3. applyCommitDocument plain_json mem_pebble calm_apply sample_commit 5 sample_after_restart = (None, st3) \<and>
     holds (committed_files [1 \<mapsto> [], 2 \<mapsto> []] sample_commit) st3 \<and>
     entries map_of (shIndex st3) = [lit ''t1'' \<mapsto> \<lparr>BlockIDs = [1], DocCount = 1, Completed = False\<rparr>]"
proof -
  have "requeue_ok sample_commit 5 (sample_shard 1 [Fault 2] Map.empty)" by (simp add: requeue_ok_def sample_shard_def)
  moreover have "calm_env calm_apply" by (simp add: calm_env_def calm_apply_def calm_io_def Let_def)
  moreover have "committed_map Map.empty sample_commit = [lit ''t1'' \<mapsto> \<lparr>BlockIDs = [1], DocCount = 1, Completed = False\<rparr>]"
    by (simp add: committed_map_def sample_commit_def)
  moreover have "commit_ready [1 \<mapsto> []] (entries map_of (shIndex (sample_shard 1 [Fault 2] Map.empty))) sample_commit"
    using sample_commit_ready by (simp add: sample_shard_facts)
  ultimately show ?thesis
    using commit_applied_once [OF mem_pebble_ok sample_shard_facts(1,2) _ _ sample_first_run sample_repairable sample_restarted _ mem_pebble_ok mem_pebble_total, of calm_apply]
    by (auto simp: sample_shard_facts)
qed

end
