(* ===== verification/Shard_Commit_Serve.thy ===== *)
theory Shard_Commit_Serve
  imports Shard_Commit_Replay
begin

text \<open>
  What a reader sees after a commit: \<open>applyCommitDocument\<close> of \<open>internal/shard/projection.go\<close> followed by
  \<open>ListDocuments\<close> and \<open>ResolveDocument\<close> of \<open>internal/index/resolution.go\<close> on the same Shard.
\<close>

section \<open>Reading the Shard\<close>

definition projectionResolver :: "'s shard \<Rightarrow> 's Resolver" where
  "projectionResolver st = \<lparr>projection = if shIdxNil st then None else Some (shIndex st), blockIndexPath = Some (idx_content st)\<rparr>"

text \<open>Every Block the Projection names for the Transaction holds a Document of it.\<close>

definition blocks_used :: "(u64 \<rightharpoonup> IndexEntry list) \<Rightarrow> (bytes \<rightharpoonup> Entry) \<Rightarrow> bytes \<Rightarrow> bool" where
  "blocks_used F M t \<longleftrightarrow> (\<forall>b \<in> set (tx_blocks M t). tx_entries F t b \<noteq> [])"

lemma ListDocuments_holds:
  assumes "pebble_ok contents db" "pebble_total db" and "holds F st" and "entries contents (shIndex st) t = Some e"
    and "BlockIDs e \<noteq> []" and "\<forall>b \<in> set (BlockIDs e). tx_entries F t b \<noteq> []" and "\<not> shIdxNil st"
  shows "ListDocuments db (projectionResolver st) (\<lambda>_. []) t =
    (if length (tx_docs F t (BlockIDs e)) = unat (DocCount e) then Inr (tx_docs F t (BlockIDs e))
     else Inl (ErrCorrupt (DocCountMismatch (DocCount e) (length (tx_docs F t (BlockIDs e))))))"
proof -
  have "indexed (idx_content st) F" using assms(3) by (simp add: holds_def)
  then have "list_blocks (projectionResolver st) (\<lambda>_. []) t 0 (BlockIDs e) = Inr (tx_docs F t (BlockIDs e))"
    using assms(6) by (intro list_blocks_total) (simp_all add: projectionResolver_def)
  moreover have "Index_Get db t (shIndex st) = Inr e" by (rule Index_Get_total [OF assms(1,2,4)])
  ultimately show ?thesis using assms(5,7) by (simp add: ListDocuments_def transactionEntry_def projectionResolver_def)
qed

lemma apply_live:
  assumes "pebble_ok contents db" and "holds F st" and "commit_new F (entries contents (shIndex st)) doc"
    and "applyCommitDocument J db env doc i st = (None, st1)"
  shows "\<not> shIdxNil st" "\<not> shIdxNil st1"
proof -
  show "\<not> shIdxNil st"
    using assms(4) by (auto simp: applyCommitDocument_def inspectCommitProjectionState_def commitProjectionEntry_def split: if_splits)
  then show "\<not> shIdxNil st1" using apply_keeps_files [OF assms] by simp
qed

lemma committed_used:
  assumes "commit_new F M doc" and "blocks_used F M (cdTransactionId doc)" and "committed_map M doc (cdTransactionId doc) = Some e"
  shows "BlockIDs e \<noteq> [] \<and> (\<forall>b \<in> set (BlockIDs e). tx_entries (committed_files F doc) (cdTransactionId doc) b \<noteq> [])"
proof -
  have Fb: "F (cdBlockId doc) \<noteq> None" using assms(1) by (simp add: commit_new_def)
  have own: "tx_entries (committed_files F doc) (cdTransactionId doc) b \<noteq> []" if "b = cdBlockId doc \<or> b \<in> set (tx_blocks M (cdTransactionId doc))" for b
    using that assms(2) tx_entries_committed(1) [of b doc F "cdTransactionId doc"] tx_entries_committed(2) [of F doc, OF Fb] by (cases "b = cdBlockId doc") (auto simp: blocks_used_def)
  have "set (BlockIDs e) \<subseteq> insert (cdBlockId doc) (set (tx_blocks M (cdTransactionId doc))) \<and> BlockIDs e \<noteq> []"
    using assms(3) by (auto simp: committed_map_def listed_entry_def tx_blocks_def split: option.splits if_splits)
  then show ?thesis using own by blast
qed

lemma tx_docs_grow:
  assumes "F (cdBlockId doc) \<noteq> None" and "cdBlockId doc \<in> set ids"
  shows "length (tx_docs F (cdTransactionId doc) ids) < length (tx_docs (committed_files F doc) (cdTransactionId doc) ids)"
proof -
  have le: "length (tx_docs F (cdTransactionId doc) xs) \<le> length (tx_docs (committed_files F doc) (cdTransactionId doc) xs)" for xs
  proof (induction xs)
    case (Cons b xs)
    then show ?case using tx_entries_committed(1) [of b doc F "cdTransactionId doc"] tx_entries_committed(2) [of F doc, OF assms(1)]
      by (cases "b = cdBlockId doc") auto
  qed simp
  obtain xs ys where "ids = xs @ cdBlockId doc # ys" using split_list [OF assms(2)] by blast
  then show ?thesis using le [of xs] le [of ys] tx_entries_committed(2) [of F doc, OF assms(1)] by simp
qed

lemma find_last: "\<forall>d \<in> set ds. \<not> P d \<Longrightarrow> P x \<Longrightarrow> find P (ds @ [x]) = Some x"
  by (induction ds) simp_all

section \<open>Properties\<close>

text \<open>
  C6: a Document is served once its commit has been applied. Under any faults of the apply, if it
  reports success, then a fault-free listing of the Transaction returns the Documents it had, followed
  by the new one, and resolving the Document by its name returns exactly the committed entry.
\<close>

theorem committed_document_served:
  assumes pb: "pebble_ok contents db" and st: "holds F st" and rd: "commit_ready F (entries contents (shIndex st)) doc"
    and used: "blocks_used F (entries contents (shIndex st)) (cdTransactionId doc)"
    and run: "applyCommitDocument J db env doc i st = (None, st1)" and calm: "pebble_ok contents db'" "pebble_total db'"
  shows "ListDocuments db' (projectionResolver st1) (\<lambda>_. []) (cdTransactionId doc) =
      Inr (tx_docs F (cdTransactionId doc) (tx_blocks (entries contents (shIndex st)) (cdTransactionId doc)) @ [\<lparr>rdEntry = commit_entry doc, rdBlockID = cdBlockId doc\<rparr>]) \<and>
    ResolveDocument db' (projectionResolver st1) (\<lambda>_. []) (cdTransactionId doc) (cdDocumentName doc) = Inr \<lparr>rdEntry = commit_entry doc, rdBlockID = cdBlockId doc\<rparr>"
proof -
  let ?M = "entries contents (shIndex st)" and ?t = "cdTransactionId doc" and ?E = "\<lparr>rdEntry = commit_entry doc, rdBlockID = cdBlockId doc\<rparr>"
  note new = ready_commit_new [OF rd]
  have h: "holds (committed_files F doc) st1" "entries contents (shIndex st1) = committed_map ?M doc"
    using apply_phase [OF pb st refl new run] by simp_all
  obtain e where e: "committed_map ?M doc ?t = Some e" "tx_docs (committed_files F doc) ?t (BlockIDs e) = tx_docs F ?t (tx_blocks ?M ?t) @ [?E]"
      "length (tx_docs F ?t (tx_blocks ?M ?t)) + 1 = unat (DocCount e)"
    using committed_docs [OF rd] by blast
  have l: "ListDocuments db' (projectionResolver st1) (\<lambda>_. []) ?t = Inr (tx_docs F ?t (tx_blocks ?M ?t) @ [?E])"
    using ListDocuments_holds [OF calm h(1), of ?t e] apply_live [OF pb st new run] h(2) e committed_used [OF new used e(1)] by simp
  have "\<forall>d \<in> set (tx_docs F ?t (tx_blocks ?M ?t)). DocName (rdEntry d) \<noteq> cdDocumentName doc"
    using new by (auto simp: commit_new_def tx_blocks_def split: option.splits)
  then have "find (\<lambda>d. DocName (rdEntry d) = cdDocumentName doc) (tx_docs F ?t (tx_blocks ?M ?t) @ [?E]) = Some ?E"
    by (intro find_last) (simp_all add: commit_entry_def)
  then show ?thesis using l by (simp add: ResolveDocument_def)
qed

text \<open>
  C24: the apply of a commit keeps the types of what is stored. Whatever fails, every row of the Projection
  still decodes: the Transactions, the pending uploads and the confirmed uploads. Every index file is
  what it was, except that the Block of the Document ends in the first \<open>c\<close> bytes of its record.
\<close>

theorem commit_keeps_rows_typed:
  assumes "pebble_ok contents db" and "holds F st" and "commit_new F (entries contents (shIndex st)) doc"
    and "requeue_ok doc i st" and "store_ok J contents (shIndex st)" and "applyCommitDocument J db env doc i st = (err, st1)"
  shows "store_ok J contents (shIndex st1) \<and> (\<exists>c \<le> length (entry_record (commit_entry doc)). idx_content st1 = written F doc c)"
proof -
  have ph: "commit_phase contents F (entries contents (shIndex st)) doc st1" using apply_phase [OF assms(1,2) refl assms(3,6)] by simp
  have Fb: "F (cdBlockId doc) \<noteq> None" using assms(3) by (simp add: commit_new_def)
  have "\<exists>c \<le> length (entry_record (commit_entry doc)). idx_content st1 = written F doc c" using ph
  proof cases
    case before
    have "idx_content st1 = written F doc 0" using holds_content [OF before(1)] Fb by (auto simp: written_def fun_eq_iff)
    then show ?thesis by blast
  next
    case (torn c)
    then show ?thesis by (auto simp: written_def intro!: exI [of _ c])
  next
    case in_index
    have "idx_content st1 = written F doc (length (entry_record (commit_entry doc)))"
      using holds_content [OF in_index(1)] Fb by (auto simp: written_def committed_files_def idx_file_bytes_def fun_eq_iff)
    then show ?thesis by blast
  qed
  then show ?thesis using apply_store [OF assms(1,2) refl assms(3,4,5,6)] by simp
qed


text \<open>Block 2 is open; the Document goes to Block 1, which an earlier leader wrote.\<close>

definition sample_first_shard :: "(bytes \<times> bytes) list shard" where
  "sample_first_shard = sample_shard 2 [] [1 \<mapsto> idx_header_bytes]"

lemma calm_apply_calm: "calm_env calm_apply"
  by (simp add: calm_env_def calm_apply_def calm_io_def Let_def)

theorem committed_document_served_witness:
  "\<exists>st1. applyCommitDocument plain_json mem_pebble calm_apply sample_commit 5 sample_first_shard = (None, st1) \<and>
     ListDocuments mem_pebble (projectionResolver st1) (\<lambda>_. []) (lit ''t1'') = Inr [\<lparr>rdEntry = commit_entry sample_commit, rdBlockID = 1\<rparr>] \<and>
     ResolveDocument mem_pebble (projectionResolver st1) (\<lambda>_. []) (lit ''t1'') (lit ''doc'') = Inr \<lparr>rdEntry = commit_entry sample_commit, rdBlockID = 1\<rparr>"
proof -
  let ?F = "[1 \<mapsto> [], 2 \<mapsto> []]"
  have M: "entries map_of (shIndex sample_first_shard) = Map.empty" and ok: "store_ok plain_json map_of (shIndex sample_first_shard)"
    by (simp_all add: sample_first_shard_def sample_shard_facts)
  have h: "holds ?F sample_first_shard"
    by (auto simp: holds_def indexed_def idx_content_def sample_first_shard_def sample_shard_def idx_file_bytes_def at_end_def split: if_splits)
  have rd: "commit_ready ?F Map.empty sample_commit" by (rule fresh_ready [OF _ sample_commit_ready]) simp
  have t: "cdTransactionId sample_commit = lit ''t1''" "cdDocumentName sample_commit = lit ''doc''" "cdBlockId sample_commit = 1" by (simp_all add: sample_commit_def)
  have "torn_at ?F sample_commit 0 sample_first_shard" using holds_content [OF h]
    by (auto simp: torn_at_def written_def length_entry_record fun_eq_iff sample_first_shard_def sample_shard_def at_end_def t)
  moreover have "replayable plain_json map_of sample_commit 5 sample_first_shard"
    using ok by (simp add: replayable_def requeue_ok_def sample_first_shard_def sample_shard_def)
  ultimately obtain st1 where st1: "applyCommitDocument plain_json mem_pebble calm_apply sample_commit 5 sample_first_shard = (None, st1)"
    using replay_torn [OF mem_pebble_ok mem_pebble_total ready_commit_new [OF rd] holds_files [OF h] calm_apply_calm _ _ M] by blast
  have "blocks_used ?F Map.empty (lit ''t1'')" by (simp add: blocks_used_def tx_blocks_def)
  then show ?thesis
    using committed_document_served [OF mem_pebble_ok h _ _ st1 mem_pebble_ok mem_pebble_total] rd st1 by (simp add: M t tx_blocks_def)
qed

theorem commit_keeps_rows_typed_witness:
  "store_ok plain_json map_of (shIndex sample_torn) \<and> (\<exists>c. idx_content sample_torn = written [1 \<mapsto> []] sample_commit c)"
proof -
  have "requeue_ok sample_commit 5 (sample_shard 1 [Fault 2] Map.empty)" by (simp add: requeue_ok_def sample_shard_def)
  moreover have "commit_new [1 \<mapsto> []] (entries map_of (shIndex (sample_shard 1 [Fault 2] Map.empty))) sample_commit"
    using ready_commit_new [OF sample_commit_ready] by (simp add: sample_shard_facts)
  ultimately show ?thesis
    using commit_keeps_rows_typed [OF mem_pebble_ok sample_shard_facts(1) _ _ sample_shard_facts(2) sample_first_run] by blast
qed

text \<open>The Transaction \<open>t1\<close> with a Document in Block 7 and one in Block 8; the next Document goes to Block 7.\<close>

definition two_block_entry :: Entry where
  "two_block_entry = \<lparr>BlockIDs = [7, 8], DocCount = 2, Completed = False\<rparr>"

definition two_block_files :: "u64 \<rightharpoonup> IndexEntry list" where
  "two_block_files = [2 \<mapsto> [], 7 \<mapsto> [sample_tx_entry (lit ''a'')], 8 \<mapsto> [sample_tx_entry (lit ''b'')]]"

definition two_block_shard :: "(bytes \<times> bytes) list shard" where
  "two_block_shard = with_index (snd (Index_put mem_pebble (lit ''t1'') two_block_entry empty_index)) (sample_shard 2 [] (map_option idx_file_bytes \<circ> two_block_files))"

lemma two_block_facts:
  "holds two_block_files two_block_shard" "entries map_of (shIndex two_block_shard) = [lit ''t1'' \<mapsto> two_block_entry]"
  "store_ok plain_json map_of (shIndex two_block_shard)" "commit_new two_block_files [lit ''t1'' \<mapsto> two_block_entry] (sample_commit\<lparr>cdBlockId := 7\<rparr>)"
proof -
  show "holds two_block_files two_block_shard"
    using sample_tx_entry_storable
    by (auto simp: holds_def indexed_def idx_content_def two_block_shard_def with_index_def sample_shard_def two_block_files_def idx_file_bytes_def at_end_def lit_def split: if_splits)
  have p: "Index_put mem_pebble (lit ''t1'') two_block_entry empty_index = (None, shIndex two_block_shard)"
    by (simp add: two_block_shard_def with_index_def Index_put_def mem_pebble_def)
  have e: "entries map_of empty_index = Map.empty" and s: "store_ok plain_json map_of empty_index"
    using sample_shard_facts(2) [of plain_json 1 "[]" Map.empty] sample_shard_facts(3) [of 1 "[]" Map.empty] by (simp_all add: sample_shard_def)
  show "entries map_of (shIndex two_block_shard) = [lit ''t1'' \<mapsto> two_block_entry]"
    using Index_put_entries [OF mem_pebble_ok p] e by (simp add: two_block_entry_def)
  have "map_of (idxdb (shIndex two_block_shard)) = (map_of (idxdb empty_index))(txKey (lit ''t1'') \<mapsto> encodeEntry two_block_entry)"
    by (simp add: two_block_shard_def with_index_def Index_put_def mem_pebble_def empty_index_def fun_eq_iff)
  then show "store_ok plain_json map_of (shIndex two_block_shard)"
    by (rule tx_write_store [OF s]) (simp add: two_block_entry_def)
  have "commit_entry (sample_commit\<lparr>cdBlockId := 7\<rparr>) = commit_entry sample_commit" by (simp add: commit_entry_def)
  then show "commit_new two_block_files [lit ''t1'' \<mapsto> two_block_entry] (sample_commit\<lparr>cdBlockId := 7\<rparr>)"
    using sample_commit_ready
    by (auto simp: ready_defs two_block_files_def two_block_entry_def tx_entries_def tx_blocks_def sample_tx_entry_def sample_commit_def lit_def split: if_splits)
qed


end
