(* ===== verification/Shard_Seal.thy ===== *)
theory Shard_Seal
  imports Shard_Outbox Block_Document
begin

text \<open>
  Sealing a Block: \<open>internal/shard/seal_intent.go\<close>, the Block rotation of \<open>blockfiles.go\<close> and the handlers
  of committed seal and confirm commands in \<open>upload.go\<close>. Before a Block is closed its seal intent is
  written; after a restart every closed Block that is neither in the outbox nor confirmed becomes an
  obligation again. The state is the upload outbox with the Blocks directory, the open Block and
  the next Block id.
\<close>

section \<open>Seal intents\<close>

definition sealIntentVersion :: int where "sealIntentVersion = 1"

definition sealIntentSuffix :: bytes where "sealIntentSuffix = lit ''.seal-intent.json''"

definition sealIntentPath :: "u64 \<Rightarrow> bytes" where
  "sealIntentPath blockID = hex16 blockID @ sealIntentSuffix"

record 's sealer =
  slOutbox :: "'s outbox"
  slOpen :: "u64 option"
  slOffset :: int
  slNextBlockID :: u64
  slEnabled :: bool
  slShardID :: u64

abbreviation slDir :: "'s sealer \<Rightarrow> blocks_dir" where "slDir s \<equiv> oxDir (slOutbox s)"

definition with_dir :: "blocks_dir \<Rightarrow> 's sealer \<Rightarrow> 's sealer" where
  "with_dir d s = s\<lparr>slOutbox := (slOutbox s)\<lparr>oxDir := d\<rparr>\<rparr>"

definition writeSealIntentLocked :: "bytes \<Rightarrow> int \<Rightarrow> u64 \<Rightarrow> int \<Rightarrow> 's sealer \<Rightarrow> marker_err option \<times> 's sealer" where
  "writeSealIntentLocked rnd now blockID sealedSize s =
     (let intent = \<lparr>siVersion = sealIntentVersion, siBlockID = blockID, siShardID = slShardID s, siSealedSizeBytes = sealedSize,
                    siSealedAtUs = time_to_UnixMicro now\<rparr> in
      case WriteJSONMarker rnd (sealIntentPath blockID) (SealIntentFile intent) (slDir s) of (e, d) \<Rightarrow> (e, with_dir d s))"

fun intent_of :: "fcontent \<Rightarrow> sealIntent option" where
  "intent_of (SealIntentFile i) = Some i"
| "intent_of _ = None"

datatype intent_err = IntentMarker marker_err | IntentVersion | IntentBlockMismatch

definition readSealIntent :: "u64 \<Rightarrow> blocks_dir \<Rightarrow> (intent_err + sealIntent) \<times> blocks_dir" where
  "readSealIntent blockID d =
     (case ReadJSONMarker intent_of (sealIntentPath blockID) d of
        (Inl e, d1) \<Rightarrow> (Inl (IntentMarker e), d1)
      | (Inr intent, d1) \<Rightarrow>
          (if siVersion intent \<noteq> sealIntentVersion then Inl IntentVersion
           else if siBlockID intent \<noteq> blockID then Inl IntentBlockMismatch else Inr intent, d1))"

definition removeSealIntent :: "u64 \<Rightarrow> blocks_dir \<Rightarrow> bool \<times> blocks_dir" where
  "removeSealIntent blockID d = (case os_Remove (sealIntentPath blockID) d of (r, d1) \<Rightarrow> (r \<noteq> RemoveError, d1))"

definition sealIntentPendingUpload :: "sealIntent \<Rightarrow> PendingUpload" where
  "sealIntentPendingUpload i =
     \<lparr>puBlockID = siBlockID i, puShardID = siShardID i, puSealedSizeBytes = siSealedSizeBytes i, puSealedAtUs = siSealedAtUs i, puUploadGeneration = 0\<rparr>"

section \<open>Block ids in file names\<close>

definition lifecycleSuffixes :: "bytes list" where
  "lifecycleSuffixes =
     [blkSuffix, idxSuffix, evictionSuffix, restoreSuffix, blkSuffix @ QuarantineSuffix, idxSuffix @ QuarantineSuffix, authoritySuffix, sealIntentSuffix]"

text \<open>\<open>blockIDFromLocalLifecycleName\<close>: \<open>Inl\<close> for a name with a suffix but no number.\<close>

definition blockIDFromLocalLifecycleName :: "bytes \<Rightarrow> unit + u64 option" where
  "blockIDFromLocalLifecycleName name =
     (case find (HasSuffix name) lifecycleSuffixes of
        None \<Rightarrow> Inr None
      | Some sfx \<Rightarrow> (case ParseUint16 (TrimSuffix name sfx) of None \<Rightarrow> Inl () | Some blockID \<Rightarrow> Inr (Some blockID)))"

datatype dir_listing = DirMissing | DirUnreadable | DirNames "bytes list"

datatype scan_ids_err = ScanReadDir | ScanMalformed bytes

fun max_block_id :: "u64 \<Rightarrow> bytes list \<Rightarrow> scan_ids_err + u64" where
  "max_block_id m [] = Inr m"
| "max_block_id m (name # names) =
     (case blockIDFromLocalLifecycleName name of
        Inl _ \<Rightarrow> Inl (ScanMalformed name)
      | Inr None \<Rightarrow> max_block_id m names
      | Inr (Some blockID) \<Rightarrow> max_block_id (if m < blockID then blockID else m) names)"

definition scanMaxBlockID :: "dir_listing \<Rightarrow> scan_ids_err + u64" where
  "scanMaxBlockID listing =
     (case listing of DirMissing \<Rightarrow> Inr 1
      | DirUnreadable \<Rightarrow> Inl ScanReadDir
      | DirNames names \<Rightarrow> (case max_block_id 0 names of Inl e \<Rightarrow> Inl e | Inr m \<Rightarrow> Inr (m + 1)))"

section \<open>Rotation\<close>

text \<open>
  Creating a file, truncating one that exists, and writing its header. \<open>torn\<close> is what an interrupted
  write leaves.
\<close>

definition create_file :: "bytes \<Rightarrow> bytes \<Rightarrow> bytes \<Rightarrow> blocks_dir \<Rightarrow> bool \<times> blocks_dir" where
  "create_file torn name content d =
     (case next_ok d of (created, d1) \<Rightarrow>
        if \<not> created then (False, d1)
        else case next_ok d1 of (wrote, d2) \<Rightarrow> (wrote, d2\<lparr>dfiles := (dfiles d2)(name \<mapsto> Raw (if wrote then content else torn))\<rparr>))"

record rotate_env =
  roRnd :: bytes
  roNow :: int
  roTornBlk :: bytes
  roTornIdx :: bytes
  roRejected :: bool
  roRetryDelay :: int

datatype seal_err =
    SealIntentErr marker_err
  | SealCloseIndex
  | SealCloseBlock
  | SealOpenBlock
  | SealPressure upload_err
  | SealOutbox outbox_err
  | SealRejected

definition openNewBlock :: "rotate_env \<Rightarrow> 's sealer \<Rightarrow> bool \<times> 's sealer" where
  "openNewBlock env s =
     (let blockID = slNextBlockID s; s0 = s\<lparr>slNextBlockID := blockID + 1\<rparr> in
      case create_file (roTornBlk env) (FilePath blockID) (block_header_bytes (slShardID s) blockID (of_int (time_to_UnixMicro (roNow env)))) (slDir s) of (ok1, d1) \<Rightarrow>
        if \<not> ok1 then (False, with_dir d1 s0)
        else case create_file (roTornIdx env) (IdxFilePath blockID) idx_header_bytes d1 of (ok2, d2) \<Rightarrow>
          if \<not> ok2 then (False, with_dir d2 s0)
          else case next_ok d2 of (ok3, d3) \<Rightarrow> if \<not> ok3 then (False, with_dir d3 s0)
          else case next_ok d3 of (ok4, d4) \<Rightarrow> case next_ok d4 of (ok5, d5) \<Rightarrow>
            if \<not> (ok4 \<and> ok5) then (False, with_dir d5 s0)
            else (True, (with_dir d5 s0)\<lparr>slOpen := Some blockID, slOffset := int HeaderSize\<rparr>))"

text \<open>Closing the index and the Block of the open Block, then opening the next one.\<close>

definition rotate :: "rotate_env \<Rightarrow> 's sealer \<Rightarrow> seal_err option \<times> 's sealer" where
  "rotate env s =
     (case next_ok (slDir s) of (ok1, d1) \<Rightarrow>
        if \<not> ok1 then (Some SealCloseIndex, with_dir d1 s)
        else case next_ok d1 of (ok2, d2) \<Rightarrow>
          if \<not> ok2 then (Some SealCloseBlock, with_dir d2 s)
          else case openNewBlock env (with_dir d2 s) of (ok3, s3) \<Rightarrow> (if ok3 then None else Some SealOpenBlock, s3))"

text \<open>
  \<open>sealAndOpenNew\<close> for the open Block \<open>blockID\<close>; the third component are the seals it proposes once the
  mutex is released.
\<close>

definition sealAndOpenNew :: "'s pebble \<Rightarrow> rotate_env \<Rightarrow> u64 \<Rightarrow> 's sealer \<Rightarrow> seal_err option \<times> 's sealer \<times> PendingUpload list" where
  "sealAndOpenNew db env blockID s =
     (let sealedSize = slOffset s in
      case (if slEnabled s then writeSealIntentLocked (roRnd env) (roNow env) blockID sealedSize s else (None, s)) of
        (Some e, s1) \<Rightarrow> (Some (SealIntentErr e), s1, [])
      | (None, s1) \<Rightarrow>
          (case rotate env s1 of
             (Some e, s2) \<Rightarrow> (Some e, s2, [])
           | (None, s2) \<Rightarrow>
               (let seal = \<lparr>puBlockID = blockID, puShardID = slShardID s, puSealedSizeBytes = sealedSize, puSealedAtUs = time_to_UnixMicro (roNow env), puUploadGeneration = 0\<rparr>;
                    s3 = (if slEnabled s then s2\<lparr>slOutbox := RecordBlockSealed (blockSealedEventFromPending seal) (slOutbox s2)\<rparr> else s2) in
                case (if slEnabled s then refreshPressure db (slOutbox s3) else Inr \<lparr>pendingBytes = 0, pendingBlocks = 0\<rparr>) of
                  Inl e \<Rightarrow> (Some (SealPressure e), s3, [])
                | Inr _ \<Rightarrow>
                    (case beginRetry (roNow env) (roNow env + roRetryDelay env) (obligations (oxLife (slOutbox s3))) of (seals, obs) \<Rightarrow>
                       (if roRejected env then Some SealRejected else None,
                        s3\<lparr>slOutbox := (slOutbox s3)\<lparr>oxLife := (oxLife (slOutbox s3))\<lparr>obligations := obs\<rparr>\<rparr>\<rparr>, seals)))))"

section \<open>Committed commands\<close>

definition closeConfirmedOpenBlockLocked :: "rotate_env \<Rightarrow> u64 \<Rightarrow> 's sealer \<Rightarrow> seal_err option \<times> 's sealer" where
  "closeConfirmedOpenBlockLocked env blockID s = (if slOpen s \<noteq> Some blockID then (None, s) else rotate env s)"

definition refresh :: "'s pebble \<Rightarrow> 's sealer \<Rightarrow> seal_err option \<times> 's sealer" where
  "refresh db s = (case refreshPressure db (slOutbox s) of Inl e \<Rightarrow> (Some (SealPressure e), s) | Inr _ \<Rightarrow> (None, s))"

definition applySealBlock :: "'s pebble \<Rightarrow> rotate_env \<Rightarrow> SealBlock \<Rightarrow> 's sealer \<Rightarrow> seal_err option \<times> 's sealer" where
  "applySealBlock db env seal s =
     (case ApplyBlockSealed db (blockSealedEventFromCommand seal) (slOutbox s) of
        (Some e, o1) \<Rightarrow> (Some (SealOutbox e), s\<lparr>slOutbox := o1\<rparr>)
      | (None, o1) \<Rightarrow>
          (let s1 = with_dir (snd (removeSealIntent (sbBlockId seal) (oxDir o1))) (s\<lparr>slOutbox := o1\<rparr>) in
           case (if slOpen s1 = Some (sbBlockId seal) then rotate env s1 else (None, s1)) of
             (Some e, s2) \<Rightarrow> (Some e, s2)
           | (None, s2) \<Rightarrow> refresh db s2))"

fun isUnsafeConfirmUploadApplyError :: "outbox_err \<Rightarrow> bool" where
  "isUnsafeConfirmUploadApplyError (OutboxErr e) = (e = ErrPendingUploadNotFound)"
| "isUnsafeConfirmUploadApplyError (MissingSealedMetadata e) = (e = ErrPendingUploadNotFound)"
| "isUnsafeConfirmUploadApplyError ErrConfirmUploadSealedMetadataMismatch = True"
| "isUnsafeConfirmUploadApplyError _ = False"

definition skipUnsafeConfirmUploadLocked :: "'s pebble \<Rightarrow> rotate_env \<Rightarrow> u64 \<Rightarrow> 's sealer \<Rightarrow> seal_err option \<times> 's sealer" where
  "skipUnsafeConfirmUploadLocked db env blockID s =
     (case closeConfirmedOpenBlockLocked env blockID s of
        (Some e, s1) \<Rightarrow> (Some e, s1)
      | (None, s1) \<Rightarrow>
          (case DeletePendingUpload db blockID (oxIndex (slOutbox s1)) of
             (Some e, ix) \<Rightarrow> (Some (SealOutbox (OutboxErr e)), s1\<lparr>slOutbox := (slOutbox s1)\<lparr>oxIndex := ix\<rparr>\<rparr>)
           | (None, ix) \<Rightarrow> refresh db (s1\<lparr>slOutbox := forgetUploadObligation blockID ((slOutbox s1)\<lparr>oxIndex := ix\<rparr>)\<rparr>)))"

definition applyConfirmUpload :: "record_json \<Rightarrow> 's pebble \<Rightarrow> rotate_env \<Rightarrow> ConfirmUpload \<Rightarrow> 's sealer \<Rightarrow> seal_err option \<times> 's sealer" where
  "applyConfirmUpload J db env confirm s =
     (case ApplyUploadConfirmed J db (roRnd env) (uploadConfirmedEventFromCommand confirm) (slOutbox s) of
        (Inl e, o1) \<Rightarrow>
          (let s1 = s\<lparr>slOutbox := o1\<rparr> in
           if e = ErrConfirmUploadGenerationMismatch then refresh db s1
           else if isUnsafeConfirmUploadApplyError e then skipUnsafeConfirmUploadLocked db env (cfBlockId confirm) s1
           else (Some (SealOutbox e), s1))
      | (Inr _, o1) \<Rightarrow>
          (case closeConfirmedOpenBlockLocked env (cfBlockId confirm) (s\<lparr>slOutbox := o1\<rparr>) of
             (Some e, s1) \<Rightarrow> (Some e, s1)
           | (None, s1) \<Rightarrow> refresh db s1))"

section \<open>Reconciliation\<close>

datatype reconcile_err =
    ReconcileReadDir
  | ReconcileConfirmed u64 upload_err
  | ReconcilePending u64 upload_err
  | ReconcileIntent u64 intent_err
  | ReconcileStatBlock u64
  | ReconcileStatIndex u64
  | ReconcilePressure upload_err

text \<open>\<open>info.Size()\<close> of a Block file; \<open>mtime\<close> below is its modification time.\<close>

fun file_size :: "fcontent \<Rightarrow> int" where
  "file_size (Raw bs) = int (length bs)"
| "file_size _ = 0"

definition recorded :: "PendingUpload \<Rightarrow> 's sealer \<Rightarrow> 's sealer" where
  "recorded u s = s\<lparr>slOutbox := RecordBlockSealed (blockSealedEventFromPending u) (slOutbox s)\<rparr>"

text \<open>The part of \<open>reconcileClosedBlockLocked\<close> after the seal intent was found missing.\<close>

definition reconcile_files :: "(u64 \<Rightarrow> int) \<Rightarrow> u64 \<Rightarrow> 's sealer \<Rightarrow> reconcile_err option \<times> 's sealer" where
  "reconcile_files mtime blockID s =
     (case os_Stat (FilePath blockID) (slDir s) of (blk, d1) \<Rightarrow>
        if blk = StatNotExist then (None, with_dir d1 s)
        else if blk = StatError then (Some (ReconcileStatBlock blockID), with_dir d1 s)
        else case os_Stat (IdxFilePath blockID) d1 of (idx, d2) \<Rightarrow>
          if idx = StatNotExist then (None, with_dir d2 s)
          else if idx = StatError then (Some (ReconcileStatIndex blockID), with_dir d2 s)
          else (None, recorded \<lparr>puBlockID = blockID, puShardID = slShardID s, puSealedSizeBytes = file_size (the (dfiles d1 (FilePath blockID))),
                                puSealedAtUs = mtime blockID, puUploadGeneration = 0\<rparr> (with_dir d2 s)))"

definition reconcileClosedBlockLocked ::
  "record_json \<Rightarrow> 's pebble \<Rightarrow> (u64 \<Rightarrow> int) \<Rightarrow> u64 \<Rightarrow> 's sealer \<Rightarrow> reconcile_err option \<times> 's sealer" where
  "reconcileClosedBlockLocked J db mtime blockID s =
     (case GetConfirmedUpload J db blockID (oxIndex (slOutbox s)) of
        Inr _ \<Rightarrow> (None, with_dir (snd (removeSealIntent blockID (slDir s))) s)
      | Inl ce \<Rightarrow>
          if ce \<noteq> ErrConfirmedUploadNotFound then (Some (ReconcileConfirmed blockID ce), s)
          else case GetPendingUpload db blockID (oxIndex (slOutbox s)) of
            Inr _ \<Rightarrow> (None, s)
          | Inl pe \<Rightarrow>
              if pe \<noteq> ErrPendingUploadNotFound then (Some (ReconcilePending blockID pe), s)
              else case readSealIntent blockID (slDir s) of
                (Inr intent, d) \<Rightarrow> (None, recorded (sealIntentPendingUpload intent) (with_dir d s))
              | (Inl e, d) \<Rightarrow>
                  if e = IntentMarker MarkerNotExist then reconcile_files mtime blockID (with_dir d s)
                  else case os_Stat (sealIntentPath blockID) d of (stat, d1) \<Rightarrow>
                    if stat \<noteq> StatNotExist then (Some (ReconcileIntent blockID e), with_dir d1 s)
                    else reconcile_files mtime blockID (with_dir d1 s))"

fun reconcile_names ::
  "record_json \<Rightarrow> 's pebble \<Rightarrow> (u64 \<Rightarrow> int) \<Rightarrow> u64 set \<Rightarrow> bytes list \<Rightarrow> 's sealer \<Rightarrow> reconcile_err option \<times> 's sealer" where
  "reconcile_names J db mtime seen [] s = (None, s)"
| "reconcile_names J db mtime seen (name # names) s =
     (case blockIDFromLocalLifecycleName name of
        Inr (Some blockID) \<Rightarrow>
          if blockID \<in> seen then reconcile_names J db mtime seen names s
          else if (case slOpen s of None \<Rightarrow> False | Some openID \<Rightarrow> openID \<noteq> 0 \<and> openID \<le> blockID) then reconcile_names J db mtime (insert blockID seen) names s
          else (case reconcileClosedBlockLocked J db mtime blockID s of
                  (Some e, s1) \<Rightarrow> (Some e, s1)
                | (None, s1) \<Rightarrow> reconcile_names J db mtime (insert blockID seen) names s1)
      | _ \<Rightarrow> reconcile_names J db mtime seen names s)"

definition reconcileClosedBlocksIntoUploadOutboxLocked ::
  "record_json \<Rightarrow> 's pebble \<Rightarrow> (u64 \<Rightarrow> int) \<Rightarrow> bytes list option \<Rightarrow> 's sealer \<Rightarrow> reconcile_err option \<times> 's sealer" where
  "reconcileClosedBlocksIntoUploadOutboxLocked J db mtime listing s =
     (if \<not> slEnabled s then (None, s)
      else case listing of None \<Rightarrow> (Some ReconcileReadDir, s)
      | Some names \<Rightarrow>
          (case reconcile_names J db mtime {} names s of
             (Some e, s1) \<Rightarrow> (Some e, s1)
           | (None, s1) \<Rightarrow> (case refreshPressure db (slOutbox s1) of Inl e \<Rightarrow> (Some (ReconcilePressure e), s1) | Inr _ \<Rightarrow> (None, s1))))"

section \<open>Names of Block files\<close>

lemma suffix_ends: "HasSuffix (x @ s) t \<Longrightarrow> prefix (rev t) (rev s) \<or> prefix (rev s) (rev t)"
proof -
  assume "HasSuffix (x @ s) t"
  then obtain y where "x @ s = y @ t" using HasSuffix_split by blast
  then have eq: "rev s @ rev x = rev t @ rev y" by (metis rev_append)
  have "prefix (rev s) (rev s @ rev x)" by simp
  moreover have "prefix (rev t) (rev s @ rev x)" unfolding eq by simp
  ultimately show ?thesis using prefix_same_cases by blast
qed

definition apart :: "bytes \<Rightarrow> bytes \<Rightarrow> bool" where
  "apart a b \<longleftrightarrow> \<not> prefix (rev a) (rev b) \<and> \<not> prefix (rev b) (rev a)"

lemma lifecycle_suffixes_apart: "sorted_wrt apart lifecycleSuffixes"
  by code_simp

lemma find_suffix: "sorted_wrt apart sfxs \<Longrightarrow> sfx \<in> set sfxs \<Longrightarrow> find (HasSuffix (x @ sfx)) sfxs = Some sfx"
proof (induction sfxs)
  case (Cons a sfxs)
  show ?case
  proof (cases "sfx = a")
    case False
    then have "apart a sfx" using Cons.prems by simp
    then have "\<not> HasSuffix (x @ sfx) a" using suffix_ends [of x sfx a] by (auto simp: apart_def)
    then show ?thesis using Cons False by simp
  qed simp
qed simp

lemma lifecycle_name:
  assumes "sfx \<in> set lifecycleSuffixes"
  shows "blockIDFromLocalLifecycleName (hex16 b @ sfx) = Inr (Some b)"
proof -
  have "ParseUint16 (hex16 b) = Some b" using parse_hex16 [of b] by (simp add: parseCanonicalBlockID_def split: if_splits)
  then show ?thesis using find_suffix [OF lifecycle_suffixes_apart assms, of "hex16 b"] by (simp add: blockIDFromLocalLifecycleName_def)
qed

lemma max_block_id_bound:
  assumes "max_block_id m names = Inr n"
  shows "m \<le> n" and "name \<in> set names \<Longrightarrow> blockIDFromLocalLifecycleName name = Inr (Some b) \<Longrightarrow> b \<le> n"
proof -
  have "m \<le> n \<and> (\<forall>name \<in> set names. \<forall>b. blockIDFromLocalLifecycleName name = Inr (Some b) \<longrightarrow> b \<le> n)"
    using assms
  proof (induction names arbitrary: m)
    case (Cons name names)
    show ?case
    proof (cases "blockIDFromLocalLifecycleName name")
      case (Inl x)
      then show ?thesis using Cons.prems by simp
    next
      case (Inr r)
      show ?thesis
      proof (cases r)
        case None
        then show ?thesis using Cons Inr by simp
      next
        case (Some b)
        then have "(if m < b then b else m) \<le> n \<and> (\<forall>name \<in> set names. \<forall>b. blockIDFromLocalLifecycleName name = Inr (Some b) \<longrightarrow> b \<le> n)"
          using Cons.IH [of "if m < b then b else m"] Cons.prems Inr by simp
        then show ?thesis using Inr Some by (auto split: if_splits)
      qed
    qed
  qed simp
  then show "m \<le> n" and "name \<in> set names \<Longrightarrow> blockIDFromLocalLifecycleName name = Inr (Some b) \<Longrightarrow> b \<le> n" by auto
qed

section \<open>Properties of Block ids\<close>



section \<open>What a reconciliation leaves\<close>

text \<open>The upload a valid seal intent of the Block stands for.\<close>

definition intent_upload :: "blocks_dir \<Rightarrow> u64 \<rightharpoonup> PendingUpload" where
  "intent_upload d b =
     (case dfiles d (sealIntentPath b) of
        Some (SealIntentFile i) \<Rightarrow> if siVersion i = sealIntentVersion \<and> siBlockID i = b then Some (sealIntentPendingUpload i) else None
      | _ \<Rightarrow> None)"

text \<open>What a Block owes, going by the files of the directory: its intent if there is one, or else the files themselves.\<close>

definition owes :: "blocks_dir \<Rightarrow> u64 \<Rightarrow> PendingUpload \<Rightarrow> bool" where
  "owes d b u \<longleftrightarrow> puBlockID u = b \<and> puUploadGeneration u = 0 \<and>
     (if dfiles d (sealIntentPath b) = None then \<exists>content. dfiles d (FilePath b) = Some content \<and> dfiles d (IdxFilePath b) \<noteq> None \<and> puSealedSizeBytes u = file_size content
      else intent_upload d b = Some u)"

definition accounted :: "record_json \<Rightarrow> ('s \<Rightarrow> bytes \<rightharpoonup> bytes) \<Rightarrow> blocks_dir \<Rightarrow> 's sealer \<Rightarrow> u64 \<Rightarrow> bool" where
  "accounted J contents d s b \<longleftrightarrow>
     confirmed_rows J contents (oxIndex (slOutbox s)) b \<noteq> None \<or> pending_rows contents (oxIndex (slOutbox s)) b \<noteq> None \<or>
     (\<exists>u. owed (obligations (oxLife (slOutbox s))) b = Some u \<and> owes d b u) \<or>
     dfiles d (sealIntentPath b) = None \<and> (dfiles d (FilePath b) = None \<or> dfiles d (IdxFilePath b) = None)"

lemma intent_path_simps [simp]:
  "sealIntentPath a = sealIntentPath b \<longleftrightarrow> a = b" "sealIntentPath a \<noteq> FilePath b" "sealIntentPath a \<noteq> IdxFilePath b"
  "FilePath b \<noteq> sealIntentPath a" "IdxFilePath b \<noteq> sealIntentPath a" "marker_tmp rnd p \<noteq> sealIntentPath a" "sealIntentPath a \<noteq> marker_tmp rnd p"
proof -
  have "sealIntentSuffix \<noteq> blkSuffix" "sealIntentSuffix \<noteq> idxSuffix" by (simp_all add: sealIntentSuffix_def blkSuffix_def idxSuffix_def lit_def)
  then show "sealIntentPath a \<noteq> FilePath b" "sealIntentPath a \<noteq> IdxFilePath b" "FilePath b \<noteq> sealIntentPath a" "IdxFilePath b \<noteq> sealIntentPath a"
    by (auto simp: sealIntentPath_def FilePath_def IdxFilePath_def)
  show "marker_tmp rnd p \<noteq> sealIntentPath a" "sealIntentPath a \<noteq> marker_tmp rnd p"
    using marker_tmp_fresh [of rnd p a sealIntentSuffix] by (simp_all add: sealIntentPath_def eq_commute)
qed (simp add: sealIntentPath_def)

lemma with_dir_sel [simp]:
  "oxIndex (slOutbox (with_dir d s)) = oxIndex (slOutbox s)" "oxLife (slOutbox (with_dir d s)) = oxLife (slOutbox s)" "slDir (with_dir d s) = d"
  "slOpen (with_dir d s) = slOpen s" "slEnabled (with_dir d s) = slEnabled s" "slShardID (with_dir d s) = slShardID s"
  by (simp_all add: with_dir_def)

lemma event_round_trip [simp]: "puUploadGeneration u = 0 \<Longrightarrow> event_pendingUpload (blockSealedEventFromPending u) = u"
  by (simp add: event_pendingUpload_def blockSealedEventFromPending_def)

lemma recorded_sel [simp]:
  "oxIndex (slOutbox (recorded u s)) = oxIndex (slOutbox s)" "slDir (recorded u s) = slDir s" "slOpen (recorded u s) = slOpen s" "slEnabled (recorded u s) = slEnabled s"
  "puUploadGeneration u = 0 \<Longrightarrow> obligations (oxLife (slOutbox (recorded u s))) = recordLocal u (obligations (oxLife (slOutbox s)))"
  by (simp_all add: recorded_def RecordBlockSealed_def)

lemma ReadJSONMarker_files: "ReadJSONMarker dec path d = (r, d1) \<Longrightarrow>
    dfiles d1 = dfiles d \<and> (r = Inl MarkerNotExist \<longrightarrow> dfiles d path = None) \<and> (\<forall>m. r = Inr m \<longrightarrow> (\<exists>c. dfiles d path = Some c \<and> dec c = Some m))"
  by (auto simp: ReadJSONMarker_def dest!: next_ok_same split: prod.splits if_splits option.splits)

lemma readSealIntent_files:
  assumes "readSealIntent b d = (r, d1)"
  shows "dfiles d1 = dfiles d" and "r = Inl (IntentMarker MarkerNotExist) \<Longrightarrow> dfiles d (sealIntentPath b) = None"
    and "r = Inr i \<Longrightarrow> intent_upload d b = Some (sealIntentPendingUpload i) \<and> dfiles d (sealIntentPath b) \<noteq> None"
proof -
  obtain r0 where r0: "ReadJSONMarker intent_of (sealIntentPath b) d = (r0, d1)"
    using assms by (auto simp: readSealIntent_def split: prod.splits sum.splits)
  note f = ReadJSONMarker_files [OF r0]
  show "dfiles d1 = dfiles d" using f by simp
  show "r = Inl (IntentMarker MarkerNotExist) \<Longrightarrow> dfiles d (sealIntentPath b) = None"
    using assms r0 f by (auto simp: readSealIntent_def split: sum.splits if_splits)
  assume r: "r = Inr i"
  then have "r0 = Inr i" "siVersion i = sealIntentVersion" "siBlockID i = b" using assms r0 by (auto simp: readSealIntent_def split: sum.splits if_splits)
  moreover from this obtain c where "dfiles d (sealIntentPath b) = Some c" "intent_of c = Some i" using f by auto
  moreover from this have "c = SealIntentFile i" by (cases c) auto
  ultimately show "intent_upload d b = Some (sealIntentPendingUpload i) \<and> dfiles d (sealIntentPath b) \<noteq> None" by (simp add: intent_upload_def)
qed

text \<open>The directory and the tables, but for the seal intent of the Block.\<close>

definition kept :: "u64 set \<Rightarrow> 's sealer \<Rightarrow> 's sealer \<Rightarrow> bool" where
  "kept B s s' \<longleftrightarrow> oxIndex (slOutbox s') = oxIndex (slOutbox s) \<and> slOpen s' = slOpen s \<and> slEnabled s' = slEnabled s \<and>
     (\<forall>name. name \<notin> sealIntentPath ` B \<longrightarrow> dfiles (slDir s') name = dfiles (slDir s) name)"

lemma kept_trans: "kept A s s1 \<Longrightarrow> kept B s1 s2 \<Longrightarrow> kept (A \<union> B) s s2"
  by (simp add: kept_def image_Un)

lemma reconcile_files_outcome:
  assumes "reconcile_files mtime b s = (None, s')" and ok: "obligations_ok (obligations (oxLife (slOutbox s)))" and no: "dfiles (slDir s) (sealIntentPath b) = None"
  shows "kept {} s s' \<and> obligations_ok (obligations (oxLife (slOutbox s'))) \<and>
    (\<forall>x. x \<noteq> b \<longrightarrow> owed (obligations (oxLife (slOutbox s'))) x = owed (obligations (oxLife (slOutbox s))) x) \<and>
    ((\<exists>u. owed (obligations (oxLife (slOutbox s'))) b = Some u \<and> owes (slDir s) b u) \<or> dfiles (slDir s) (FilePath b) = None \<or> dfiles (slDir s) (IdxFilePath b) = None)"
proof -
  obtain blk d1 where d1: "os_Stat (FilePath b) (slDir s) = (blk, d1)" by (metis surj_pair)
  obtain idx d2 where d2: "os_Stat (IdxFilePath b) d1 = (idx, d2)" by (metis surj_pair)
  note f = os_Stat_files [OF d1] os_Stat_files [OF d2]
  let ?u = "\<lparr>puBlockID = b, puShardID = slShardID s, puSealedSizeBytes = file_size (the (dfiles d1 (FilePath b))), puSealedAtUs = mtime b, puUploadGeneration = 0\<rparr>"
  consider (blk) "s' = with_dir d1 s" "blk = StatNotExist" | (idx) "s' = with_dir d2 s" "idx = StatNotExist"
    | (rec) "s' = recorded ?u (with_dir d2 s)" "blk = StatExists" "idx = StatExists"
    using assms(1) d1 d2 by (cases blk; cases idx) (auto simp: reconcile_files_def)
  then show ?thesis
  proof cases
    case rec
    have "owed (recordLocal ?u (obligations (oxLife (slOutbox s)))) = (owed (obligations (oxLife (slOutbox s))))(b \<mapsto> ?u)" "obligations_ok (recordLocal ?u (obligations (oxLife (slOutbox s))))"
      using owed_recordLocal [OF ok, of ?u] by simp_all
    moreover have "owes (slDir s) b ?u" using rec(2,3) f no by (auto simp: owes_def)
    ultimately show ?thesis using rec f by (simp add: kept_def)
  qed (use f ok in \<open>auto simp: kept_def\<close>)
qed

lemma reconcile_block_outcome:
  assumes pb: "pebble_ok contents db" and run: "reconcileClosedBlockLocked J db mtime b s = (None, s')" and ok: "obligations_ok (obligations (oxLife (slOutbox s)))"
  shows "kept {b} s s' \<and> obligations_ok (obligations (oxLife (slOutbox s'))) \<and>
    (\<forall>x. x \<noteq> b \<longrightarrow> owed (obligations (oxLife (slOutbox s'))) x = owed (obligations (oxLife (slOutbox s))) x) \<and> accounted J contents (slDir s) s' b"
proof (cases "GetConfirmedUpload J db b (oxIndex (slOutbox s))")
  case (Inr c)
  then have s': "s' = with_dir (snd (removeSealIntent b (slDir s))) s" using run by (simp add: reconcileClosedBlockLocked_def)
  obtain r d where r: "os_Remove (sealIntentPath b) (slDir s) = (r, d)" by (metis surj_pair)
  have "\<forall>name. name \<noteq> sealIntentPath b \<longrightarrow> dfiles d name = dfiles (slDir s) name" using os_Remove_files [OF r] by (auto simp: touches_def)
  then show ?thesis using s' r ok GetConfirmedUpload_ok [OF pb Inr] by (simp add: kept_def accounted_def removeSealIntent_def)
next
  case c: (Inl ce)
  show ?thesis
  proof (cases "GetPendingUpload db b (oxIndex (slOutbox s))")
    case (Inr p)
    then have "s' = s" using run c by (auto simp: reconcileClosedBlockLocked_def split: if_splits)
    then show ?thesis using ok GetPendingUpload_ok [OF pb Inr] by (simp add: kept_def accounted_def)
  next
    case p: (Inl pe)
    obtain r d where rd: "readSealIntent b (slDir s) = (r, d)" by (metis surj_pair)
    note f = readSealIntent_files [OF rd]
    obtain stat d1 where st: "os_Stat (sealIntentPath b) d = (stat, d1)" by (metis surj_pair)
    note g = os_Stat_files [OF st]
    consider (intent) i where "r = Inr i" "s' = recorded (sealIntentPendingUpload i) (with_dir d s)"
      | (files) d' where "reconcile_files mtime b (with_dir d' s) = (None, s')" "dfiles d' = dfiles (slDir s)" "dfiles (slDir s) (sealIntentPath b) = None"
      using run c p rd st f g by (cases r) (auto simp: reconcileClosedBlockLocked_def split: if_splits)
    then show ?thesis
    proof cases
      case intent
      have u: "puUploadGeneration (sealIntentPendingUpload i) = 0" "puBlockID (sealIntentPendingUpload i) = b"
        using f(3) [OF intent(1)] by (auto simp: sealIntentPendingUpload_def intent_upload_def split: option.splits fcontent.splits if_splits)
      have "owes (slDir s) b (sealIntentPendingUpload i)" using f(3) [OF intent(1)] u by (auto simp: owes_def)
      then show ?thesis using intent(2) u f(1) owed_recordLocal [OF ok, of "sealIntentPendingUpload i"] by (simp add: kept_def accounted_def)
    next
      case files
      have ow: "owes d' b u = owes (slDir s) b u" for u using files(2) by (simp add: owes_def intent_upload_def)
      from reconcile_files_outcome [OF files(1)] show ?thesis using ok files(2,3) ow by (simp add: kept_def accounted_def)
    qed
  qed
qed

lemma accounted_later:
  assumes "accounted J contents d s b" and "oxIndex (slOutbox s') = oxIndex (slOutbox s)"
    and "owed (obligations (oxLife (slOutbox s'))) b = owed (obligations (oxLife (slOutbox s))) b"
  shows "accounted J contents d s' b"
  using assms by (simp add: accounted_def)

lemma accounted_dir:
  assumes "kept B s s1" and "b \<notin> B"
  shows "accounted J contents (slDir s1) s' b = accounted J contents (slDir s) s' b"
proof -
  have same: "dfiles (slDir s1) name = dfiles (slDir s) name" if "name \<notin> sealIntentPath ` B" for name using assms(1) that by (simp add: kept_def)
  have f: "dfiles (slDir s1) (FilePath b) = dfiles (slDir s) (FilePath b)" "dfiles (slDir s1) (IdxFilePath b) = dfiles (slDir s) (IdxFilePath b)"
      "dfiles (slDir s1) (sealIntentPath b) = dfiles (slDir s) (sealIntentPath b)"
    by (rule same; use assms(2) in auto)+
  then have "owes (slDir s1) b u = owes (slDir s) b u" for u by (simp add: owes_def intent_upload_def)
  then show ?thesis using f by (simp add: accounted_def)
qed

text \<open>The Blocks a reconciliation looks at: those below the open one.\<close>

definition closed_id :: "u64 option \<Rightarrow> u64 \<Rightarrow> bool" where
  "closed_id op b \<longleftrightarrow> \<not> (case op of None \<Rightarrow> False | Some openID \<Rightarrow> openID \<noteq> 0 \<and> openID \<le> b)"

lemma reconcile_names_outcome:
  assumes pb: "pebble_ok contents db"
  shows "reconcile_names J db mtime seen names s = (None, s') \<Longrightarrow> obligations_ok (obligations (oxLife (slOutbox s))) \<Longrightarrow>
    (\<exists>B. B \<inter> seen = {} \<and> kept B s s' \<and> obligations_ok (obligations (oxLife (slOutbox s'))) \<and>
      (\<forall>x. x \<notin> B \<longrightarrow> owed (obligations (oxLife (slOutbox s'))) x = owed (obligations (oxLife (slOutbox s))) x) \<and>
      (\<forall>name \<in> set names. \<forall>b. blockIDFromLocalLifecycleName name = Inr (Some b) \<and> b \<notin> seen \<and> closed_id (slOpen s) b \<longrightarrow> accounted J contents (slDir s) s' b))"
proof (induction names arbitrary: seen s)
  case Nil
  then show ?case by (auto simp: kept_def intro!: exI [of _ "{}"])
next
  case (Cons name names)
  show ?case
  proof (cases "\<exists>b. blockIDFromLocalLifecycleName name = Inr (Some b) \<and> b \<notin> seen")
    case False
    then have "reconcile_names J db mtime seen names s = (None, s')" using Cons.prems(1) by (auto split: sum.splits option.splits if_splits)
    from Cons.IH [OF this Cons.prems(2)] show ?thesis using False by auto
  next
    case True
    then obtain b where b: "blockIDFromLocalLifecycleName name = Inr (Some b)" "b \<notin> seen" by blast
    show ?thesis
    proof (cases "closed_id (slOpen s) b")
      case False
      then have "reconcile_names J db mtime (insert b seen) names s = (None, s')" using Cons.prems(1) b by (auto simp: closed_id_def split: option.splits if_splits)
      from Cons.IH [OF this Cons.prems(2)] obtain B where B: "B \<inter> insert b seen = {}" "kept B s s'" "obligations_ok (obligations (oxLife (slOutbox s')))"
          "\<forall>x. x \<notin> B \<longrightarrow> owed (obligations (oxLife (slOutbox s'))) x = owed (obligations (oxLife (slOutbox s))) x"
          "\<forall>name \<in> set names. \<forall>x. blockIDFromLocalLifecycleName name = Inr (Some x) \<and> x \<notin> insert b seen \<and> closed_id (slOpen s) x \<longrightarrow> accounted J contents (slDir s) s' x"
        by blast
      then show ?thesis using False b by (intro exI [of _ B]) auto
    next
      case closed: True
      obtain e s1 where s1: "reconcileClosedBlockLocked J db mtime b s = (e, s1)" by (metis surj_pair)
      then have e: "e = None" and rest: "reconcile_names J db mtime (insert b seen) names s1 = (None, s')"
        using Cons.prems(1) b closed by (auto simp: closed_id_def split: option.splits if_splits)
      note one = reconcile_block_outcome [OF pb s1 [unfolded e] Cons.prems(2)]
      have k1: "kept {b} s s1" "slOpen s1 = slOpen s" using one by (simp_all add: kept_def)
      from Cons.IH [OF rest] one obtain B where B: "B \<inter> insert b seen = {}" "kept B s1 s'" "obligations_ok (obligations (oxLife (slOutbox s')))"
          "\<forall>x. x \<notin> B \<longrightarrow> owed (obligations (oxLife (slOutbox s'))) x = owed (obligations (oxLife (slOutbox s1))) x"
          "\<forall>name \<in> set names. \<forall>x. blockIDFromLocalLifecycleName name = Inr (Some x) \<and> x \<notin> insert b seen \<and> closed_id (slOpen s1) x \<longrightarrow> accounted J contents (slDir s1) s' x"
        by blast
      have "kept ({b} \<union> B) s s'" by (rule kept_trans [OF k1(1) B(2)])
      moreover have own: "accounted J contents (slDir s) s' b"
        using one B(1,2,4) by (intro accounted_later [of J contents "slDir s" s1 b s']) (auto simp: kept_def)
      moreover have "accounted J contents (slDir s) s' x" if "n \<in> set names" "blockIDFromLocalLifecycleName n = Inr (Some x)" "x \<notin> seen" "closed_id (slOpen s) x" for n x
      proof (cases "x = b")
        case False
        then have "accounted J contents (slDir s1) s' x" using B(5) that k1(2) by auto
        then show ?thesis using accounted_dir [OF k1(1), of x J contents s'] False by blast
      qed (use own in simp)
      ultimately show ?thesis using B(1,3,4) one b by (intro exI [of _ "{b} \<union> B"]) auto
    qed
  qed
qed

text \<open>
  C14: no closed Block is forgotten. Whatever calls fail, when the reconciliation of a Shard with uploads
  ends without error, every Block below the open one of which a file is in the directory is
  accounted for: its upload is confirmed, or it is in the outbox, or it is owed, with the size its seal
  intent records if there is one and otherwise with the size of its file, or it has no intent and its
  Block or index file is missing.
\<close>

theorem reconcile_accounts_closed_blocks:
  assumes "pebble_ok contents db" and "obligations_ok (obligations (oxLife (slOutbox s)))" and "slEnabled s"
    and "reconcileClosedBlocksIntoUploadOutboxLocked J db mtime (Some names) s = (None, s')"
  shows "\<forall>name \<in> set names. \<forall>b. blockIDFromLocalLifecycleName name = Inr (Some b) \<and> closed_id (slOpen s) b \<longrightarrow> accounted J contents (slDir s) s' b"
proof -
  have "reconcile_names J db mtime {} names s = (None, s')"
    using assms(3,4) by (auto simp: reconcileClosedBlocksIntoUploadOutboxLocked_def split: prod.splits option.splits sum.splits)
  from reconcile_names_outcome [OF assms(1) this assms(2)] show ?thesis by auto
qed

section \<open>Sealing, a crash, and the reconciliation\<close>

lemma create_file_other: "create_file torn name content d = (ok, d') \<Longrightarrow> x \<noteq> name \<Longrightarrow> dfiles d' x = dfiles d x"
  by (auto simp: create_file_def dest!: next_ok_same split: prod.splits if_splits)

lemma openNewBlock_kept:
  assumes "openNewBlock env s = (ok, s')"
  shows "oxIndex (slOutbox s') = oxIndex (slOutbox s) \<and> dfiles (slDir s') (sealIntentPath b) = dfiles (slDir s) (sealIntentPath b)"
  using assms by (auto simp: openNewBlock_def Let_def with_dir_def dest!: next_ok_same create_file_other [where x = "sealIntentPath b"] split: prod.splits if_splits)

lemma rotate_kept:
  assumes "rotate env s = (e, s')"
  shows "oxIndex (slOutbox s') = oxIndex (slOutbox s) \<and> dfiles (slDir s') (sealIntentPath b) = dfiles (slDir s) (sealIntentPath b)"
proof -
  obtain ok1 d1 where d1: "next_ok (slDir s) = (ok1, d1)" by (metis surj_pair)
  obtain ok2 d2 where d2: "next_ok d1 = (ok2, d2)" by (metis surj_pair)
  obtain ok3 s3 where s3: "openNewBlock env (with_dir d2 s) = (ok3, s3)" by (metis surj_pair)
  have "s' = (if \<not> ok1 then with_dir d1 s else if \<not> ok2 then with_dir d2 s else s3)" using assms d1 d2 s3 by (auto simp: rotate_def split: if_splits)
  then show ?thesis using next_ok_same [OF d1] next_ok_same [OF d2] openNewBlock_kept [OF s3, of b] by (cases ok1; cases ok2) simp_all
qed

text \<open>The upload of a Block that is sealed at time \<open>now\<close>.\<close>

definition sealed_upload :: "u64 \<Rightarrow> int \<Rightarrow> 's sealer \<Rightarrow> PendingUpload" where
  "sealed_upload b now s =
     \<lparr>puBlockID = b, puShardID = slShardID s, puSealedSizeBytes = slOffset s, puSealedAtUs = time_to_UnixMicro now, puUploadGeneration = 0\<rparr>"

lemma seal_writes_intent:
  assumes run: "sealAndOpenNew db env b s = (err, s1, seals)" and en: "slEnabled s" and closed: "\<forall>e. err \<noteq> Some (SealIntentErr e)"
  shows "oxIndex (slOutbox s1) = oxIndex (slOutbox s) \<and> intent_upload (slDir s1) b = Some (sealed_upload b (roNow env) s)"
proof -
  let ?i = "\<lparr>siVersion = sealIntentVersion, siBlockID = b, siShardID = slShardID s, siSealedSizeBytes = slOffset s, siSealedAtUs = time_to_UnixMicro (roNow env)\<rparr>"
  obtain we d where w: "WriteJSONMarker (roRnd env) (sealIntentPath b) (SealIntentFile ?i) (slDir s) = (we, d)" by (metis surj_pair)
  have wi: "writeSealIntentLocked (roRnd env) (roNow env) b (slOffset s) s = (we, with_dir d s)" using w by (simp add: writeSealIntentLocked_def)
  have we: "we = None"
  proof (rule ccontr)
    assume "we \<noteq> None"
    then obtain x where "we = Some x" by blast
    then show False using run wi en closed by (auto simp: sealAndOpenNew_def)
  qed
  have f: "dfiles d (sealIntentPath b) = Some (SealIntentFile ?i)" using WriteJSONMarker_files [OF w] we by simp
  obtain re s2 where r: "rotate env (with_dir d s) = (re, s2)" by (metis surj_pair)
  have k: "oxIndex (slOutbox s2) = oxIndex (slOutbox s)" "dfiles (slDir s2) (sealIntentPath b) = Some (SealIntentFile ?i)"
    using rotate_kept [OF r, of b] f by simp_all
  have "oxIndex (slOutbox s1) = oxIndex (slOutbox s2) \<and> slDir s1 = slDir s2"
    using run wi we en r by (auto simp: sealAndOpenNew_def RecordBlockSealed_def Let_def split: option.splits sum.splits prod.splits if_splits)
  then show ?thesis using k by (simp add: intent_upload_def sealIntentPendingUpload_def sealed_upload_def)
qed

text \<open>Without faults, with readable tables and intents, the reconciliation ends without error.\<close>

definition intents_ok :: "blocks_dir \<Rightarrow> bool" where
  "intents_ok d \<longleftrightarrow> (\<forall>b. dfiles d (sealIntentPath b) \<noteq> None \<longrightarrow> intent_upload d b \<noteq> None)"

lemma readSealIntent_calm:
  assumes "dsched d = []" and "intents_ok d"
  shows "(\<exists>i. readSealIntent b d = (Inr i, d)) \<or> readSealIntent b d = (Inl (IntentMarker MarkerNotExist), d)"
proof (cases "dfiles d (sealIntentPath b)")
  case None
  then show ?thesis using next_ok_calm [OF assms(1)] by (simp add: readSealIntent_def ReadJSONMarker_def)
next
  case (Some c)
  then have "intent_upload d b \<noteq> None" using assms(2) by (simp add: intents_ok_def)
  then obtain i where "c = SealIntentFile i" "siVersion i = sealIntentVersion" "siBlockID i = b"
    using Some by (cases c) (auto simp: intent_upload_def split: if_splits)
  then show ?thesis using Some next_ok_calm [OF assms(1)] by (simp add: readSealIntent_def ReadJSONMarker_def)
qed

lemma reconcile_block_total:
  assumes pb: "pebble_ok contents db" "pebble_total db" and up: "uploads_ok J contents (oxIndex (slOutbox s))" and b: "b \<noteq> 0"
    and d: "dsched (slDir s) = []" "intents_ok (slDir s)"
  shows "\<exists>s'. reconcileClosedBlockLocked J db mtime b s = (None, s') \<and> dsched (slDir s') = [] \<and> intents_ok (slDir s')"
proof -
  have n: "next_ok (slDir s) = (True, slDir s)" using d(1) by (rule next_ok_calm)
  have stat: "os_Stat x (slDir s) = (if dfiles (slDir s) x = None then StatNotExist else StatExists, slDir s)" for x using n by (simp add: os_Stat_def)
  show ?thesis
  proof (cases "confirmed_rows J contents (oxIndex (slOutbox s)) b")
    case (Some c)
    have "removeSealIntent b (slDir s) = (True, (slDir s)\<lparr>dfiles := (dfiles (slDir s))(sealIntentPath b := None)\<rparr>)"
      using n by (auto simp: removeSealIntent_def os_Remove_def fun_upd_idem)
    moreover have "intents_ok ((slDir s)\<lparr>dfiles := (dfiles (slDir s))(sealIntentPath b := None)\<rparr>)"
      using d(2) by (auto simp: intents_ok_def intent_upload_def)
    ultimately show ?thesis using GetConfirmedUpload_total [OF pb b Some] d(1) by (simp add: reconcileClosedBlockLocked_def)
  next
    case None
    then have c: "GetConfirmedUpload J db b (oxIndex (slOutbox s)) = Inl ErrConfirmedUploadNotFound"
      using upload_rows_absent(2) [OF up b] pebble_Get_total [OF pb] b by (simp add: GetConfirmedUpload_def)
    show ?thesis
    proof (cases "pending_rows contents (oxIndex (slOutbox s)) b")
      case (Some p)
      then show ?thesis using c GetPendingUpload_total(1) [OF pb b Some] d by (simp add: reconcileClosedBlockLocked_def)
    next
      case None
      then have p: "GetPendingUpload db b (oxIndex (slOutbox s)) = Inl ErrPendingUploadNotFound"
        using upload_rows_absent(1) [OF up b] GetPendingUpload_total(2) [OF pb b] by simp
      then show ?thesis using c readSealIntent_calm [OF d, of b] d stat by (auto simp: reconcileClosedBlockLocked_def reconcile_files_def)
    qed
  qed
qed

lemma reconcile_names_total:
  assumes pb: "pebble_ok contents db" "pebble_total db"
  shows "uploads_ok J contents (oxIndex (slOutbox s)) \<Longrightarrow> dsched (slDir s) = [] \<Longrightarrow> intents_ok (slDir s) \<Longrightarrow> obligations_ok (obligations (oxLife (slOutbox s))) \<Longrightarrow>
    \<forall>name \<in> set names. blockIDFromLocalLifecycleName name \<noteq> Inr (Some 0) \<Longrightarrow> \<exists>s'. reconcile_names J db mtime seen names s = (None, s')"
proof (induction names arbitrary: seen s)
  case (Cons name names)
  show ?case
  proof (cases "\<exists>b. blockIDFromLocalLifecycleName name = Inr (Some b) \<and> b \<notin> seen \<and> closed_id (slOpen s) b")
    case True
    then obtain b where b: "blockIDFromLocalLifecycleName name = Inr (Some b)" "b \<notin> seen" "closed_id (slOpen s) b" by blast
    have b0: "b \<noteq> 0" using Cons.prems(5) b(1) by auto
    obtain s1 where s1: "reconcileClosedBlockLocked J db mtime b s = (None, s1)" "dsched (slDir s1) = []" "intents_ok (slDir s1)"
      using reconcile_block_total [OF pb Cons.prems(1) b0 Cons.prems(2,3)] by blast
    have "uploads_ok J contents (oxIndex (slOutbox s1))" "obligations_ok (obligations (oxLife (slOutbox s1)))"
      using reconcile_block_outcome [OF pb(1) s1(1) Cons.prems(4)] Cons.prems(1) by (simp_all add: kept_def)
    from Cons.IH [OF this(1) s1(2,3) this(2)] Cons.prems(5) obtain s' where "reconcile_names J db mtime (insert b seen) names s1 = (None, s')" by auto
    then show ?thesis using b s1(1) by (simp add: closed_id_def)
  next
    case False
    then show ?thesis using Cons.IH [OF Cons.prems(1-4)] Cons.prems(5) by (auto simp: closed_id_def split: sum.splits option.splits)
  qed
qed simp

text \<open>
  C5: a sealed Block is never lost. Let the seal of the open Block fail anywhere after its intent was
  written, or succeed, and let the Shard crash before the seal is committed. When it starts again on the
  same directory and Projection, with the Block below the newly opened one, with readable seal intents, no
  file of a Block 0 and no further fault, the reconciliation succeeds and the Shard owes the Block with the size it had when it was sealed.
\<close>

theorem sealed_block_survives_crash:
  assumes run: "sealAndOpenNew db env b s = (err, s1, seals)" and en: "slEnabled s" and closed: "\<forall>e. err \<noteq> Some (SealIntentErr e)" and b: "b \<noteq> 0"
    and rows: "confirmed_rows J contents (oxIndex (slOutbox s)) b = None" "pending_rows contents (oxIndex (slOutbox s)) b = None"
    and restart: "oxIndex (slOutbox s2) = oxIndex (slOutbox s1)" "dfiles (slDir s2) = dfiles (slDir s1)" "dsched (slDir s2) = []" "slEnabled s2"
      "closed_id (slOpen s2) b" "obligations (oxLife (slOutbox s2)) = []" "intents_ok (slDir s2)"
    and listing: "sealIntentPath b \<in> set names" "\<forall>name \<in> set names. blockIDFromLocalLifecycleName name \<noteq> Inr (Some 0)"
    and pb: "pebble_ok contents db'" "pebble_total db'" "uploads_ok J contents (oxIndex (slOutbox s))"
  shows "\<exists>s3. reconcileClosedBlocksIntoUploadOutboxLocked J db' mtime (Some names) s2 = (None, s3) \<and>
    owed (obligations (oxLife (slOutbox s3))) b = Some (sealed_upload b (roNow env) s)"
proof -
  note w = seal_writes_intent [OF run en closed]
  have iu: "intent_upload (slDir s2) b = Some (sealed_upload b (roNow env) s)" using w restart(2) by (simp add: intent_upload_def)
  have up: "uploads_ok J contents (oxIndex (slOutbox s2))" and ok: "obligations_ok (obligations (oxLife (slOutbox s2)))"
    using pb(3) w restart(1,6) by (simp_all add: obligations_ok_def)
  obtain s3 where s3: "reconcile_names J db' mtime {} names s2 = (None, s3)"
    using reconcile_names_total [OF pb(1,2) up restart(3,7) ok listing(2)] by blast
  note out = reconcile_names_outcome [OF pb(1) s3 ok]
  then have ix: "oxIndex (slOutbox s3) = oxIndex (slOutbox s2)" by (auto simp: kept_def)
  have "blockIDFromLocalLifecycleName (sealIntentPath b) = Inr (Some b)" using lifecycle_name [of sealIntentSuffix b] by (simp add: sealIntentPath_def lifecycleSuffixes_def)
  then have acc: "accounted J contents (slDir s2) s3 b" using out listing(1) restart(5) by auto
  have "dfiles (slDir s2) (sealIntentPath b) \<noteq> None" using iu by (auto simp: intent_upload_def split: option.splits)
  then have "owed (obligations (oxLife (slOutbox s3))) b = Some (sealed_upload b (roNow env) s)"
    using acc rows w restart(1) ix iu by (auto simp: accounted_def owes_def)
  moreover obtain stats where "refreshPressure db' (slOutbox s3) = Inr stats" using refreshPressure_total [OF pb(1,2)] up ix by metis
  ultimately show ?thesis using s3 restart(4) by (simp add: reconcileClosedBlocksIntoUploadOutboxLocked_def)
qed

section \<open>Examples\<close>

definition sample_sealer :: "u64 \<Rightarrow> (bytes \<rightharpoonup> fcontent) \<Rightarrow> bool list \<Rightarrow> (bytes \<times> bytes) list sealer" where
  "sample_sealer openID files sched =
     \<lparr>slOutbox = \<lparr>oxIndex = empty_index, oxDir = \<lparr>dfiles = files, dsched = sched\<rparr>, oxLife = \<lparr>obligations = [], committedConfirmUploads = Map.empty\<rparr>\<rparr>,
      slOpen = Some openID, slOffset = 96, slNextBlockID = openID + 1, slEnabled = True, slShardID = 1\<rparr>"

lemma sample_sealer_rows:
  "confirmed_rows J map_of (oxIndex (slOutbox (sample_sealer n files sched))) = Map.empty" "pending_rows map_of (oxIndex (slOutbox (sample_sealer n files sched))) = Map.empty"
  "uploads_ok J map_of (oxIndex (slOutbox (sample_sealer n files sched)))" "obligations (oxLife (slOutbox (sample_sealer n files sched))) = []"
  by (simp_all add: sample_sealer_def empty_index_def confirmed_rows_def catalog.table_def pending_rows_def outbox.table_def uploads_ok_def outbox.rows_ok_def catalog.rows_ok_def fun_eq_iff)

lemma sample_names: "blockIDFromLocalLifecycleName (FilePath b) = Inr (Some b)" "blockIDFromLocalLifecycleName (sealIntentPath b) = Inr (Some b)"
  using lifecycle_name [of blkSuffix b] lifecycle_name [of sealIntentSuffix b] by (simp_all add: FilePath_def sealIntentPath_def lifecycleSuffixes_def)

text \<open>A closed Block of 50 bytes without a seal intent.\<close>

definition sample_closed :: "(bytes \<times> bytes) list sealer" where
  "sample_closed = sample_sealer 5 [FilePath 3 \<mapsto> Raw (replicate 50 7), IdxFilePath 3 \<mapsto> Raw []] []"

theorem reconcile_accounts_closed_blocks_witness:
  "\<exists>s' u. reconcileClosedBlocksIntoUploadOutboxLocked plain_json mem_pebble (\<lambda>_. 9) (Some [FilePath 3]) sample_closed = (None, s') \<and>
     owed (obligations (oxLife (slOutbox s'))) 3 = Some u \<and> puSealedSizeBytes u = 50"
proof -
  have ok: "obligations_ok (obligations (oxLife (slOutbox sample_closed)))" and up: "uploads_ok plain_json map_of (oxIndex (slOutbox sample_closed))"
    by (simp_all add: sample_closed_def sample_sealer_rows obligations_ok_def)
  have d: "dsched (slDir sample_closed) = []" "intents_ok (slDir sample_closed)" "slEnabled sample_closed" "slOpen sample_closed = Some 5"
    by (simp_all add: sample_closed_def sample_sealer_def intents_ok_def)
  obtain s1 where s1: "reconcile_names plain_json mem_pebble (\<lambda>_. 9) {} [FilePath 3] sample_closed = (None, s1)"
    using reconcile_names_total [OF mem_pebble_ok mem_pebble_total up d(1,2) ok, of "[FilePath 3]" "\<lambda>_. 9" "{}"] sample_names(1) [of 3]
    by (auto simp del: reconcile_names.simps)
  have ix: "oxIndex (slOutbox s1) = oxIndex (slOutbox sample_closed)" using reconcile_names_outcome [OF mem_pebble_ok s1 ok] by (auto simp: kept_def)
  obtain stats where "refreshPressure mem_pebble (slOutbox s1) = Inr stats" using refreshPressure_total [OF mem_pebble_ok mem_pebble_total] up ix by metis
  then have run: "reconcileClosedBlocksIntoUploadOutboxLocked plain_json mem_pebble (\<lambda>_. 9) (Some [FilePath 3]) sample_closed = (None, s1)"
    using s1 d(3) by (simp del: reconcile_names.simps add: reconcileClosedBlocksIntoUploadOutboxLocked_def)
  have "accounted plain_json map_of (slDir sample_closed) s1 3"
    using reconcile_accounts_closed_blocks [OF mem_pebble_ok ok d(3) run] d(4) by (simp add: sample_names closed_id_def)
  then have "\<exists>u. owed (obligations (oxLife (slOutbox s1))) 3 = Some u \<and> puSealedSizeBytes u = 50"
    using sample_sealer_rows(1,2) by (auto simp: accounted_def owes_def ix sample_closed_def sample_sealer_def)
  then show ?thesis using run by blast
qed

text \<open>The seal of Block 5 writes its intent and then fails to close the index.\<close>

definition sample_rotate :: rotate_env where
  "sample_rotate = \<lparr>roRnd = lit ''1'', roNow = 8000, roTornBlk = [], roTornIdx = [], roRejected = False, roRetryDelay = 1\<rparr>"

definition sample_intent :: sealIntent where
  "sample_intent = \<lparr>siVersion = 1, siBlockID = 5, siShardID = 1, siSealedSizeBytes = 96, siSealedAtUs = 8\<rparr>"

lemma sample_seal_run:
  "sealAndOpenNew mem_pebble sample_rotate 5 (sample_sealer 5 Map.empty [True, True, True, True, True, True, True, True, False]) =
     (Some SealCloseIndex, sample_sealer 5 [sealIntentPath 5 \<mapsto> SealIntentFile sample_intent] [], [])"
  by (simp add: sealAndOpenNew_def sample_sealer_def sample_rotate_def sample_intent_def writeSealIntentLocked_def sealIntentVersion_def WriteJSONMarker_def os_CreateTemp_def
      tmp_Write_def os_Rename_def SyncDirectory_def next_ok_def Let_def rotate_def with_dir_def time_to_UnixMicro_def wrap64_def fun_eq_iff)

theorem sealed_block_survives_crash_witness:
  "\<exists>s3. reconcileClosedBlocksIntoUploadOutboxLocked plain_json mem_pebble (\<lambda>_. 9) (Some [sealIntentPath 5])
       (sample_sealer 6 [sealIntentPath 5 \<mapsto> SealIntentFile sample_intent] []) = (None, s3) \<and>
     owed (obligations (oxLife (slOutbox s3))) 5 = Some \<lparr>puBlockID = 5, puShardID = 1, puSealedSizeBytes = 96, puSealedAtUs = 8, puUploadGeneration = 0\<rparr>"
proof -
  let ?s = "sample_sealer 5 Map.empty [True, True, True, True, True, True, True, True, False]"
  have r: "confirmed_rows plain_json map_of (oxIndex (slOutbox ?s)) 5 = None" "pending_rows map_of (oxIndex (slOutbox ?s)) 5 = None"
    by (simp_all add: sample_sealer_rows)
  have f: "slEnabled ?s" "sealed_upload 5 (roNow sample_rotate) ?s = \<lparr>puBlockID = 5, puShardID = 1, puSealedSizeBytes = 96, puSealedAtUs = 8, puUploadGeneration = 0\<rparr>"
    by (simp_all add: sample_sealer_def sealed_upload_def sample_rotate_def time_to_UnixMicro_def wrap64_def)
  have i: "intents_ok (slDir (sample_sealer 6 [sealIntentPath 5 \<mapsto> SealIntentFile sample_intent] []))"
    by (auto simp: intents_ok_def intent_upload_def sample_sealer_def sample_intent_def sealIntentVersion_def)
  show ?thesis
    using sealed_block_survives_crash [OF sample_seal_run f(1) _ _ r, of "sample_sealer 6 [sealIntentPath 5 \<mapsto> SealIntentFile sample_intent] []" "[sealIntentPath 5]" mem_pebble "\<lambda>_. 9"]
      i sample_sealer_rows(3,4) mem_pebble_ok mem_pebble_total
    by (simp add: f(2) sample_names) (simp add: sample_sealer_def closed_id_def)
qed

end
