(* ===== verification/Shard_Openlog.thy ===== *)
theory Shard_Openlog
  imports Shard_Commit_Serve Shard_Seal
begin

text \<open>
  Openlog recovery, \<open>internal/shard/openlog.go\<close> and \<open>openlog_write_attempt.go\<close>: the preparation record a
  write leaves before it touches the Block, and the two phases that decide after a crash which bytes of
  a Block belong to no committed Document. Phase A runs before the log is replayed and only records
  candidates; phase B runs after the replay and truncates. The lookups of \<open>projection.go\<close> that the
  decision rests on are here as well.
\<close>

section \<open>Looking a Document up\<close>

datatype lookup_err = ErrTxNotFound | ErrLookupNotFound | LookupDataLoss resolve_err | LookupCorruptDuplicate

fun mapProjectionResolutionError :: "resolve_err \<Rightarrow> lookup_err" where
  "mapProjectionResolutionError ResolveNotFound = ErrTxNotFound"
| "mapProjectionResolutionError ErrDocumentNotFound = ErrLookupNotFound"
| "mapProjectionResolutionError (ErrCorrupt c) = LookupDataLoss (ErrCorrupt c)"

definition documentVisibleInProjectionLenient :: "'s pebble \<Rightarrow> (nat \<Rightarrow> io_outcome list) \<Rightarrow> bytes \<Rightarrow> bytes \<Rightarrow> 's shard \<Rightarrow> lookup_err + bool" where
  "documentVisibleInProjectionLenient db reads txID docName st =
     (case ContainsDocumentLenient db (projectionResolver st) reads txID docName of
        Inl e \<Rightarrow> Inl (mapProjectionResolutionError e)
      | Inr visible \<Rightarrow> Inr visible)"

text \<open>The loop of \<open>duplicateDocumentEntry\<close>: a second Document of the name is corruption.\<close>

fun find_single :: "bytes \<Rightarrow> ResolvedDocument option \<Rightarrow> ResolvedDocument list \<Rightarrow> lookup_err + ResolvedDocument option" where
  "find_single docName found [] = Inr found"
| "find_single docName found (d # docs) =
     (if DocName (rdEntry d) = docName then (if found \<noteq> None then Inl LookupCorruptDuplicate else find_single docName (Some d) docs)
      else find_single docName found docs)"

definition duplicateDocumentEntry :: "'s pebble \<Rightarrow> (nat \<Rightarrow> io_outcome list) \<Rightarrow> bytes \<Rightarrow> bytes \<Rightarrow> 's shard \<Rightarrow> lookup_err + ResolvedDocument option" where
  "duplicateDocumentEntry db reads txID docName st =
     (case ListDocuments db (projectionResolver st) reads txID of
        Inl e \<Rightarrow> Inl (mapProjectionResolutionError e)
      | Inr docs \<Rightarrow> find_single docName None docs)"

definition findDocEntry :: "'s pebble \<Rightarrow> (nat \<Rightarrow> io_outcome list) \<Rightarrow> bytes \<Rightarrow> bytes \<Rightarrow> 's shard \<Rightarrow> lookup_err + ResolvedDocument" where
  "findDocEntry db reads txID docName st =
     (case ResolveDocument db (projectionResolver st) reads txID docName of
        Inl e \<Rightarrow> Inl (mapProjectionResolutionError e)
      | Inr d \<Rightarrow> Inr d)"

section \<open>Write attempts\<close>

definition prepPath :: "bytes \<Rightarrow> bytes" where
  "prepPath writeID = writeID @ prepSuffix"

text \<open>\<open>syncDir\<close>: opening, syncing and closing a directory.\<close>

definition syncDir :: "'c dirfs \<Rightarrow> bool \<times> 'c dirfs" where
  "syncDir d =
     (case next_ok d of (opened, d1) \<Rightarrow>
        if \<not> opened then (False, d1)
        else case next_ok d1 of (flushed, d2) \<Rightarrow> case next_ok d2 of (closed, d3) \<Rightarrow> (flushed \<and> closed, d3))"

text \<open>
  \<open>writePrepFile\<close>: \<open>marshals\<close> says whether \<open>proto.Marshal\<close> encodes the record. Creating the file leaves an empty record, which decodes to the zero message; \<open>torn\<close> is
  what the bytes of an interrupted write decode to. Then the sync and the close of the file, and the
  sync of the directory.
\<close>

definition zero_prep :: OpenlogEntry where
  "zero_prep = \<lparr>olTransactionId = [], olDocumentName = [], olBlockId = 0, olStartOffset = 0, olContentType = [], olIdempotencyKey = []\<rparr>"

definition writePrepFile :: "(OpenlogEntry \<Rightarrow> bool) \<Rightarrow> OpenlogEntry option \<Rightarrow> bytes \<Rightarrow> OpenlogEntry \<Rightarrow> OpenlogEntry option dirfs \<Rightarrow> bool \<times> OpenlogEntry option dirfs" where
  "writePrepFile marshals torn writeID entry d =
     (if \<not> marshals entry then (False, d)
      else case next_ok d of (created, d1) \<Rightarrow>
        if \<not> created then (False, d1)
        else case next_ok (d1\<lparr>dfiles := (dfiles d1)(prepPath writeID \<mapsto> Some zero_prep)\<rparr>) of (wrote, d2) \<Rightarrow>
          if \<not> wrote then (False, d2\<lparr>dfiles := (dfiles d2)(prepPath writeID \<mapsto> torn)\<rparr>)
          else case next_ok (d2\<lparr>dfiles := (dfiles d2)(prepPath writeID \<mapsto> Some entry)\<rparr>) of (flushed, d3) \<Rightarrow>
            if \<not> flushed then (False, d3)
            else case next_ok d3 of (closed, d4) \<Rightarrow> if \<not> closed then (False, d4) else syncDir d4)"

record openlogWriteAttemptConfig =
  wcTxID :: bytes
  wcDocName :: bytes
  wcContentType :: bytes
  wcIdempotencyKey :: bytes
  wcBlockID :: u64
  wcStartOffset :: int

record openlogWriteAttempt =
  waWriteID :: bytes
  waEntry :: OpenlogEntry
  waPrepCleanupDone :: bool

datatype attempt_err = NegativeStartOffset int | WritePrepFailed

definition attempt_entry :: "openlogWriteAttemptConfig \<Rightarrow> OpenlogEntry" where
  "attempt_entry cfg =
     \<lparr>olTransactionId = wcTxID cfg, olDocumentName = wcDocName cfg, olBlockId = wcBlockID cfg,
      olStartOffset = of_int (wcStartOffset cfg), olContentType = wcContentType cfg, olIdempotencyKey = wcIdempotencyKey cfg\<rparr>"

text \<open>\<open>beginOpenlogWriteAttempt\<close> with the identifier \<open>ulid.New()\<close> returned.\<close>

definition beginOpenlogWriteAttempt ::
  "(OpenlogEntry \<Rightarrow> bool) \<Rightarrow> OpenlogEntry option \<Rightarrow> bytes \<Rightarrow> openlogWriteAttemptConfig \<Rightarrow> OpenlogEntry option dirfs \<Rightarrow> (attempt_err + openlogWriteAttempt) \<times> OpenlogEntry option dirfs" where
  "beginOpenlogWriteAttempt marshals torn writeID cfg d =
     (if wcStartOffset cfg < 0 then (Inl (NegativeStartOffset (wcStartOffset cfg)), d)
      else let entry = attempt_entry cfg in
        case writePrepFile marshals torn writeID entry d of (ok, d1) \<Rightarrow>
          (if \<not> ok then Inl WritePrepFailed else Inr \<lparr>waWriteID = writeID, waEntry = entry, waPrepCleanupDone = False\<rparr>, d1))"

definition cleanupOnAbort :: "openlogWriteAttempt \<Rightarrow> OpenlogEntry option dirfs \<Rightarrow> openlogWriteAttempt \<times> OpenlogEntry option dirfs" where
  "cleanupOnAbort a d =
     (if waPrepCleanupDone a then (a, d) else (a\<lparr>waPrepCleanupDone := True\<rparr>, snd (os_Remove (prepPath (waWriteID a)) d)))"

definition complete :: "openlogWriteAttempt \<Rightarrow> OpenlogEntry option dirfs \<Rightarrow> openlogWriteAttempt \<times> OpenlogEntry option dirfs" where
  "complete a d = (a\<lparr>waPrepCleanupDone := True\<rparr>, snd (os_Remove (prepPath (waWriteID a)) d))"

definition commitCommand :: "openlogWriteAttempt \<Rightarrow> AppendResult \<Rightarrow> int \<Rightarrow> bytes \<Rightarrow> CommitDocument" where
  "commitCommand a result createdAt envelope =
     (let e = waEntry a in
      \<lparr>cdTransactionId = olTransactionId e, cdDocumentName = olDocumentName e, cdContentType = olContentType e, cdIdempotencyKey = olIdempotencyKey e,
       cdBlockId = olBlockId e, cdFirstFrameOff = of_nat (resFirstFrameOffset result), cdFrameCount = resFrameCount result, cdTotalBytes = resSize result,
       cdSha256 = resSHA256 result, cdCreatedAtUs = time_to_UnixMicro createdAt, cdEncryptionEnvelope = envelope, cdProposalId = waWriteID a\<rparr>)"

section \<open>Recovery\<close>

record openlogTruncationCandidate =
  tcPrepName :: bytes
  tcTxID :: bytes
  tcDocName :: bytes
  tcBlockID :: u64
  tcStartOffset :: int

datatype openlog_err =
    OpenlogReadDir
  | PrepRead bytes
  | PrepUnmarshal bytes
  | PrepOffsetOverflow bytes u64
  | PrepResolve bytes lookup_err
  | InspectBlockIndex u64 open_err
  | TruncateBlock u64
  | SyncTruncated

text \<open>The outcomes of the file operations of one decision: the two lookups, the Block's index, the truncation and the sync of its directory.\<close>

record recover_env =
  reLenient :: "nat \<Rightarrow> io_outcome list"
  reList :: "nat \<Rightarrow> io_outcome list"
  reIndex :: "io_outcome list"
  reTruncate :: "io_outcome list"
  reSyncDir :: "bool list"

definition prepIsCommittedInstance :: "'s pebble \<Rightarrow> recover_env \<Rightarrow> openlogTruncationCandidate \<Rightarrow> 's shard \<Rightarrow> lookup_err + bool" where
  "prepIsCommittedInstance db env c st =
     (case documentVisibleInProjectionLenient db (reLenient env) (tcTxID c) (tcDocName c) st of
        Inl e \<Rightarrow> Inl e
      | Inr visible \<Rightarrow>
          if \<not> visible then Inr False
          else case duplicateDocumentEntry db (reList env) (tcTxID c) (tcDocName c) st of
            Inl e \<Rightarrow> Inl e
          | Inr None \<Rightarrow> Inr False
          | Inr (Some d) \<Rightarrow> Inr (rdBlockID d = tcBlockID c \<and> FirstFrameOff (rdEntry d) = tcStartOffset c))"

definition recoverPrepFile ::
  "'s pebble \<Rightarrow> recover_env \<Rightarrow> bytes \<Rightarrow> 's shard \<Rightarrow> (openlog_err + openlogTruncationCandidate option) \<times> 's shard" where
  "recoverPrepFile db env name st =
     (case next_ok (shOpenlog st) of (ok, d) \<Rightarrow>
        let st1 = st\<lparr>shOpenlog := d\<rparr> in
        case (if ok then dfiles d name else None) of
          None \<Rightarrow> (Inl (PrepRead name), st1)
        | Some None \<Rightarrow> (Inl (PrepUnmarshal name), st1)
        | Some (Some entry) \<Rightarrow>
            if int (unat (olStartOffset entry)) > MaxInt64 then (Inl (PrepOffsetOverflow name (olStartOffset entry)), st1)
            else let c = \<lparr>tcPrepName = name, tcTxID = olTransactionId entry, tcDocName = olDocumentName entry, tcBlockID = olBlockId entry,
                          tcStartOffset = safeUint64ToInt64 (olStartOffset entry)\<rparr> in
              case prepIsCommittedInstance db env c st1 of
                Inl e \<Rightarrow> (Inl (PrepResolve name e), st1)
              | Inr True \<Rightarrow> (Inr None, st1\<lparr>shOpenlog := snd (os_Remove name d)\<rparr>)
              | Inr False \<Rightarrow> (Inr (Some c), st1))"

fun recover_preps ::
  "'s pebble \<Rightarrow> (nat \<Rightarrow> recover_env) \<Rightarrow> nat \<Rightarrow> bytes list \<Rightarrow> 's shard \<Rightarrow> (openlog_err + openlogTruncationCandidate list) \<times> 's shard" where
  "recover_preps db env k [] st = (Inr [], st)"
| "recover_preps db env k (name # names) st =
     (case recoverPrepFile db (env k) name st of
        (Inl e, st1) \<Rightarrow> (Inl e, st1)
      | (Inr c, st1) \<Rightarrow>
          (case recover_preps db env (Suc k) names st1 of
             (Inl e, st2) \<Rightarrow> (Inl e, st2)
           | (Inr cs, st2) \<Rightarrow> (Inr (case c of None \<Rightarrow> cs | Some x \<Rightarrow> x # cs), st2)))"

definition recoverOpenlog ::
  "'s pebble \<Rightarrow> (nat \<Rightarrow> recover_env) \<Rightarrow> dir_listing \<Rightarrow> 's shard \<Rightarrow> (openlog_err + openlogTruncationCandidate list) \<times> 's shard" where
  "recoverOpenlog db env listing st =
     (case listing of DirMissing \<Rightarrow> (Inr [], st)
      | DirUnreadable \<Rightarrow> (Inl OpenlogReadDir, st)
      | DirNames names \<Rightarrow> recover_preps db env 0 (sort (filter (\<lambda>n. HasSuffix n prepSuffix) names)) st)"

text \<open>\<open>blockIndexHasEntryAtOrPast\<close> of \<open>replication.go\<close>.\<close>

definition blockIndexHasEntryAtOrPast :: "io_outcome list \<Rightarrow> u64 \<Rightarrow> int \<Rightarrow> 's shard \<Rightarrow> open_err + bool" where
  "blockIndexHasEntryAtOrPast sched blockID wantOffset st =
     (case open_index (idx_content st) sched blockID of
        Inl IdxNotExist \<Rightarrow> Inr False
      | Inl e \<Rightarrow> Inl e
      | Inr es \<Rightarrow> Inr (list_ex (\<lambda>e. wantOffset \<le> FirstFrameOff e) es))"

text \<open>\<open>truncateFile\<close> on the file at the path, if there is one; the stat and the close are outcomes only.\<close>

definition truncateFile :: "io_outcome list \<Rightarrow> int \<Rightarrow> bytes option \<Rightarrow> bool \<times> bytes option" where
  "truncateFile sched n content =
     (case file_Open (case content of None \<Rightarrow> [] | Some c \<Rightarrow> c) sched of (opened, f) \<Rightarrow>
        if \<not> opened then (False, content)
        else if content = None then (True, None)
        else case file_Sync f of (statted, f1) \<Rightarrow>
          if \<not> statted then (False, content)
          else if int (length (fdata f1)) \<le> n then (fst (file_Sync f1), content)
          else case (if n < 0 then (False, f1) else file_Truncate (nat n) f1) of (shrunk, f2) \<Rightarrow>
            case (if shrunk then file_Sync f2 else (False, f2)) of (flushed, f3) \<Rightarrow>
              (flushed \<and> fst (file_Sync f3), Some (fdata f3)))"

definition resolveOpenlogTruncation :: "'s pebble \<Rightarrow> recover_env \<Rightarrow> openlogTruncationCandidate \<Rightarrow> 's shard \<Rightarrow> openlog_err option \<times> 's shard" where
  "resolveOpenlogTruncation db env c st =
     (case os_Stat (tcPrepName c) (shOpenlog st) of (stat, d) \<Rightarrow>
        let st1 = st\<lparr>shOpenlog := d\<rparr>; done = (\<lambda>s. s\<lparr>shOpenlog := snd (os_Remove (tcPrepName c) d)\<rparr>) in
        if stat = StatNotExist then (None, st1)
        else case prepIsCommittedInstance db env c st1 of
          Inl e \<Rightarrow> (Some (PrepResolve (tcPrepName c) e), st1)
        | Inr True \<Rightarrow> (None, done st1)
        | Inr False \<Rightarrow>
            (case blockIndexHasEntryAtOrPast (reIndex env) (tcBlockID c) (tcStartOffset c) st1 of
               Inl e \<Rightarrow> (Some (InspectBlockIndex (tcBlockID c) e), st1)
             | Inr True \<Rightarrow> (None, st1)
             | Inr False \<Rightarrow>
                 (case truncateFile (reTruncate env) (tcStartOffset c) (shBlkFiles st1 (tcBlockID c)) of (ok, content) \<Rightarrow>
                    let st2 = st1\<lparr>shBlkFiles := (shBlkFiles st1)(tcBlockID c := content)\<rparr> in
                    if \<not> ok then (Some (TruncateBlock (tcBlockID c)), st2)
                    else if \<not> fst (syncDir \<lparr>dfiles = Map.empty, dsched = reSyncDir env\<rparr> :: bool \<times> unit dirfs) then (Some SyncTruncated, st2)
                    else (None, done st2))))"

fun resolveOpenlogTruncations ::
  "'s pebble \<Rightarrow> (nat \<Rightarrow> recover_env) \<Rightarrow> nat \<Rightarrow> openlogTruncationCandidate list \<Rightarrow> 's shard \<Rightarrow> openlog_err option \<times> 's shard" where
  "resolveOpenlogTruncations db env k [] st = (None, st)"
| "resolveOpenlogTruncations db env k (c # cs) st =
     (case resolveOpenlogTruncation db (env k) c st of
        (Some e, st1) \<Rightarrow> (Some e, st1)
      | (None, st1) \<Rightarrow> resolveOpenlogTruncations db env (Suc k) cs st1)"

text \<open>\<open>removeOverhangPreps\<close>, after a replica gave up the bytes past \<open>wantOffset\<close>.\<close>

definition removeOverhangPrep :: "u64 \<Rightarrow> int \<Rightarrow> bytes \<Rightarrow> OpenlogEntry option dirfs \<Rightarrow> OpenlogEntry option dirfs" where
  "removeOverhangPrep blockID wantOffset name d =
     (case read_prep name d of
        (None, d1) \<Rightarrow> d1
      | (Some e, d1) \<Rightarrow> if olBlockId e \<noteq> blockID \<or> safeUint64ToInt64 (olStartOffset e) < wantOffset then d1 else snd (os_Remove name d1))"

definition removeOverhangPreps :: "bytes list option \<Rightarrow> u64 \<Rightarrow> int \<Rightarrow> OpenlogEntry option dirfs \<Rightarrow> OpenlogEntry option dirfs" where
  "removeOverhangPreps listing blockID wantOffset d =
     (case listing of None \<Rightarrow> d
      | Some names \<Rightarrow> fold (removeOverhangPrep blockID wantOffset) (filter (\<lambda>n. HasSuffix n prepSuffix) names) d)"

section \<open>What a decision changes\<close>

lemma hasEntry_none:
  assumes "holds F st" and "blockIndexHasEntryAtOrPast sched b off st = Inr False" and "F b = Some es" and "e \<in> set es"
  shows "FirstFrameOff e < off"
proof -
  have ix: "indexed (idx_content st) F" using assms(1) by (simp add: holds_def)
  have "idx_content st b \<noteq> None" using holds_content [OF assms(1), of b] assms(3) by simp
  then have "open_index (idx_content st) sched b \<noteq> Inl IdxNotExist" by (auto simp: open_index_def split: option.splits sum.splits)
  then obtain es' where "open_index (idx_content st) sched b = Inr es'" "list_ex (\<lambda>e. off \<le> FirstFrameOff e) es' = False"
    using assms(2) by (auto simp: blockIndexHasEntryAtOrPast_def split: sum.splits open_err.splits)
  then show ?thesis using open_index_indexed(2) [OF ix] assms(3,4) by (fastforce simp: list_ex_iff)
qed

lemma file_Open_data: "file_Open bs os = (ok, f) \<Longrightarrow> fdata f = bs"
  by (auto simp: file_Open_def dest: next_outcome_data split: prod.splits)

lemma file_Sync_data: "file_Sync f = (ok, f') \<Longrightarrow> fdata f' = fdata f"
  by (auto simp: file_Sync_def dest: next_outcome_data split: prod.splits)

lemma file_Truncate_data: "file_Truncate n f = (ok, f') \<Longrightarrow> n \<le> length (fdata f) \<Longrightarrow> fdata f' = fdata f \<or> fdata f' = take n (fdata f)"
  by (auto simp: file_Truncate_def dest: next_outcome_data split: prod.splits if_splits)

lemma truncateFile_cases:
  assumes "truncateFile sched n content = (ok, content')"
  shows "content' = content \<or> (\<exists>c. content = Some c \<and> 0 \<le> n \<and> n < int (length c) \<and> content' = Some (take (nat n) c))"
proof (cases content)
  case (Some c)
  obtain ok1 f where f: "file_Open c sched = (ok1, f)" by (metis surj_pair)
  obtain ok2 f1 where f1: "file_Sync f = (ok2, f1)" by (metis surj_pair)
  obtain ok3 f2 where f2: "(if n < 0 then (False, f1) else file_Truncate (nat n) f1) = (ok3, f2)" by (metis surj_pair)
  obtain ok4 f3 where f3: "(if ok3 then file_Sync f2 else (False, f2)) = (ok4, f3)" by (metis surj_pair)
  have d: "fdata f1 = c" "fdata f3 = fdata f2"
    using file_Open_data [OF f] file_Sync_data [OF f1] f3 file_Sync_data [of f2 ok4 f3] by (auto split: if_splits)
  have "fdata f2 = c \<or> 0 \<le> n \<and> fdata f2 = take (nat n) c" if "n < int (length c)"
    using f2 d(1) that file_Truncate_data [of "nat n" f1 ok3 f2] by (auto split: if_splits)
  moreover have "content' = (if ok1 \<and> ok2 \<and> n < int (length c) then Some (fdata f2) else content)"
    using assms d unfolding truncateFile_def Some option.case f prod.case f1 f2 f3 by (auto split: if_splits)
  ultimately show ?thesis using Some by auto
qed (use assms in \<open>auto simp: truncateFile_def split: prod.splits if_splits\<close>)

text \<open>The Projection and the index files, which recovery only reads.\<close>

definition same_index :: "'s shard \<Rightarrow> 's shard \<Rightarrow> bool" where
  "same_index st st' \<longleftrightarrow> shOutbox st' = shOutbox st \<and> shIdxNil st' = shIdxNil st \<and> shIdxFiles st' = shIdxFiles st \<and> shOpen st' = shOpen st"

lemma same_index_holds: "same_index st st' \<Longrightarrow> holds F st' = holds F st"
proof -
  assume s: "same_index st st'"
  have "idx_content st' = idx_content st" by (rule ext) (use s in \<open>simp add: idx_content_def same_index_def split: option.splits\<close>)
  then show ?thesis using s by (simp add: holds_def same_index_def)
qed

lemma prefix_option_trans: "rel_option prefix x y \<Longrightarrow> rel_option prefix y z \<Longrightarrow> rel_option prefix x z"
  by (cases x; cases y; cases z) auto

lemma resolve_cases:
  assumes "resolveOpenlogTruncation db env c st = (err, st')" and "holds F st"
  shows "same_index st st' \<and>
    (shBlkFiles st' = shBlkFiles st \<or>
     (\<exists>content. shBlkFiles st (tcBlockID c) = Some content \<and> 0 \<le> tcStartOffset c \<and> tcStartOffset c < int (length content) \<and>
        shBlkFiles st' = (shBlkFiles st)(tcBlockID c \<mapsto> take (nat (tcStartOffset c)) content) \<and>
        (\<forall>es e. F (tcBlockID c) = Some es \<and> e \<in> set es \<longrightarrow> FirstFrameOff e < tcStartOffset c)))"
proof -
  obtain stat d where d: "os_Stat (tcPrepName c) (shOpenlog st) = (stat, d)" by (metis surj_pair)
  let ?st = "st\<lparr>shOpenlog := d\<rparr>"
  have h: "holds F ?st" using assms(2) same_index_holds [of st ?st F] by (simp add: same_index_def)
  obtain ok content where t: "truncateFile (reTruncate env) (tcStartOffset c) (shBlkFiles st (tcBlockID c)) = (ok, content)" by (metis surj_pair)
  have none: "\<forall>es e. F (tcBlockID c) = Some es \<and> e \<in> set es \<longrightarrow> FirstFrameOff e < tcStartOffset c"
    if "blockIndexHasEntryAtOrPast (reIndex env) (tcBlockID c) (tcStartOffset c) ?st = Inr False"
    using hasEntry_none [OF h that] by blast
  have same: "same_index st st'"
    using assms(1) d t by (auto simp: resolveOpenlogTruncation_def same_index_def Let_def split: if_splits sum.splits bool.splits)
  have "shBlkFiles st' = shBlkFiles st \<or> blockIndexHasEntryAtOrPast (reIndex env) (tcBlockID c) (tcStartOffset c) ?st = Inr False \<and> shBlkFiles st' = (shBlkFiles st)(tcBlockID c := content)"
    using assms(1) d t by (auto simp: resolveOpenlogTruncation_def Let_def split: if_splits sum.splits bool.splits)
  then show ?thesis using same none truncateFile_cases [OF t] by (auto simp: fun_upd_idem)
qed

lemma slice_kept: "off + n \<le> m \<Longrightarrow> take n (drop off (take m xs)) = take n (drop off xs)"
  by (simp add: drop_take min_def)

text \<open>No decision cuts the \<open>n\<close> bytes from the start of an indexed Document, unless its offset lies strictly inside them.\<close>

definition clear_of :: "u64 \<Rightarrow> IndexEntry \<Rightarrow> nat \<Rightarrow> openlogTruncationCandidate \<Rightarrow> bool" where
  "clear_of b e n c \<longleftrightarrow> tcBlockID c = b \<longrightarrow> tcStartOffset c \<le> FirstFrameOff e \<or> FirstFrameOff e + int n \<le> tcStartOffset c"

definition document_bytes :: "'s shard \<Rightarrow> u64 \<Rightarrow> IndexEntry \<Rightarrow> nat \<Rightarrow> bytes option" where
  "document_bytes st b e n = map_option (\<lambda>content. take n (drop (nat (FirstFrameOff e)) content)) (shBlkFiles st b)"

lemma resolve_keeps_document:
  assumes "resolveOpenlogTruncation db env c st = (err, st')" and "holds F st" and "F b = Some es" "e \<in> set es" and "clear_of b e n c" and "0 \<le> FirstFrameOff e"
  shows "document_bytes st' b e n = document_bytes st b e n"
proof -
  consider "shBlkFiles st' = shBlkFiles st"
    | content where "shBlkFiles st (tcBlockID c) = Some content" "shBlkFiles st' = (shBlkFiles st)(tcBlockID c \<mapsto> take (nat (tcStartOffset c)) content)"
        "\<forall>es e. F (tcBlockID c) = Some es \<and> e \<in> set es \<longrightarrow> FirstFrameOff e < tcStartOffset c"
    using resolve_cases [OF assms(1,2)] by blast
  then show ?thesis
  proof cases
    case 2
    show ?thesis
    proof (cases "tcBlockID c = b")
      case True
      then have "FirstFrameOff e < tcStartOffset c" using 2(3) assms(3,4) by blast
      then have "FirstFrameOff e + int n \<le> tcStartOffset c" using assms(5) True unfolding clear_of_def by simp
      then have "nat (FirstFrameOff e) + n \<le> nat (tcStartOffset c)" using assms(6) by linarith
      then show ?thesis using 2(1,2) True slice_kept by (simp add: document_bytes_def)
    qed (use 2(2) in \<open>simp add: document_bytes_def\<close>)
  qed (simp add: document_bytes_def)
qed

text \<open>The decisions one after the other.\<close>

lemma resolve_steps [consumes 2, case_names none step stop]:
  assumes "resolveOpenlogTruncations db env k cs st = (err, st')" and "holds F st"
    and none: "\<And>st. P [] st st"
    and step: "\<And>c cs k e1 st st1 st2. resolveOpenlogTruncation db (env k) c st = (e1, st1) \<Longrightarrow> holds F st \<Longrightarrow> P cs st1 st2 \<Longrightarrow> P (c # cs) st st2"
    and stop: "\<And>c cs k x st st1. resolveOpenlogTruncation db (env k) c st = (Some x, st1) \<Longrightarrow> holds F st \<Longrightarrow> P (c # cs) st st1"
  shows "P cs st st'"
  using assms(1,2)
proof (induction cs arbitrary: k st)
  case Nil
  then show ?case using none by simp
next
  case (Cons c cs)
  obtain e1 st1 where r: "resolveOpenlogTruncation db (env k) c st = (e1, st1)" by (metis surj_pair)
  have h1: "holds F st1" using resolve_cases [OF r Cons.prems(2)] same_index_holds Cons.prems(2) by blast
  show ?case
  proof (cases e1)
    case None
    then show ?thesis using step [OF r Cons.prems(2)] Cons.IH [OF _ h1] Cons.prems(1) r by simp
  next
    case (Some x)
    then have "st' = st1" using Cons.prems(1) r by simp
    then show ?thesis using stop [OF r [unfolded Some] Cons.prems(2)] by simp
  qed
qed

lemma recovery_index: "resolveOpenlogTruncations db env k cs st = (err, st') \<Longrightarrow> holds F st \<Longrightarrow> same_index st st'"
proof (induction rule: resolve_steps)
  case (step c cs k e1 st st1 st2)
  then show ?case using resolve_cases [OF step(1,2)] by (simp add: same_index_def)
next
  case (stop c cs k x st st1)
  then show ?case using resolve_cases [OF stop(1,2)] by simp
qed (simp add: same_index_def)

lemma resolve_shrinks:
  assumes "resolveOpenlogTruncation db env c st = (err, st1)" and "holds F st"
  shows "rel_option prefix (shBlkFiles st1 b) (shBlkFiles st b)"
  using resolve_cases [OF assms] by (auto simp: option.rel_refl take_is_prefix)

lemma recovery_shrinks: "resolveOpenlogTruncations db env k cs st = (err, st') \<Longrightarrow> holds F st \<Longrightarrow> rel_option prefix (shBlkFiles st' b) (shBlkFiles st b)"
proof (induction rule: resolve_steps)
  case (step c cs k e1 st st1 st2)
  then show ?case using resolve_shrinks [OF step(1,2), of b] prefix_option_trans by blast
next
  case (stop c cs k x st st1)
  then show ?case using resolve_shrinks by blast
qed (simp add: option.rel_refl)

lemma recovery_documents:
  assumes "resolveOpenlogTruncations db env k cs st = (err, st')" "holds F st" and e: "F b = Some es" "e \<in> set es" "0 \<le> FirstFrameOff e"
  shows "list_all (clear_of b e n) cs \<Longrightarrow> document_bytes st' b e n = document_bytes st b e n"
  using assms(1,2)
proof (induction rule: resolve_steps)
  case (step c cs k e1 st st1 st2)
  then show ?case using resolve_keeps_document [OF step(1,2) e(1,2) _ e(3)] by simp
next
  case (stop c cs k x st st1)
  then show ?case using resolve_keeps_document [OF stop(1,2) e(1,2) _ e(3)] by simp
qed simp

section \<open>Decisions without faults\<close>

text \<open>The Transaction is complete and names no Document twice.\<close>

definition tx_consistent :: "(u64 \<rightharpoonup> IndexEntry list) \<Rightarrow> (bytes \<rightharpoonup> Entry) \<Rightarrow> bytes \<Rightarrow> bool" where
  "tx_consistent F M t \<longleftrightarrow> (\<forall>e. M t = Some e \<longrightarrow>
     BlockIDs e \<noteq> [] \<and> (\<forall>b \<in> set (BlockIDs e). tx_entries F t b \<noteq> []) \<and> length (tx_docs F t (BlockIDs e)) = unat (DocCount e) \<and>
     distinct (map (\<lambda>d. DocName (rdEntry d)) (tx_docs F t (BlockIDs e))))"

definition calm_recover :: recover_env where
  "calm_recover = \<lparr>reLenient = \<lambda>_. [], reList = \<lambda>_. [], reIndex = [], reTruncate = [], reSyncDir = []\<rparr>"

lemma find_single_found: "name \<notin> (\<lambda>d. DocName (rdEntry d)) ` set ds \<Longrightarrow> find_single name found ds = Inr found"
  by (induction ds) auto

lemma find_single_distinct:
  "distinct (map (\<lambda>d. DocName (rdEntry d)) ds) \<Longrightarrow> find_single name None ds = Inr (find (\<lambda>d. DocName (rdEntry d) = name) ds)"
  by (induction ds) (auto simp: find_single_found)

lemma lenient_blocks_total: "blockIndexPath r = Some files \<Longrightarrow> \<exists>v. lenient_blocks r reads t n k ids = Inr v"
  by (induction ids arbitrary: k) (auto simp: blockContainsDocumentLenient_def split: sum.splits bool.splits)

lemma tx_docs_block: "d \<in> set (tx_docs F t ids) \<Longrightarrow> \<exists>es. F (rdBlockID d) = Some es \<and> rdEntry d \<in> set es"
  by (induction ids) (auto simp: tx_entries_def split: option.splits dest: sym)

lemma prep_calm:
  assumes pb: "pebble_ok contents db" "pebble_total db" and h: "holds F st" "\<not> shIdxNil st" "store_ok J contents (shIndex st)"
    and tx: "tx_consistent F (entries contents (shIndex st)) (tcTxID c)"
  shows "\<exists>r. prepIsCommittedInstance db calm_recover c st = Inr r \<and>
    (r \<longrightarrow> (\<exists>es e. F (tcBlockID c) = Some es \<and> e \<in> set es \<and> FirstFrameOff e = tcStartOffset c))"
proof (cases "entries contents (shIndex st) (tcTxID c)")
  case None
  have "Index_Get db (tcTxID c) (shIndex st) = Inl ErrNotFound" using Index_Get_store [OF pb h(3), of "tcTxID c"] None by simp
  then have "prepIsCommittedInstance db calm_recover c st = Inr False" using h(2)
    by (simp add: prepIsCommittedInstance_def documentVisibleInProjectionLenient_def ContainsDocumentLenient_def transactionEntry_def projectionResolver_def)
  then show ?thesis by blast
next
  case (Some e)
  have t: "BlockIDs e \<noteq> []" "\<forall>b \<in> set (BlockIDs e). tx_entries F (tcTxID c) b \<noteq> []"
      "length (tx_docs F (tcTxID c) (BlockIDs e)) = unat (DocCount e)" "distinct (map (\<lambda>d. DocName (rdEntry d)) (tx_docs F (tcTxID c) (BlockIDs e)))"
    using tx Some by (simp_all add: tx_consistent_def)
  have "Index_Get db (tcTxID c) (shIndex st) = Inr e" by (rule Index_Get_total [OF pb Some])
  then obtain v where v: "documentVisibleInProjectionLenient db (\<lambda>_. []) (tcTxID c) (tcDocName c) st = Inr v"
    using lenient_blocks_total [of "projectionResolver st" "idx_content st" "\<lambda>_. []" "tcTxID c" "tcDocName c" 0 "BlockIDs e"] t(1) h(2)
    by (auto simp: documentVisibleInProjectionLenient_def ContainsDocumentLenient_def transactionEntry_def projectionResolver_def)
  have l: "ListDocuments db (projectionResolver st) (\<lambda>_. []) (tcTxID c) = Inr (tx_docs F (tcTxID c) (BlockIDs e))"
    using ListDocuments_holds [OF pb h(1) Some t(1,2) h(2)] t(3) by simp
  have d: "duplicateDocumentEntry db (\<lambda>_. []) (tcTxID c) (tcDocName c) st = Inr (find (\<lambda>d. DocName (rdEntry d) = tcDocName c) (tx_docs F (tcTxID c) (BlockIDs e)))"
    using find_single_distinct [OF t(4)] l by (simp add: duplicateDocumentEntry_def)
  show ?thesis
  proof (cases "find (\<lambda>d. DocName (rdEntry d) = tcDocName c) (tx_docs F (tcTxID c) (BlockIDs e))")
    case None
    then have "prepIsCommittedInstance db calm_recover c st = Inr False" using v d by (simp add: prepIsCommittedInstance_def calm_recover_def)
    then show ?thesis by blast
  next
    case (Some doc)
    then have "doc \<in> set (tx_docs F (tcTxID c) (BlockIDs e))" by (auto simp: find_Some_iff)
    then obtain es where "F (rdBlockID doc) = Some es" "rdEntry doc \<in> set es" using tx_docs_block by blast
    then show ?thesis using v d Some by (auto simp: prepIsCommittedInstance_def calm_recover_def)
  qed
qed

lemma hasEntry_calm:
  assumes "holds F st"
  shows "blockIndexHasEntryAtOrPast [] b off st = Inr (\<exists>es e. F b = Some es \<and> e \<in> set es \<and> off \<le> FirstFrameOff e)"
proof -
  have "indexed (idx_content st) F" using assms by (simp add: holds_def)
  from open_index_indexed(1) [OF this, of b] show ?thesis by (auto simp: blockIndexHasEntryAtOrPast_def list_ex_iff split: option.splits)
qed

lemma truncateFile_calm:
  "0 \<le> n \<Longrightarrow> truncateFile [] n content = (True, map_option (take (nat n)) content)"
  by (auto simp: truncateFile_def file_Open_def file_Sync_def file_Truncate_def split: option.splits)

text \<open>What a decision without faults leaves of a candidate above which nothing is indexed: neither its record nor its bytes.\<close>

definition reclaimed :: "openlogTruncationCandidate \<Rightarrow> 's shard \<Rightarrow> bool" where
  "reclaimed c st \<longleftrightarrow> dfiles (shOpenlog st) (tcPrepName c) = None \<and> (\<forall>content. shBlkFiles st (tcBlockID c) = Some content \<longrightarrow> int (length content) \<le> tcStartOffset c)"

definition nothing_above :: "(u64 \<rightharpoonup> IndexEntry list) \<Rightarrow> openlogTruncationCandidate \<Rightarrow> bool" where
  "nothing_above F c \<longleftrightarrow> (\<forall>es e. F (tcBlockID c) = Some es \<and> e \<in> set es \<longrightarrow> FirstFrameOff e < tcStartOffset c)"

lemma resolve_calm:
  assumes "pebble_ok contents db" "pebble_total db" and h: "holds F st" "\<not> shIdxNil st" "store_ok J contents (shIndex st)"
    and "tx_consistent F (entries contents (shIndex st)) (tcTxID c)" and d: "dsched (shOpenlog st) = []" and o: "0 \<le> tcStartOffset c"
  shows "\<exists>st'. resolveOpenlogTruncation db calm_recover c st = (None, st') \<and> dsched (shOpenlog st') = [] \<and>
    dfiles (shOpenlog st') \<in> {dfiles (shOpenlog st), (dfiles (shOpenlog st))(tcPrepName c := None)} \<and> (dfiles (shOpenlog st) (tcPrepName c) \<noteq> None \<and> nothing_above F c \<longrightarrow> reclaimed c st')"
proof -
  have n: "next_ok (shOpenlog st) = (True, shOpenlog st)" using d by (simp add: next_ok_def)
  have st: "st\<lparr>shOpenlog := shOpenlog st\<rparr> = st" by simp
  obtain r where r: "prepIsCommittedInstance db calm_recover c st = Inr r" "r \<longrightarrow> (\<exists>es e. F (tcBlockID c) = Some es \<and> e \<in> set es \<and> FirstFrameOff e = tcStartOffset c)"
    using prep_calm [OF assms(1-6)] by blast
  have sync: "fst (syncDir \<lparr>dfiles = Map.empty, dsched = reSyncDir calm_recover\<rparr> :: bool \<times> unit dirfs)" by (simp add: syncDir_def next_ok_def calm_recover_def)
  have rm: "snd (os_Remove (tcPrepName c) (shOpenlog st)) = (shOpenlog st)\<lparr>dfiles := (dfiles (shOpenlog st))(tcPrepName c := None)\<rparr>"
    using n by (auto simp: os_Remove_def fun_upd_idem)
  have cut: "truncateFile (reTruncate calm_recover) (tcStartOffset c) x = (True, map_option (take (nat (tcStartOffset c))) x)" for x
    using truncateFile_calm [OF o] by (simp add: calm_recover_def)
  have has: "blockIndexHasEntryAtOrPast (reIndex calm_recover) (tcBlockID c) (tcStartOffset c) st = Inr (\<not> nothing_above F c)"
    using hasEntry_calm [OF h(1)] by (auto simp: calm_recover_def nothing_above_def not_less)
  consider (gone) "dfiles (shOpenlog st) (tcPrepName c) = None" | (committed) "dfiles (shOpenlog st) (tcPrepName c) \<noteq> None" r
    | (above) "dfiles (shOpenlog st) (tcPrepName c) \<noteq> None" "\<not> r" "\<not> nothing_above F c" | (orphan) "dfiles (shOpenlog st) (tcPrepName c) \<noteq> None" "\<not> r" "nothing_above F c"
    by blast
  then show ?thesis
  proof cases
    case gone
    then show ?thesis using n d st by (simp add: resolveOpenlogTruncation_def os_Stat_def)
  next
    case committed
    then have "\<not> nothing_above F c" using r(2) unfolding nothing_above_def by force
    then show ?thesis using committed n r(1) rm d by (auto simp: resolveOpenlogTruncation_def os_Stat_def)
  next
    case above
    then show ?thesis using n r(1) has d st by (simp add: resolveOpenlogTruncation_def os_Stat_def)
  next
    case orphan
    then show ?thesis using n r(1) has d rm cut sync o
      by (auto simp: resolveOpenlogTruncation_def os_Stat_def Let_def reclaimed_def)
  qed
qed

lemma reclaimed_kept:
  assumes "reclaimed c st" and "\<forall>x. dfiles (shOpenlog st) x = None \<longrightarrow> dfiles (shOpenlog st') x = None"
    and "rel_option prefix (shBlkFiles st' (tcBlockID c)) (shBlkFiles st (tcBlockID c))"
  shows "reclaimed c st'"
proof -
  have "int (length content') \<le> tcStartOffset c" if c: "shBlkFiles st' (tcBlockID c) = Some content'" for content'
  proof -
    obtain content where "shBlkFiles st (tcBlockID c) = Some content" "prefix content' content"
      using assms(3) c by (cases "shBlkFiles st (tcBlockID c)") auto
    then show ?thesis using assms(1) prefix_length_le [of content' content] by (fastforce simp: reclaimed_def)
  qed
  then show ?thesis using assms(1,2) by (simp add: reclaimed_def)
qed

section \<open>Properties\<close>

text \<open>
  C3: openlog recovery never cuts a committed Document. Whatever fails, the truncations of phase B leave
  the Projection and the index files alone and only ever shorten Block files; and the bytes of every
  Document an index names are the same before and after, provided that no preparation record starts
  strictly inside them.
\<close>

theorem openlog_recovery_safe:
  assumes "holds F st" and "resolveOpenlogTruncations db env k cs st = (err, st')"
  shows "same_index st st' \<and>
    (\<forall>b. rel_option prefix (shBlkFiles st' b) (shBlkFiles st b)) \<and>
    (\<forall>b es e n. F b = Some es \<and> e \<in> set es \<and> 0 \<le> FirstFrameOff e \<and> list_all (clear_of b e n) cs \<longrightarrow> document_bytes st' b e n = document_bytes st b e n)"
  using recovery_index [OF assms(2,1)] recovery_shrinks [OF assms(2,1)] recovery_documents [OF assms(2,1)] by blast

text \<open>
  C19: openlog recovery completes. Without faults, on a Projection whose Transactions are complete, phase
  B ends without error, and every candidate that still had its record, and above whose offset nothing is
  indexed, is reclaimed: its record is removed and its Block ends at or before its offset.
\<close>

theorem openlog_recovery_completes:
  assumes pb: "pebble_ok contents db" "pebble_total db" and h: "holds F st" "\<not> shIdxNil st" "store_ok J contents (shIndex st)"
    and cs: "\<forall>c \<in> set cs. tx_consistent F (entries contents (shIndex st)) (tcTxID c) \<and> 0 \<le> tcStartOffset c"
    and d: "distinct (map tcPrepName cs)" "dsched (shOpenlog st) = []"
  shows "\<exists>st'. resolveOpenlogTruncations db (\<lambda>_. calm_recover) k cs st = (None, st') \<and>
    (\<forall>c \<in> set cs. dfiles (shOpenlog st) (tcPrepName c) \<noteq> None \<and> nothing_above F c \<longrightarrow> reclaimed c st')"
proof -
  have "\<exists>st'. resolveOpenlogTruncations db (\<lambda>_. calm_recover) k cs st = (None, st') \<and> (\<forall>x. dfiles (shOpenlog st) x = None \<longrightarrow> dfiles (shOpenlog st') x = None) \<and>
      (\<forall>c \<in> set cs. dfiles (shOpenlog st) (tcPrepName c) \<noteq> None \<and> nothing_above F c \<longrightarrow> reclaimed c st')"
    using h cs d
  proof (induction cs arbitrary: k st)
    case (Cons c cs)
    have c: "tx_consistent F (entries contents (shIndex st)) (tcTxID c)" "0 \<le> tcStartOffset c" using Cons.prems(4) by simp_all
    obtain st1 where r: "resolveOpenlogTruncation db calm_recover c st = (None, st1)" "dsched (shOpenlog st1) = []"
        "dfiles (shOpenlog st1) \<in> {dfiles (shOpenlog st), (dfiles (shOpenlog st))(tcPrepName c := None)}"
        "dfiles (shOpenlog st) (tcPrepName c) \<noteq> None \<and> nothing_above F c \<longrightarrow> reclaimed c st1"
      using resolve_calm [OF pb Cons.prems(1-3) c(1) Cons.prems(6) c(2)] by blast
    have s: "same_index st st1" using resolve_cases [OF r(1) Cons.prems(1)] by simp
    have h1: "holds F st1" "\<not> shIdxNil st1" "store_ok J contents (shIndex st1)"
        "\<forall>c \<in> set cs. tx_consistent F (entries contents (shIndex st1)) (tcTxID c) \<and> 0 \<le> tcStartOffset c" "distinct (map tcPrepName cs)"
      using s same_index_holds [OF s] Cons.prems by (simp_all add: same_index_def)
    obtain st' where r': "resolveOpenlogTruncations db (\<lambda>_. calm_recover) (Suc k) cs st1 = (None, st')"
        "\<forall>x. dfiles (shOpenlog st1) x = None \<longrightarrow> dfiles (shOpenlog st') x = None"
        "\<forall>c \<in> set cs. dfiles (shOpenlog st1) (tcPrepName c) \<noteq> None \<and> nothing_above F c \<longrightarrow> reclaimed c st'"
      using Cons.IH [OF h1 r(2), of "Suc k"] by blast
    have keep: "reclaimed c st'" if "reclaimed c st1"
      using that r'(2) recovery_shrinks [OF r'(1) h1(1), of "tcBlockID c"] by (rule reclaimed_kept)
    have other: "dfiles (shOpenlog st1) (tcPrepName x) = dfiles (shOpenlog st) (tcPrepName x)" if "x \<in> set cs" for x
    proof -
      have "tcPrepName x \<in> tcPrepName ` set cs" using that by simp
      then have "tcPrepName x \<noteq> tcPrepName c" using Cons.prems(5) by auto
      then show ?thesis using r(3) by auto
    qed
    have "\<forall>x. dfiles (shOpenlog st) x = None \<longrightarrow> dfiles (shOpenlog st1) x = None" using r(3) by auto
    then show ?case using r(1,4) r' keep other by simp
  qed simp
  then show ?thesis by blast
qed

text \<open>Recovery removes the record of no name but the one it looks at.\<close>

lemma recover_preps_stuck:
  assumes "dfiles (shOpenlog st) name = Some None" and "name \<in> set names"
  shows "\<exists>e. fst (recover_preps db env k names st) = Inl e"
  using assms
proof (induction names arbitrary: k st)
  case (Cons n names)
  obtain r st1 where r: "recoverPrepFile db (env k) n st = (r, st1)" by (metis surj_pair)
  have rm: "m \<noteq> x \<Longrightarrow> dfiles (snd (os_Remove m d)) x = dfiles d x" for m x and d :: "OpenlogEntry option dirfs"
    by (auto simp: os_Remove_def next_ok_def split: list.splits)
  have f: "dfiles (shOpenlog st1) name = Some None \<and> n \<noteq> name \<or> (\<exists>e. r = Inl e)"
    using r Cons.prems(1) rm [of n name] by (cases "n = name") (auto simp: recoverPrepFile_def Let_def dest!: next_ok_same split: prod.splits option.splits if_splits sum.splits bool.splits)
  show ?case
  proof (cases r)
    case (Inl e)
    then show ?thesis using r by simp
  next
    case (Inr c)
    then have "dfiles (shOpenlog st1) name = Some None" "name \<in> set names" using f Cons.prems(2) by auto
    from Cons.IH [OF this, of "Suc k"] show ?thesis using r Inr by (auto split: prod.splits sum.splits)
  qed
qed simp

text \<open>
  C28: a torn preparation record stops the Shard from starting. When the only write of the record fails
  part-way, leaving bytes that do not decode, the attempt is given up and the record stays. Every
  later recovery over a directory that lists it fails.
\<close>

theorem torn_prep_blocks_start:
  assumes "0 \<le> wcStartOffset cfg" and "dsched d = True # False # sched" and "marshals (attempt_entry cfg)" and "shOpenlog st = snd (beginOpenlogWriteAttempt marshals None writeID cfg d)"
    and "prepPath writeID \<in> set names"
  shows "fst (beginOpenlogWriteAttempt marshals None writeID cfg d) = Inl WritePrepFailed \<and> (\<exists>e. fst (recoverOpenlog db env (DirNames names) st) = Inl e)"
proof -
  have w: "writePrepFile marshals None writeID (attempt_entry cfg) d = (False, \<lparr>dfiles = (dfiles d)(prepPath writeID \<mapsto> None), dsched = sched\<rparr>)"
    using assms(2,3) by (simp add: writePrepFile_def next_ok_def)
  then have "dfiles (shOpenlog st) (prepPath writeID) = Some None" using assms(1,4) by (simp add: beginOpenlogWriteAttempt_def Let_def)
  moreover have "prepPath writeID \<in> set (sort (filter (\<lambda>n. HasSuffix n prepSuffix) names))" using assms(5) by (simp add: prepPath_def)
  ultimately have "\<exists>e. fst (recover_preps db env 0 (sort (filter (\<lambda>n. HasSuffix n prepSuffix) names)) st) = Inl e" by (rule recover_preps_stuck)
  then show ?thesis using w assms(1) by (simp add: recoverOpenlog_def beginOpenlogWriteAttempt_def Let_def)
qed

text \<open>Block 7 holds the Document at offset 64 and, from offset 90, the bytes of a write that never committed.\<close>

definition orphan_candidate :: openlogTruncationCandidate where
  "orphan_candidate = \<lparr>tcPrepName = lit ''w.prep'', tcTxID = lit ''t2'', tcDocName = lit ''d'', tcBlockID = 7, tcStartOffset = 90\<rparr>"

definition orphan_shard :: "(bytes \<times> bytes) list shard" where
  "orphan_shard = two_block_shard\<lparr>shBlkFiles := [7 \<mapsto> replicate 100 9], shOpenlog := \<lparr>dfiles = [lit ''w.prep'' \<mapsto> Some zero_prep], dsched = []\<rparr>\<rparr>"

lemma orphan_facts:
  "holds two_block_files orphan_shard" "shIndex orphan_shard = shIndex two_block_shard" "two_block_files 7 = Some [sample_tx_entry (lit ''a'')]"
  "\<not> shIdxNil orphan_shard" "FirstFrameOff (sample_tx_entry n) = 64"
proof -
  have "same_index two_block_shard orphan_shard" by (simp add: same_index_def orphan_shard_def)
  then show "holds two_block_files orphan_shard" using same_index_holds two_block_facts(1) by blast
qed (simp_all add: orphan_shard_def two_block_files_def two_block_shard_def with_index_def sample_shard_def sample_tx_entry_def sample_entry_def)

theorem openlog_recovery_safe_witness:
  "document_bytes (snd (resolveOpenlogTruncations mem_pebble (\<lambda>_. calm_recover) 0 [orphan_candidate] orphan_shard)) 7 (sample_tx_entry (lit ''a'')) 26 = Some (replicate 26 9)"
proof -
  have "document_bytes (snd (resolveOpenlogTruncations mem_pebble (\<lambda>_. calm_recover) 0 [orphan_candidate] orphan_shard)) 7 (sample_tx_entry (lit ''a'')) 26 =
      document_bytes orphan_shard 7 (sample_tx_entry (lit ''a'')) 26"
    by (rule openlog_recovery_safe [OF orphan_facts(1) surjective_pairing, THEN conjunct2, THEN conjunct2, rule_format, where es = "[sample_tx_entry (lit ''a'')]"])
      (simp add: clear_of_def orphan_candidate_def orphan_facts(3,5))
  then show ?thesis by (simp add: document_bytes_def orphan_shard_def orphan_facts(5))
qed

theorem openlog_recovery_completes_witness:
  "\<exists>st'. resolveOpenlogTruncations mem_pebble (\<lambda>_. calm_recover) 0 [orphan_candidate] orphan_shard = (None, st') \<and> reclaimed orphan_candidate st'"
proof -
  have "tx_consistent two_block_files (entries map_of (shIndex orphan_shard)) (tcTxID orphan_candidate)"
    by (simp add: tx_consistent_def orphan_facts(2) two_block_facts(2) orphan_candidate_def lit_def)
  moreover have "nothing_above two_block_files orphan_candidate" "dfiles (shOpenlog orphan_shard) (tcPrepName orphan_candidate) \<noteq> None" "dsched (shOpenlog orphan_shard) = []"
      "0 \<le> tcStartOffset orphan_candidate"
    by (simp_all add: nothing_above_def orphan_candidate_def orphan_facts(3,5) orphan_shard_def)
  moreover have "store_ok plain_json map_of (shIndex orphan_shard)" by (simp add: orphan_facts(2) two_block_facts(3))
  ultimately show ?thesis
    using openlog_recovery_completes [OF mem_pebble_ok mem_pebble_total orphan_facts(1,4), of plain_json "[orphan_candidate]" 0] by (simp del: resolveOpenlogTruncations.simps)
qed

theorem torn_prep_blocks_start_witness:
  "isl (fst (recoverOpenlog mem_pebble (\<lambda>_. calm_recover) (DirNames [prepPath (lit ''w'')])
     (orphan_shard\<lparr>shOpenlog := snd (beginOpenlogWriteAttempt (\<lambda>_. True) None (lit ''w'')
        \<lparr>wcTxID = lit ''t2'', wcDocName = lit ''d'', wcContentType = [], wcIdempotencyKey = [], wcBlockID = 7, wcStartOffset = 90\<rparr>
        \<lparr>dfiles = Map.empty, dsched = [True, False]\<rparr>)\<rparr>)))"
proof -
  let ?cfg = "\<lparr>wcTxID = lit ''t2'', wcDocName = lit ''d'', wcContentType = [], wcIdempotencyKey = [], wcBlockID = 7, wcStartOffset = 90\<rparr>"
  let ?d = "\<lparr>dfiles = Map.empty, dsched = [True, False]\<rparr> :: OpenlogEntry option dirfs"
  have "\<exists>e. fst (recoverOpenlog mem_pebble (\<lambda>_. calm_recover) (DirNames [prepPath (lit ''w'')])
      (orphan_shard\<lparr>shOpenlog := snd (beginOpenlogWriteAttempt (\<lambda>_. True) None (lit ''w'') ?cfg ?d)\<rparr>)) = Inl e"
    by (rule torn_prep_blocks_start [THEN conjunct2]) simp_all
  then show ?thesis by auto
qed

end
