(* ===== verification/Spec2Isabelle.thy ===== *)
theory Spec2Isabelle
  imports Block_Frame Block_Index_File Block_Verify_Retry Block_Files Routing Ulid Admission
    Eviction_Campaign Local_Lifecycle Store_Validation Shard_Openlog
begin

text \<open>
  A verification library for the storage engine of S.C.R.A.P.

  \<^bold>\<open>The program.\<close> A cell of members stores Documents. A Document belongs to a Transaction; the
  Transaction is hashed to a slot and the slot is placed on a Shard (\<open>internal/routing\<close>). A Shard appends
  the Frames of a Document to its open Block (\<open>internal/block\<close>), after leaving a preparation record in the
  openlog, and proposes a commit. When the commit is applied, the Document is appended to the index file
  of its Block and counted in the Projection, a Pebble key-value store (\<open>internal/index\<close>). A full Block is
  sealed, uploaded to a Backend, and may then be evicted and restored (\<open>internal/shard\<close>,
  \<open>internal/eviction\<close>, \<open>internal/localblock\<close>). After a crash the Shard scans its directory, replays the
  committed commands, cuts off bytes that belong to no committed Document, and owes again every closed
  Block whose upload is not recorded. All paths below are relative to \<open>src/\<close>.

  \<^bold>\<open>Conventions.\<close> Go's \<open>[]byte\<close> and \<open>string\<close> are lists of 8-bit words, \<open>uintN\<close> is an N-bit word,
  \<open>int64\<close> is an integer with its range and wrap-around written out, an instant is a number of nanoseconds.
  Errors are values of a datatype per package, one constructor per error the source distinguishes. State is
  passed explicitly. A file (\<open>Go_IO\<close>) or a directory (\<open>Block_Files\<close>) carries a schedule of outcomes: every
  call takes the next one, so a theorem over all schedules covers every short write, every failed call and
  every crash, which is a schedule that fails from some point on. An exhausted schedule means that nothing
  fails any more; liveness properties are stated there.

  \<^bold>\<open>Foundations.\<close>
  \<^item> \<open>Scrap_Prelude\<close>: byte strings, slices, \<open>encoding/binary\<close>; locale \<open>fixed_codec\<close>, interpreted on the four
    integer encodings the code uses.
  \<^item> \<open>Go_Hash\<close>: CRC-32C, SHA-256 and FNV-1a as executable functions; a changed byte changes the CRC-32C.
  \<^item> \<open>Go_IO\<close>: \<open>os.File\<close> and package \<open>io\<close> on a device with faults.

  \<^bold>\<open>Blocks\<close> (\<open>internal/block\<close>).
  \<^item> \<open>Block_Frame\<close> (\<open>frame.go\<close>): written Frames are read back, changed bytes are detected.
  \<^item> \<open>Block_Index\<close>, \<open>Block_Index_File\<close> (\<open>index.go\<close>): appended entries are read back in order; what each cut of
    an append leaves and what the repair makes of it; the replacement of an envelope is atomic.
  \<^item> \<open>Block_Writer\<close>, \<open>Block_Document\<close> (\<open>header.go\<close>, \<open>writer.go\<close>): the three append operations satisfy the
    locale \<open>append_log\<close> and refine appending to a list of Documents; rollback, reopening, torn tails.
  \<^item> \<open>Block_Reader\<close> (\<open>reader.go\<close>): what was appended is read back; nothing unverified is returned.
  \<^item> \<open>Block_Verify\<close>, \<open>Block_Verify_Sound\<close>, \<open>Block_Verify_Retry\<close> (\<open>verify.go\<close>): the verification accepts intact
    Blocks, finds every changed byte and every truncation, and is not misled by one transient fault.
  \<^item> \<open>Block_Files\<close> (\<open>listing.go\<close>, \<open>quarantine.go\<close>): names, listings and quarantine.

  \<^bold>\<open>The Projection\<close> (\<open>internal/index\<close>).
  \<^item> \<open>Projection_Store\<close> (\<open>index.go\<close>, \<open>applied_index.go\<close>): Pebble is the record \<open>pebble\<close> of its operations with the
    documented laws \<open>pebble_ok\<close> (a failed write took effect whole or not at all) and \<open>pebble_total\<close> (no call fails);
    \<open>mem_pebble\<close> is an instance. Locales \<open>kv_table\<close> and \<open>scan_table\<close> state what a table of the store promises;
    the writes refine updates of a map.
  \<^item> \<open>Upload_Records\<close>, \<open>Projection_Uploads\<close> (\<open>upload_outbox.go\<close>, \<open>confirmed_upload_catalog.go\<close>): two further
    tables, both interpretations of \<open>scan_table\<close>. The JSON text of a row is a parameter with a round-trip
    law; \<open>plain_json\<close> is an instance.
  \<^item> \<open>Projection_Resolve\<close> (\<open>resolution.go\<close>): a Transaction is served whole or not at all.

  \<^bold>\<open>The Shard\<close> (\<open>internal/shard\<close>).
  \<^item> \<open>Shard_Commit\<close>, \<open>Shard_Commit_Sound\<close>, \<open>Shard_Commit_Replay\<close>, \<open>Shard_Commit_Serve\<close> (\<open>projection.go\<close>,
    \<open>replay_conflict.go\<close>, \<open>upload_generation.go\<close>): applying a committed Document. The states an interrupted
    apply can leave are the inductive predicate \<open>commit_phase\<close>; from each, the replay completes the apply,
    once; a reader then sees the Document.
  \<^item> \<open>Shard_Outbox\<close> (\<open>upload_obligations.go\<close>, \<open>confirmed_upload_authority.go\<close>, \<open>upload_outbox_events.go\<close>,
    \<open>block_upload_lifecycle.go\<close>): a Block leaves the outbox only with evidence of its upload; replays complete,
    with one order of commands in which they regress; pressure totals; retries.
  \<^item> \<open>Shard_Seal\<close> (\<open>seal_intent.go\<close>, \<open>blockfiles.go\<close>, handlers of \<open>upload.go\<close>): a sealed Block survives a crash,
    the reconciliation accounts for every closed Block, Block ids are not reused.
  \<^item> \<open>Shard_Openlog\<close> (\<open>openlog.go\<close>, \<open>openlog_write_attempt.go\<close>, lookups of \<open>projection.go\<close>): recovery keeps the
    bytes of committed Documents and reclaims the others; a torn record stops it.

  \<^bold>\<open>Around them.\<close>
  \<^item> \<open>Local_Block\<close>, \<open>Local_Lifecycle\<close> (\<open>internal/localblock\<close>): markers, classification, publishing a restored Block.
  \<^item> \<open>Eviction_Plan\<close>, \<open>Eviction_Campaign\<close> (\<open>internal/eviction\<close>): what a plan selects; the registry of campaigns
    as a step relation with its invariant.
  \<^item> \<open>Routing\<close>, \<open>Ulid\<close>, \<open>Admission\<close>, \<open>Store_Validation\<close> (the packages of these names): placements, identifiers,
    the byte budget as a step relation, limits on what a client sends.

  \<^bold>\<open>Termination and fuel.\<close> Loops are structural recursion or come with a measure. Every round of the
  recovery scan and of the index readers consumes bytes of the file; a round of the verification consumes
  bytes of the file or an outcome of the schedule, and its retries are bounded by the source. Only \<open>drain_frames\<close>, which stands for a client calling \<open>NextFrame\<close>, takes a
  number of calls, and its agreement with the whole read is stated for one call more than the Frames of
  the Document.

  \<^bold>\<open>Not modelled.\<close>
  \<^item> The etcd Raft library and its wiring (\<open>internal/raft\<close>), and the peer and public gRPC services
    (\<open>internal/peer\<close>, \<open>internal/server\<close>): network code; the development starts from committed commands in log
    order. For the same reason \<open>shard.go\<close>, \<open>apply.go\<close> and the rest of \<open>replication.go\<close> and \<open>replica_repair.go\<close> are
    not translated, so nothing is shown about agreement between members.
  \<^item> The loops that act on the modelled state: upload and restore controllers, scrub, scanner, rewrap, the
    Shard's side of eviction, rebuild of a Projection. They are timers, metrics and calls of a Backend, a
    key service or a peer around the operations above.
  \<^item> Content quarantine and the scanner watermark, two further tables of the Projection.
  \<^item> Cryptography and key services (\<open>internal/encryption\<close>), TLS and authorization (\<open>internal/security\<close>), object
    storage (\<open>internal/backend\<close>): libraries and remote services.
  \<^item> Configuration, command line tools, admin pages, telemetry, logging and generated code.
  \<^item> The text of JSON and protobuf files, which are their decoded values here, and concurrency inside a Shard:
    its operations run under one lock and are atomic in the model.
\<close>

end
